(* ===== verification/Prelude.thy ===== *)
theory Prelude
  imports Main "HOL-Library.Word" "HOL-Library.List_Lexorder" "HOL-Library.Sublist"
begin

unbundle bit_operations_syntax

text \<open>
  Shared vocabulary of the development: byte strings, the outcome of a fallible Rust
  call (a value, an error of the call's error type, a panic, or a wait that never ends), the
  sequencing of such calls (the question-mark operator and \<open>map_err\<close>), and the facts on
  byte-wise lexicographic order that every component uses. The order on byte strings is
  that of \<open>HOL-Library.List_Lexorder\<close>, which is the order of \<open>Vec<u8>\<close> in Rust: compare the
  first differing byte as an unsigned number, a proper prefix comes first.
\<close>

section \<open>Names, bytes and collections of hints\<close>

type_synonym byte = "8 word"
type_synonym bytes = "8 word list"
type_synonym name = string

named_theorems outcome_simps \<open>evaluation of outcomes and their sequencing\<close>
named_theorems lex_intros \<open>introduction rules for the strict byte-wise order\<close>
named_theorems refine_intros \<open>rules that relate a backend run to the reference run\<close>

section \<open>Outcomes\<close>

text \<open>
  \<open>Ret\<close> is a normal return (or \<open>Ok\<close>), \<open>Fail\<close> an \<open>Err\<close>, \<open>Panicked\<close> a panic and
  \<open>Hung\<close> a wait on a lock that nobody will release.
\<close>

datatype ('e, 'a) outcome = Ret 'a | Fail 'e | Panicked | Hung

fun and_then :: "('e, 'a) outcome \<Rightarrow> ('a \<Rightarrow> ('e, 'b) outcome) \<Rightarrow> ('e, 'b) outcome" where
  "and_then (Ret a) k = k a"
| "and_then (Fail e) k = Fail e"
| "and_then Panicked k = Panicked"
| "and_then Hung k = Hung"

fun map_ret :: "('a \<Rightarrow> 'b) \<Rightarrow> ('e, 'a) outcome \<Rightarrow> ('e, 'b) outcome" where
  "map_ret f (Ret a) = Ret (f a)"
| "map_ret f (Fail e) = Fail e"
| "map_ret f Panicked = Panicked"
| "map_ret f Hung = Hung"

fun map_err :: "('e \<Rightarrow> 'f) \<Rightarrow> ('e, 'a) outcome \<Rightarrow> ('f, 'a) outcome" where
  "map_err g (Ret a) = Ret a"
| "map_err g (Fail e) = Fail (g e)"
| "map_err g Panicked = Panicked"
| "map_err g Hung = Hung"

text \<open>\<open>Option::unwrap\<close>: a missing value is a panic.\<close>

fun unwrap :: "'a option \<Rightarrow> ('e, 'a) outcome" where
  "unwrap None = Panicked"
| "unwrap (Some a) = Ret a"

declare and_then.simps [outcome_simps] map_ret.simps [outcome_simps]
  map_err.simps [outcome_simps] unwrap.simps [outcome_simps]

lemma and_then_assoc [outcome_simps]:
  "and_then (and_then x f) g = and_then x (\<lambda>a. and_then (f a) g)"
  by (cases x) simp_all

lemma and_then_Ret_right [simp]: "and_then x Ret = x"
  by (cases x) simp_all

lemma and_then_eq_Ret:
  "and_then x k = Ret b \<longleftrightarrow> (\<exists>a. x = Ret a \<and> k a = Ret b)"
  by (cases x) simp_all

lemma map_ret_id [simp]: "map_ret (\<lambda>a. a) x = x"
  by (cases x) simp_all

lemma map_ret_eq_Ret: "map_ret f x = Ret b \<longleftrightarrow> (\<exists>a. x = Ret a \<and> b = f a)"
  by (cases x) auto

lemma map_ret_eq_Fail [simp]: "map_ret f x = Fail e \<longleftrightarrow> x = Fail e"
  by (cases x) simp_all

lemma map_ret_map_ret [simp]: "map_ret g (map_ret f x) = map_ret (g \<circ> f) x"
  by (cases x) simp_all

lemma map_err_eq_Ret [simp]: "map_err g x = Ret a \<longleftrightarrow> x = Ret a"
  by (cases x) simp_all

lemma map_err_eq_Fail: "map_err g x = Fail f \<longleftrightarrow> (\<exists>e. x = Fail e \<and> f = g e)"
  by (cases x) auto

lemma map_err_unwrap [simp]: "map_err g (unwrap x) = unwrap x"
  by (cases x) simp_all

lemma unwrap_eq_Ret [simp]: "unwrap x = Ret a \<longleftrightarrow> x = Some a"
  by (cases x) simp_all

lemma unwrap_eq_Panicked [simp]: "unwrap x = Panicked \<longleftrightarrow> x = None"
  by (cases x) simp_all

lemma unwrap_neq [simp]: "unwrap x \<noteq> Fail e" "unwrap x \<noteq> Hung"
  by (cases x; simp)+

section \<open>Byte-wise order\<close>

text \<open>
  \<open>differs_below a b\<close>: the two strings differ at a position both have, and \<open>a\<close> is the
  smaller one there. Unlike \<open>a < b\<close> it survives whatever is appended on either side, which
  is what a component of a composite key needs.
\<close>

fun differs_below :: "bytes \<Rightarrow> bytes \<Rightarrow> bool" where
  "differs_below (x # xs) (y # ys) \<longleftrightarrow> x < y \<or> x = y \<and> differs_below xs ys"
| "differs_below _ _ \<longleftrightarrow> False"

lemma differs_below_append [lex_intros]: "differs_below a b \<Longrightarrow> differs_below (a @ r) (b @ s)"
  by (induction a b rule: differs_below.induct) auto

lemma differs_below_append_iff [simp]: "differs_below (p @ a) (p @ b) \<longleftrightarrow> differs_below a b"
  by (induction p) auto

lemma differs_below_less [lex_intros]: "differs_below a b \<Longrightarrow> a < b"
  by (induction a b rule: differs_below.induct) auto

lemma differs_below_less_append: "differs_below a b \<Longrightarrow> a @ r < b @ s"
  by (blast intro: lex_intros)

lemma differs_below_irrefl [simp]: "\<not> differs_below a a"
  by (induction a) auto

lemma differs_below_asym: "differs_below a b \<Longrightarrow> \<not> differs_below b a"
  by (induction a b rule: differs_below.induct) auto

lemma differs_below_not_prefix: "differs_below a b \<Longrightarrow> \<not> prefix a (b @ r) \<and> \<not> prefix b (a @ r)"
  by (induction a b rule: differs_below.induct) auto

lemma Nil_less_iff [simp]: "[] < (b :: bytes) \<longleftrightarrow> b \<noteq> []"
  by (cases b) auto

lemma less_iff_prefix_or_differs: "a < b \<longleftrightarrow> strict_prefix a b \<or> differs_below a b"
  by (induction a b rule: differs_below.induct) (auto simp: strict_prefix_def)

lemma differs_below_trichotomy: "prefix a b \<or> prefix b a \<or> differs_below a b \<or> differs_below b a"
  by (induction a b rule: differs_below.induct) auto

lemma append_less_append [simp]: "p @ a < p @ b \<longleftrightarrow> a < (b :: bytes)"
  by (induction p) auto

lemma prefix_le: "prefix a b \<Longrightarrow> a \<le> (b :: bytes)"
  by (induction a b rule: differs_below.induct) (auto simp: list_le_def)

lemma append_le_append [simp]: "p @ a \<le> p @ b \<longleftrightarrow> a \<le> (b :: bytes)"
  by (simp add: le_less)

lemma le_append [simp]: "a \<le> a @ (b :: bytes)"
  by (simp add: prefix_le)

lemma append_not_less [simp]: "\<not> a @ b < (a :: bytes)"
  using le_append [of a b] by (simp add: not_less)

lemma byte_le_max [simp]: "(b :: byte) \<le> 255"
proof -
  have "(- 1 :: byte) = 255" by simp
  then show ?thesis using word_order.extremum [of b] by metis
qed

lemma byte_not_less_max [simp]: "\<not> (255 :: byte) < b"
  by (simp add: not_less)

lemma byte_less_max: "b \<noteq> 255 \<longleftrightarrow> b < (255 :: byte)"
  using byte_le_max [of b] by (auto simp: le_less)

lemma byte_less_add_one: "(b :: byte) \<noteq> 255 \<Longrightarrow> x < b + 1 \<longleftrightarrow> x \<le> b"
  by (unat_arith) (auto simp: unat_arith_simps split: if_splits)

end
