(* ===== verification/Ranges.thy ===== *)
theory Ranges
  imports Prelude
begin

text \<open>
  \<open>std::ops::Bound\<close> and \<open>RangeBounds\<close>, over any strict order: the same range type is used
  for the logical keys an application names and for the encoded bytes a store is scanned with.
\<close>

datatype 'a bound = Included 'a | Excluded 'a | Unbounded

type_synonym scan_bound = "bytes bound"
type_synonym scan_range = "bytes bound \<times> bytes bound"

fun start_ok :: "('a \<Rightarrow> 'a \<Rightarrow> bool) \<Rightarrow> 'a bound \<Rightarrow> 'a \<Rightarrow> bool" where
  "start_ok lt (Included s) k \<longleftrightarrow> lt s k \<or> s = k"
| "start_ok lt (Excluded s) k \<longleftrightarrow> lt s k"
| "start_ok lt Unbounded k \<longleftrightarrow> True"

fun end_ok :: "('a \<Rightarrow> 'a \<Rightarrow> bool) \<Rightarrow> 'a bound \<Rightarrow> 'a \<Rightarrow> bool" where
  "end_ok lt (Included e) k \<longleftrightarrow> lt k e \<or> k = e"
| "end_ok lt (Excluded e) k \<longleftrightarrow> lt k e"
| "end_ok lt Unbounded k \<longleftrightarrow> True"

text \<open>\<open>RangeBounds::contains\<close>.\<close>

fun contains :: "('a \<Rightarrow> 'a \<Rightarrow> bool) \<Rightarrow> 'a bound \<times> 'a bound \<Rightarrow> 'a \<Rightarrow> bool" where
  "contains lt (s, e) k \<longleftrightarrow> start_ok lt s k \<and> end_ok lt e k"

fun bound_key :: "'a bound \<Rightarrow> 'a option" where
  "bound_key (Included k) = Some k"
| "bound_key (Excluded k) = Some k"
| "bound_key Unbounded = None"

text \<open>The keys a bound names are values of the Rust type.\<close>

definition bound_valid :: "('a \<Rightarrow> bool) \<Rightarrow> 'a bound \<Rightarrow> bool" where
  "bound_valid valid b \<longleftrightarrow> (case bound_key b of None \<Rightarrow> True | Some k \<Rightarrow> valid k)"

lemma bound_valid_simps [simp]:
  "bound_valid valid (Included k) \<longleftrightarrow> valid k"
  "bound_valid valid (Excluded k) \<longleftrightarrow> valid k"
  "bound_valid valid Unbounded"
  by (simp_all add: bound_valid_def)

lemma bound_valid_True [simp]: "bound_valid (\<lambda>_. True) b"
  by (cases b) simp_all

lemma contains_pair: "contains lt r k \<longleftrightarrow> start_ok lt (fst r) k \<and> end_ok lt (snd r) k"
  by (cases r) simp

text \<open>
  \<open>BTreeMap::range\<close> panics when the start is above the end, and when both bounds are excluded and
  equal.
\<close>

fun range_panics :: "'a::linorder bound \<times> 'a bound \<Rightarrow> bool" where
  "range_panics (Included s, Included e) \<longleftrightarrow> e < s"
| "range_panics (Included s, Excluded e) \<longleftrightarrow> e < s"
| "range_panics (Excluded s, Included e) \<longleftrightarrow> e < s"
| "range_panics (Excluded s, Excluded e) \<longleftrightarrow> e \<le> s"
| "range_panics _ \<longleftrightarrow> False"

text \<open>The same of a range of logical keys, by the order of those keys.\<close>

fun malformed :: "('a \<Rightarrow> 'a \<Rightarrow> bool) \<Rightarrow> 'a bound \<times> 'a bound \<Rightarrow> bool" where
  "malformed lt (Included s, Included e) \<longleftrightarrow> lt e s"
| "malformed lt (Included s, Excluded e) \<longleftrightarrow> lt e s"
| "malformed lt (Excluded s, Included e) \<longleftrightarrow> lt e s"
| "malformed lt (Excluded s, Excluded e) \<longleftrightarrow> lt e s \<or> s = e"
| "malformed lt _ \<longleftrightarrow> False"

lemma range_panics_malformed: "range_panics r \<longleftrightarrow> malformed (<) r"
  by (induction r rule: range_panics.induct) auto

text \<open>A range that contains some key is safe, and stays safe when that key becomes a bound.\<close>

lemma contains_no_panic: "contains (<) r k \<Longrightarrow> \<not> range_panics r"
  by (induction r rule: range_panics.induct) auto

lemma contains_tighten_start: "contains (<) (s, e) k \<Longrightarrow> \<not> range_panics (Excluded k, e)"
  by (cases e) auto

lemma contains_tighten_end: "contains (<) (s, e) k \<Longrightarrow> \<not> range_panics (s, Excluded k)"
  by (cases s) auto

end
