(* ===== verification/BTree.thy ===== *)
theory BTree
  imports Ranges
begin

text \<open>
  \<open>std::collections::BTreeMap<Vec<u8>, Vec<u8>>\<close>, the ordered map behind every store of the
  in-memory backend: a list of entries in strictly ascending key order. The lemmas relate
  each operation to the finite map it stands for, and show that a range scan lists exactly
  the entries of the range, in order.
\<close>

type_synonym entry = "bytes \<times> bytes"
type_synonym kv_store = "entry list"

section \<open>Operations\<close>

definition bt_get :: "bytes \<Rightarrow> kv_store \<Rightarrow> bytes option" where
  "bt_get k kv = map_of kv k"

fun bt_insert :: "bytes \<Rightarrow> bytes \<Rightarrow> kv_store \<Rightarrow> kv_store" where
  "bt_insert k v [] = [(k, v)]"
| "bt_insert k v ((k', v') # kv) =
     (if k < k' then (k, v) # (k', v') # kv
      else if k = k' then (k, v) # kv
      else (k', v') # bt_insert k v kv)"

definition bt_remove :: "bytes \<Rightarrow> kv_store \<Rightarrow> kv_store" where
  "bt_remove k kv = filter (\<lambda>e. fst e \<noteq> k) kv"

text \<open>\<open>BTreeMap::range\<close>; \<open>None\<close> is its panic on a malformed range, which its documentation promises of
  every map, also of an empty one.\<close>

definition bt_range :: "scan_range \<Rightarrow> kv_store \<Rightarrow> entry list option" where
  "bt_range r kv = (if range_panics r then None else Some (filter (\<lambda>e. contains (<) r (fst e)) kv))"

section \<open>The invariant\<close>

definition bt_ok :: "kv_store \<Rightarrow> bool" where
  "bt_ok kv \<longleftrightarrow> sorted_wrt (<) (List.map fst kv)"

lemma bt_ok_Nil [simp]: "bt_ok []"
  by (simp add: bt_ok_def)

lemma bt_ok_Cons: "bt_ok (e # kv) \<longleftrightarrow> (\<forall>f \<in> set kv. fst e < fst f) \<and> bt_ok kv"
  by (auto simp: bt_ok_def)

lemma bt_ok_distinct: "bt_ok kv \<Longrightarrow> distinct (List.map fst kv)"
  by (auto simp: bt_ok_def strict_sorted_iff)

lemma set_bt_insert: "set (bt_insert k v kv) \<subseteq> insert (k, v) (set kv)"
  by (induction k v kv rule: bt_insert.induct) auto

lemma bt_ok_insert [simp]: "bt_ok kv \<Longrightarrow> bt_ok (bt_insert k v kv)"
proof (induction k v kv rule: bt_insert.induct)
  case (2 k v k' v' kv)
  then show ?case
    using set_bt_insert [of k v kv] by (auto simp: bt_ok_Cons not_less_iff_gr_or_eq)
qed (simp add: bt_ok_Cons)

lemma bt_ok_filter [simp]: "bt_ok kv \<Longrightarrow> bt_ok (filter P kv)"
  by (induction kv) (auto simp: bt_ok_Cons)

lemma bt_ok_remove [simp]: "bt_ok kv \<Longrightarrow> bt_ok (bt_remove k kv)"
  by (simp add: bt_remove_def)

section \<open>The map a tree stands for\<close>

lemma bt_get_Nil [simp]: "bt_get k [] = None"
  by (simp add: bt_get_def)

lemma bt_get_insert [simp]:
  "bt_ok kv \<Longrightarrow> bt_get q (bt_insert k v kv) = (if q = k then Some v else bt_get q kv)"
proof (induction k v kv rule: bt_insert.induct)
  case (2 k v k' v' kv)
  have "k < k' \<Longrightarrow> map_of kv k = None"
    using 2(2) by (fastforce simp: bt_ok_Cons map_of_eq_None_iff)
  then show ?case using 2 by (auto simp: bt_get_def bt_ok_Cons)
qed (simp add: bt_get_def)

lemma bt_get_remove [simp]: "bt_get q (bt_remove k kv) = (if q = k then None else bt_get q kv)"
  by (induction kv) (auto simp: bt_get_def bt_remove_def)

lemma bt_get_Some_iff: "bt_ok kv \<Longrightarrow> bt_get k kv = Some v \<longleftrightarrow> (k, v) \<in> set kv"
  by (simp add: bt_get_def bt_ok_distinct)

text \<open>A tree is determined by its map.\<close>

lemma bt_ext: "bt_ok a \<Longrightarrow> bt_ok b \<Longrightarrow> (\<And>k. bt_get k a = bt_get k b) \<Longrightarrow> a = b"
proof -
  assume ok: "bt_ok a" "bt_ok b" and eq: "\<And>k. bt_get k a = bt_get k b"
  have sub: "set a = set b"
    using bt_get_Some_iff [OF ok(1)] bt_get_Some_iff [OF ok(2)] eq by auto
  have "inj_on fst (set a \<union> set b)"
    using bt_ok_distinct [OF ok(1)] by (simp add: sub [symmetric] distinct_map)
  then show "a = b"
    using ok sub by (intro map_sorted_distinct_set_unique [of fst]) (auto simp: bt_ok_def strict_sorted_iff)
qed

section \<open>Range scans\<close>

lemma bt_range_eq_None [simp]: "bt_range r kv = None \<longleftrightarrow> range_panics r"
  by (simp add: bt_range_def)

lemma bt_range_Some_iff:
  "bt_range r kv = Some es \<longleftrightarrow>
   \<not> range_panics r \<and> es = filter (\<lambda>e. contains (<) r (fst e)) kv"
  by (auto simp: bt_range_def)

lemma bt_range_set:
  "bt_ok kv \<Longrightarrow> bt_range r kv = Some es \<Longrightarrow>
   (k, v) \<in> set es \<longleftrightarrow> bt_get k kv = Some v \<and> contains (<) r k"
  by (auto simp: bt_range_Some_iff bt_get_Some_iff)

lemma bt_range_sorted: "bt_ok kv \<Longrightarrow> bt_range r kv = Some es \<Longrightarrow> bt_ok es"
  by (auto simp: bt_range_Some_iff)

end
