(* ===== verification/Errors.thy ===== *)
theory Errors
  imports Prelude
begin

text \<open>
  The error types of \<open>src/error.rs\<close>. A boxed \<open>dyn std::error::Error\<close> is its message and the
  error it reports as its source. Collette's own errors wrap such a value, keep its message
  and hand it on as their source, so that nothing of the cause is lost.
\<close>

section \<open>Boxed errors and their wrappers\<close>

datatype std_error = StdError (std_message: string) (std_source: "std_error option")

datatype backend_error = BackendError std_error
datatype codec_error = CodecError std_error

fun backend_error_as_std :: "backend_error \<Rightarrow> std_error" where
  "backend_error_as_std (BackendError e) = StdError (std_message e) (Some e)"

fun codec_error_as_std :: "codec_error \<Rightarrow> std_error" where
  "codec_error_as_std (CodecError e) = StdError (std_message e) (Some e)"

section \<open>The error of collection operations\<close>

datatype error =
    AlreadyExists string
  | NotFound string
  | CursorOutOfBounds
  | Backend backend_error
  | Codec codec_error
  | Unexpected string

definition error_backend :: "std_error \<Rightarrow> error" where
  "error_backend e = Backend (BackendError e)"

definition error_codec :: "std_error \<Rightarrow> error" where
  "error_codec e = Codec (CodecError e)"

text \<open>The \<open>Display\<close> text and the \<open>source\<close> that the attributes on the enum ask for.\<close>

fun error_to_string :: "error \<Rightarrow> string" where
  "error_to_string (AlreadyExists k) = ''key already exists: '' @ k"
| "error_to_string (NotFound k) = ''key not found: '' @ k"
| "error_to_string CursorOutOfBounds = ''cursor is outside scan bounds''"
| "error_to_string (Backend e) = ''backend error: '' @ std_message (backend_error_as_std e)"
| "error_to_string (Codec e) = ''serialization error: '' @ std_message (codec_error_as_std e)"
| "error_to_string (Unexpected m) = ''unexpected error: '' @ m"

fun error_source :: "error \<Rightarrow> std_error option" where
  "error_source (Backend e) = Some (backend_error_as_std e)"
| "error_source (Codec e) = Some (codec_error_as_std e)"
| "error_source _ = None"

lemma error_backend_neq [simp]:
  "error_backend e \<noteq> AlreadyExists m" "error_backend e \<noteq> NotFound m"
  "error_backend e \<noteq> CursorOutOfBounds" "error_backend e \<noteq> Unexpected m"
  "error_backend e \<noteq> error_codec f"
  by (simp_all add: error_backend_def error_codec_def)

lemma error_codec_neq [simp]:
  "error_codec e \<noteq> AlreadyExists m" "error_codec e \<noteq> NotFound m"
  "error_codec e \<noteq> CursorOutOfBounds" "error_codec e \<noteq> Unexpected m"
  "error_codec e \<noteq> error_backend f"
  by (simp_all add: error_backend_def error_codec_def)

lemma error_backend_inject [simp]: "error_backend e = error_backend f \<longleftrightarrow> e = f"
  by (simp add: error_backend_def)

lemma error_codec_inject [simp]: "error_codec e = error_codec f \<longleftrightarrow> e = f"
  by (simp add: error_codec_def)

lemma error_backend_chain:
  "error_to_string (error_backend e) = ''backend error: '' @ std_message e \<and>
   error_source (error_backend e) = Some (StdError (std_message e) (Some e))"
  by (cases e) (simp add: error_backend_def)

lemma error_codec_chain:
  "error_to_string (error_codec e) = ''serialization error: '' @ std_message e \<and>
   error_source (error_codec e) = Some (StdError (std_message e) (Some e))"
  by (cases e) (simp add: error_codec_def)

end
