(* ===== verification/Store.thy ===== *)
theory Store
  imports BTree Errors
begin

text \<open>
  The storage traits of \<open>src/store.rs\<close>: \<open>MultiStore\<close>, its read and write handles, and the stores
  they open. A backend is a record of its operations over its own types of database,
  handles and opened stores; its errors are boxed as \<open>std_error\<close>, as \<open>Error::backend\<close> does.
  A mutable store borrows its write handle: it is opened from a handle, mutated, and handed
  back by \<open>ws_close\<close> when the borrow ends. Dropping a write handle without a commit is
  \<open>ms_drop\<close>.

  The reference backend \<open>ref_ms\<close> is the specification the documentation of the traits gives: a
  handle is a copy of the namespace, and a commit publishes it at once. The locale
  \<open>lawful_multistore\<close> says what a backend owes to it: every operation does on the abstraction of
  its state what the reference does, except that it may also fail with an error of its own
  (one that satisfies \<open>may_fail\<close>), and then nothing is published.
\<close>

section \<open>The traits\<close>

datatype direction = LeftToRight | RightToLeft

type_synonym scan_results = "(std_error, entry) outcome list"

record ('db, 'rh, 'rs, 'wh, 'ws) multistore =
  ms_prepare :: "name \<Rightarrow> name list \<Rightarrow> 'db \<Rightarrow> (std_error, 'db) outcome"
  ms_read :: "name \<Rightarrow> 'db \<Rightarrow> (std_error, 'rh) outcome"
  ms_write :: "name \<Rightarrow> 'db \<Rightarrow> (std_error, 'wh \<times> 'db) outcome"
  rh_open :: "name \<Rightarrow> 'rh \<Rightarrow> (std_error, 'rs) outcome"
  rs_get :: "bytes \<Rightarrow> 'rs \<Rightarrow> (std_error, bytes option) outcome"
  rs_scan :: "scan_range \<Rightarrow> direction \<Rightarrow> 'rs \<Rightarrow> (std_error, scan_results) outcome"
  wh_open :: "name \<Rightarrow> 'wh \<Rightarrow> (std_error, 'ws) outcome"
  ws_get :: "bytes \<Rightarrow> 'ws \<Rightarrow> (std_error, bytes option) outcome"
  ws_set :: "bytes \<Rightarrow> bytes \<Rightarrow> 'ws \<Rightarrow> (std_error, 'ws) outcome"
  ws_remove :: "bytes \<Rightarrow> 'ws \<Rightarrow> (std_error, 'ws) outcome"
  ws_scan :: "scan_range \<Rightarrow> direction \<Rightarrow> 'ws \<Rightarrow> (std_error, scan_results) outcome"
  ws_close :: "'ws \<Rightarrow> 'wh"
  ms_drop :: "'wh \<Rightarrow> 'db \<Rightarrow> 'db"
  ms_commit :: "'wh \<Rightarrow> 'db \<Rightarrow> (std_error, unit) outcome \<times> 'db"

section \<open>The reference backend\<close>

type_synonym stores = "name \<Rightarrow> kv_store option"
type_synonym ref_db = "name \<Rightarrow> stores option"
type_synonym ref_write_handle = "name \<times> stores"
type_synonym ref_write_store = "name \<times> stores \<times> name"

definition ordered :: "direction \<Rightarrow> 'a list \<Rightarrow> 'a list" where
  "ordered d es = (case d of LeftToRight \<Rightarrow> es | RightToLeft \<Rightarrow> rev es)"

definition prepared_stores :: "name list \<Rightarrow> stores \<Rightarrow> stores" where
  "prepared_stores names S =
     (\<lambda>n. if n \<in> set names then Some (case S n of None \<Rightarrow> [] | Some kv \<Rightarrow> kv) else None)"

definition ref_prepare :: "name \<Rightarrow> name list \<Rightarrow> ref_db \<Rightarrow> (std_error, ref_db) outcome" where
  "ref_prepare ns names D =
     Ret (D(ns \<mapsto> prepared_stores names (case D ns of None \<Rightarrow> \<lambda>_. None | Some S \<Rightarrow> S)))"

definition ref_read :: "name \<Rightarrow> ref_db \<Rightarrow> (std_error, stores) outcome" where
  "ref_read ns D = unwrap (D ns)"

definition ref_write :: "name \<Rightarrow> ref_db \<Rightarrow> (std_error, ref_write_handle \<times> ref_db) outcome" where
  "ref_write ns D = map_ret (\<lambda>S. ((ns, S), D)) (unwrap (D ns))"

definition ref_open :: "name \<Rightarrow> stores \<Rightarrow> (std_error, kv_store) outcome" where
  "ref_open n S = unwrap (S n)"

definition ref_get :: "bytes \<Rightarrow> kv_store \<Rightarrow> (std_error, bytes option) outcome" where
  "ref_get k kv = Ret (bt_get k kv)"

definition ref_scan :: "scan_range \<Rightarrow> direction \<Rightarrow> kv_store \<Rightarrow> (std_error, scan_results) outcome" where
  "ref_scan r d kv = map_ret (\<lambda>es. List.map Ret (ordered d es)) (unwrap (bt_range r kv))"

definition ref_wopen :: "name \<Rightarrow> ref_write_handle \<Rightarrow> (std_error, ref_write_store) outcome" where
  "ref_wopen n tx = (case snd tx n of None \<Rightarrow> Panicked | Some _ \<Rightarrow> Ret (fst tx, snd tx, n))"

fun ref_opened :: "ref_write_store \<Rightarrow> kv_store" where
  "ref_opened (ns, S, n) = (case S n of None \<Rightarrow> [] | Some kv \<Rightarrow> kv)"

fun ref_update :: "(kv_store \<Rightarrow> kv_store) \<Rightarrow> ref_write_store \<Rightarrow> ref_write_store" where
  "ref_update f (ns, S, n) = (ns, S(n \<mapsto> f (ref_opened (ns, S, n))), n)"

fun ref_close :: "ref_write_store \<Rightarrow> ref_write_handle" where
  "ref_close (ns, S, n) = (ns, S)"

definition ref_commit :: "ref_write_handle \<Rightarrow> ref_db \<Rightarrow> (std_error, unit) outcome \<times> ref_db" where
  "ref_commit tx D = (Ret (), D(fst tx \<mapsto> snd tx))"

definition ref_ms :: "(ref_db, stores, kv_store, ref_write_handle, ref_write_store) multistore" where
  "ref_ms = \<lparr>
     ms_prepare = ref_prepare, ms_read = ref_read, ms_write = ref_write,
     rh_open = ref_open, rs_get = ref_get, rs_scan = ref_scan,
     wh_open = ref_wopen,
     ws_get = (\<lambda>k ws. ref_get k (ref_opened ws)),
     ws_set = (\<lambda>k v ws. Ret (ref_update (bt_insert k v) ws)),
     ws_remove = (\<lambda>k ws. Ret (ref_update (bt_remove k) ws)),
     ws_scan = (\<lambda>r d ws. ref_scan r d (ref_opened ws)),
     ws_close = ref_close,
     ms_drop = (\<lambda>tx D. D),
     ms_commit = ref_commit\<rparr>"

lemma ref_ms_simps [simp]:
  "ms_prepare ref_ms = ref_prepare" "ms_read ref_ms = ref_read" "ms_write ref_ms = ref_write"
  "rh_open ref_ms = ref_open" "rs_get ref_ms = ref_get" "rs_scan ref_ms = ref_scan"
  "wh_open ref_ms = ref_wopen" "ws_get ref_ms k ws = ref_get k (ref_opened ws)"
  "ws_set ref_ms k v ws = Ret (ref_update (bt_insert k v) ws)"
  "ws_remove ref_ms k ws = Ret (ref_update (bt_remove k) ws)"
  "ws_scan ref_ms r d ws = ref_scan r d (ref_opened ws)"
  "ws_close ref_ms = ref_close" "ms_drop ref_ms tx D = D" "ms_commit ref_ms = ref_commit"
  by (simp_all add: ref_ms_def)

text \<open>Every store of a namespace is an ordered map.\<close>

definition stores_ok :: "stores \<Rightarrow> bool" where
  "stores_ok S \<longleftrightarrow> (\<forall>n kv. S n = Some kv \<longrightarrow> bt_ok kv)"

definition db_ok :: "ref_db \<Rightarrow> bool" where
  "db_ok D \<longleftrightarrow> (\<forall>ns S. D ns = Some S \<longrightarrow> stores_ok S)"

lemma stores_okD: "stores_ok S \<Longrightarrow> S n = Some kv \<Longrightarrow> bt_ok kv"
  by (auto simp: stores_ok_def)

lemma db_okD: "db_ok D \<Longrightarrow> D ns = Some S \<Longrightarrow> stores_ok S"
  by (auto simp: db_ok_def)

lemma stores_ok_upd: "stores_ok S \<Longrightarrow> bt_ok kv \<Longrightarrow> stores_ok (S(n \<mapsto> kv))"
  by (auto simp: stores_ok_def)

lemma db_ok_upd: "db_ok D \<Longrightarrow> stores_ok S \<Longrightarrow> db_ok (D(ns \<mapsto> S))"
  by (auto simp: db_ok_def)

lemma stores_ok_prepared: "stores_ok S \<Longrightarrow> stores_ok (prepared_stores names S)"
  by (auto simp: stores_ok_def prepared_stores_def split: option.splits)

section \<open>Refinement of fallible calls\<close>

text \<open>
  \<open>refines B P \<alpha> x y\<close>: the call \<open>x\<close> fails with an error in \<open>B\<close>, or it does what \<open>y\<close> does on the
  abstraction \<open>\<alpha>\<close> of its value, and its value satisfies \<open>P\<close>.
\<close>

definition refines ::
  "('e \<Rightarrow> bool) \<Rightarrow> ('a \<Rightarrow> bool) \<Rightarrow> ('a \<Rightarrow> 'b) \<Rightarrow> ('e, 'a) outcome \<Rightarrow> ('e, 'b) outcome \<Rightarrow> bool" where
  "refines B P \<alpha> x y \<longleftrightarrow>
     (\<exists>e. x = Fail e \<and> B e) \<or> map_ret \<alpha> x = y \<and> (\<forall>a. x = Ret a \<longrightarrow> P a)"

text \<open>The errors of a collection call that come from the backend.\<close>

definition backend_failed :: "(std_error \<Rightarrow> bool) \<Rightarrow> error \<Rightarrow> bool" where
  "backend_failed may_fail e \<longleftrightarrow> (\<exists>s. e = error_backend s \<and> may_fail s)"

lemma backend_failed_False [simp]: "\<not> backend_failed (\<lambda>_. False) e"
  by (simp add: backend_failed_def)

lemma refines_Ret [refine_intros]: "P a \<Longrightarrow> \<alpha> a = b \<Longrightarrow> refines B P \<alpha> (Ret a) (Ret b)"
  by (simp add: refines_def)

lemma refines_Fail [refine_intros]: "refines B P \<alpha> (Fail e) (Fail e)"
  by (simp add: refines_def)

lemma refines_same [refine_intros]: "refines B (\<lambda>_. True) (\<lambda>a. a) x x"
  by (simp add: refines_def)

lemma refines_map_err [refine_intros]:
  "refines M P \<alpha> x y \<Longrightarrow>
   refines (backend_failed M) P \<alpha> (map_err error_backend x) (map_err error_backend y)"
  by (cases x) (auto simp: refines_def backend_failed_def)

lemma refines_and_then:
  "refines B P \<alpha> x y \<Longrightarrow> (\<And>a. P a \<Longrightarrow> refines B Q \<beta> (f a) (g (\<alpha> a))) \<Longrightarrow>
   refines B Q \<beta> (and_then x f) (and_then y g)"
  by (cases x) (fastforce simp: refines_def)+

lemma refines_weaken:
  "refines B P \<alpha> x y \<Longrightarrow> (\<And>a. P a \<Longrightarrow> Q a) \<Longrightarrow> refines B Q \<alpha> x y"
  by (auto simp: refines_def)

lemma refines_strengthen:
  "refines B P \<alpha> x y \<Longrightarrow> (\<And>a. P a \<Longrightarrow> y = Ret (\<alpha> a) \<Longrightarrow> Q a) \<Longrightarrow> refines B Q \<alpha> x y"
  by (cases x) (auto simp: refines_def)

lemma refines_map_ret:
  "refines B P \<alpha> x y \<Longrightarrow> (\<And>a. P a \<Longrightarrow> Q (f a) \<and> \<beta> (f a) = g (\<alpha> a)) \<Longrightarrow>
   refines B Q \<beta> (map_ret f x) (map_ret g y)"
  by (cases x) (auto simp: refines_def)

lemma refines_RetD: "refines B P \<alpha> (Ret a) y \<Longrightarrow> y = Ret (\<alpha> a) \<and> P a"
  by (auto simp: refines_def)

text \<open>The entries of a scan are read one by one: each is the entry of the reference, or an error.\<close>

definition scan_refines ::
  "(std_error \<Rightarrow> bool) \<Rightarrow> (std_error, scan_results) outcome \<Rightarrow> (std_error, scan_results) outcome \<Rightarrow> bool" where
  "scan_refines B x y \<longleftrightarrow>
     (\<exists>e. x = Fail e \<and> B e) \<or>
     (\<exists>xs ys. x = Ret xs \<and> y = Ret ys \<and> list_all2 (\<lambda>a b. a = b \<or> (\<exists>e. a = Fail e \<and> B e)) xs ys)"

lemma scan_refines_Ret: "scan_refines B (Ret xs) (Ret xs)"
  by (simp add: scan_refines_def list_all2_refl)

section \<open>The contract of a backend\<close>

text \<open>
  \<open>prepared\<close>: what preparing the stores \<open>names\<close> of the namespace \<open>ns\<close> may do. The stores that the
  namespace had and that are named again keep their content; a store that it did not have is
  an ordered map, which a persistent backend finds in its file.
\<close>

definition prepared :: "name \<Rightarrow> name list \<Rightarrow> ref_db \<Rightarrow> ref_db \<Rightarrow> bool" where
  "prepared ns names D D' \<longleftrightarrow>
     (\<exists>S'. D' = D(ns \<mapsto> S') \<and> stores_ok S' \<and> dom S' = set names \<and>
           (\<forall>S n. D ns = Some S \<longrightarrow> n \<in> set names \<longrightarrow> S n \<noteq> None \<longrightarrow> S' n = S n))"

lemma prepared_ref:
  "db_ok D \<Longrightarrow> prepared ns names D
     (D(ns \<mapsto> prepared_stores names (case D ns of None \<Rightarrow> \<lambda>_. None | Some S \<Rightarrow> S)))"
  unfolding prepared_def
  by (rule exI, rule conjI [OF refl])
    (auto simp: stores_ok_def prepared_stores_def dest: db_okD split: option.splits if_splits)

text \<open>
  \<open>db_inv\<close> holds of a database nobody writes to; the \<open>_abs\<close> functions give the reference state, and
  \<open>_ok\<close> are the invariants of handles and opened stores. \<open>origin\<close> is what a write handle keeps
  while it is used, of the database it was opened on; \<open>writing q db\<close> says that a handle of the
  origin \<open>q\<close> is live on \<open>db\<close>.
\<close>

locale lawful_multistore =
  fixes may_fail :: "std_error \<Rightarrow> bool"
    and I :: "('db, 'rh, 'rs, 'wh, 'ws) multistore"
    and db_inv :: "'db \<Rightarrow> bool" and db_abs :: "'db \<Rightarrow> ref_db"
    and writing :: "'q \<Rightarrow> 'db \<Rightarrow> bool" and origin :: "'wh \<Rightarrow> 'q"
    and rh_abs :: "'rh \<Rightarrow> stores"
    and rs_abs :: "'rs \<Rightarrow> kv_store"
    and wh_ok :: "'wh \<Rightarrow> bool" and wh_abs :: "'wh \<Rightarrow> ref_write_handle"
    and ws_ok :: "'ws \<Rightarrow> bool" and ws_abs :: "'ws \<Rightarrow> ref_write_store"
  assumes db_abs_ok: "db_inv db \<Longrightarrow> db_ok (db_abs db)"
    and prepare_law: "db_inv db \<Longrightarrow>
      (\<exists>e. ms_prepare I ns names db = Fail e \<and> may_fail e) \<or>
      (\<exists>db'. ms_prepare I ns names db = Ret db' \<and> db_inv db' \<and>
             prepared ns names (db_abs db) (db_abs db'))"
    and read_law: "db_inv db \<Longrightarrow>
      refines may_fail (\<lambda>_. True) rh_abs (ms_read I ns db) (ref_read ns (db_abs db))"
    and write_law: "db_inv db \<Longrightarrow>
      refines may_fail (\<lambda>(tx, db'). wh_ok tx \<and> writing (origin tx) db')
        (\<lambda>(tx, db'). (wh_abs tx, db_abs db')) (ms_write I ns db) (ref_write ns (db_abs db))"
    and open_read_law: "refines may_fail (\<lambda>_. True) rs_abs (rh_open I n rh) (ref_open n (rh_abs rh))"
    and read_get_law: "refines may_fail (\<lambda>_. True) (\<lambda>a. a) (rs_get I k rs) (ref_get k (rs_abs rs))"
    and read_scan_law: "\<not> range_panics r \<Longrightarrow>
      scan_refines may_fail (rs_scan I r d rs) (ref_scan r d (rs_abs rs))"
    and open_write_law: "wh_ok tx \<Longrightarrow>
      refines may_fail (\<lambda>ws. ws_ok ws \<and> origin (ws_close I ws) = origin tx) ws_abs
        (wh_open I n tx) (ref_wopen n (wh_abs tx))"
    and get_law: "ws_ok ws \<Longrightarrow>
      refines may_fail (\<lambda>_. True) (\<lambda>a. a) (ws_get I k ws) (ref_get k (ref_opened (ws_abs ws)))"
    and set_law: "ws_ok ws \<Longrightarrow>
      refines may_fail (\<lambda>ws'. ws_ok ws' \<and> origin (ws_close I ws') = origin (ws_close I ws)) ws_abs
        (ws_set I k v ws) (Ret (ref_update (bt_insert k v) (ws_abs ws)))"
    and remove_law: "ws_ok ws \<Longrightarrow>
      refines may_fail (\<lambda>ws'. ws_ok ws' \<and> origin (ws_close I ws') = origin (ws_close I ws)) ws_abs
        (ws_remove I k ws) (Ret (ref_update (bt_remove k) (ws_abs ws)))"
    and scan_law: "ws_ok ws \<Longrightarrow> \<not> range_panics r \<Longrightarrow>
      scan_refines may_fail (ws_scan I r d ws) (ref_scan r d (ref_opened (ws_abs ws)))"
    and close_law: "ws_ok ws \<Longrightarrow> wh_ok (ws_close I ws) \<and> wh_abs (ws_close I ws) = ref_close (ws_abs ws)"
    and drop_law: "writing (origin tx) db \<Longrightarrow> wh_ok tx \<Longrightarrow>
      db_inv (ms_drop I tx db) \<and> db_abs (ms_drop I tx db) = db_abs db"
    and commit_law: "writing (origin tx) db \<Longrightarrow> wh_ok tx \<Longrightarrow> ms_commit I tx db = (res, db') \<Longrightarrow>
      db_inv db' \<and> (res = Ret () \<and> db_abs db' = (db_abs db)(fst (wh_abs tx) \<mapsto> snd (wh_abs tx)) \<or>
                    (\<exists>e. res = Fail e \<and> may_fail e \<and> db_abs db' = db_abs db))"
begin

text \<open>A handle keeps its origin, whatever is done through it.\<close>

definition handle_on :: "'q \<Rightarrow> 'wh \<Rightarrow> bool" where
  "handle_on q tx \<longleftrightarrow> wh_ok tx \<and> origin tx = q"

definition store_on :: "'q \<Rightarrow> 'ws \<Rightarrow> bool" where
  "store_on q ws \<longleftrightarrow> ws_ok ws \<and> origin (ws_close I ws) = q"

lemma open_on: "handle_on q tx \<Longrightarrow>
  refines may_fail (store_on q) ws_abs (wh_open I n tx) (ref_wopen n (wh_abs tx))"
  by (rule refines_weaken [OF open_write_law]) (simp_all add: handle_on_def store_on_def)

lemma set_on: "store_on q ws \<Longrightarrow>
  refines may_fail (store_on q) ws_abs (ws_set I k v ws) (Ret (ref_update (bt_insert k v) (ws_abs ws)))"
  by (rule refines_weaken [OF set_law]) (simp_all add: store_on_def)

lemma remove_on: "store_on q ws \<Longrightarrow>
  refines may_fail (store_on q) ws_abs (ws_remove I k ws) (Ret (ref_update (bt_remove k) (ws_abs ws)))"
  by (rule refines_weaken [OF remove_law]) (simp_all add: store_on_def)

lemma get_on: "store_on q ws \<Longrightarrow>
  refines may_fail (\<lambda>_. True) (\<lambda>a. a) (ws_get I k ws) (ref_get k (ref_opened (ws_abs ws)))"
  by (rule get_law) (simp add: store_on_def)

lemma close_on:
  "store_on q ws \<Longrightarrow> handle_on q (ws_close I ws) \<and> wh_abs (ws_close I ws) = ref_close (ws_abs ws)"
  using close_law [of ws] by (simp add: handle_on_def store_on_def)

end

text \<open>
  A backend that keeps nothing of a store once the store is not prepared any more: preparing it
  again starts from an empty store, as in the reference.
\<close>

locale volatile_multistore = lawful_multistore +
  assumes prepare_exact: "db_inv db \<Longrightarrow>
    refines may_fail db_inv db_abs (ms_prepare I ns names db) (ref_prepare ns names (db_abs db))"

section \<open>The reference satisfies the contract\<close>

definition ref_ws_ok :: "ref_write_store \<Rightarrow> bool" where
  "ref_ws_ok ws = (case ws of (ns, S, n) \<Rightarrow> stores_ok S \<and> S n \<noteq> None)"

lemma ref_ws_ok_update:
  "ref_ws_ok ws \<Longrightarrow> (\<And>kv. bt_ok kv \<Longrightarrow> bt_ok (f kv)) \<Longrightarrow> ref_ws_ok (ref_update f ws)"
  by (cases ws) (auto simp: ref_ws_ok_def stores_ok_def)

lemma refines_unwrap: "(\<And>a. x = Some a \<Longrightarrow> P a) \<Longrightarrow> refines B P (\<lambda>a. a) (unwrap x) (unwrap x)"
  by (simp add: refines_def)

lemma refines_refl: "(\<And>a. x = Ret a \<Longrightarrow> P a) \<Longrightarrow> refines B P (\<lambda>a. a) x x"
  by (simp add: refines_def)

lemma ref_prepare_eq:
  "ref_prepare ns names D = Ret (D(ns \<mapsto> prepared_stores names (case D ns of None \<Rightarrow> \<lambda>_. None | Some S \<Rightarrow> S)))"
  by (simp add: ref_prepare_def)

lemma db_ok_prepared:
  "db_ok D \<Longrightarrow> db_ok (D(ns \<mapsto> prepared_stores names (case D ns of None \<Rightarrow> \<lambda>_. None | Some S \<Rightarrow> S)))"
  by (auto intro!: db_ok_upd stores_ok_prepared dest: db_okD split: option.splits simp: stores_ok_def)

lemma ref_scan_refines: "\<not> range_panics r \<Longrightarrow> scan_refines B (ref_scan r d kv) (ref_scan r d kv)"
  by (auto simp: ref_scan_def bt_range_def scan_refines_Ret)

interpretation ref: volatile_multistore "\<lambda>_. False" ref_ms db_ok "\<lambda>D. D" "\<lambda>_ :: unit. db_ok" "\<lambda>_. ()"
  "\<lambda>S. S" "\<lambda>kv. kv"
  "\<lambda>tx. stores_ok (snd tx)" "\<lambda>tx. tx" ref_ws_ok "\<lambda>ws. ws"
proof unfold_locales
  fix db ns names assume "db_ok db"
  then show "(\<exists>e. ms_prepare ref_ms ns names db = Fail e \<and> False) \<or>
      (\<exists>db'. ms_prepare ref_ms ns names db = Ret db' \<and> db_ok db' \<and> prepared ns names db db')"
    and "refines (\<lambda>_. False) db_ok (\<lambda>D. D) (ms_prepare ref_ms ns names db) (ref_prepare ns names db)"
    by (simp_all add: ref_prepare_eq prepared_ref db_ok_prepared refines_Ret)
next
  fix db ns assume "db_ok db"
  then show "refines (\<lambda>_. False) (\<lambda>(tx, db'). stores_ok (snd tx) \<and> db_ok db')
        (\<lambda>(tx, db'). (tx, db')) (ms_write ref_ms ns db) (ref_write ns db)"
    by (cases "db ns") (auto simp: ref_write_def refines_def dest: db_okD)
next
  fix n :: name and tx :: ref_write_handle assume "stores_ok (snd tx)"
  then show "refines (\<lambda>_. False) (\<lambda>ws. ref_ws_ok ws \<and> () = ()) (\<lambda>ws. ws)
               (wh_open ref_ms n tx) (ref_wopen n tx)"
    by (auto simp: ref_wopen_def ref_ws_ok_def intro!: refines_refl split: option.splits)
next
  fix ws k v assume "ref_ws_ok ws"
  then show "refines (\<lambda>_. False) (\<lambda>ws. ref_ws_ok ws \<and> () = ()) (\<lambda>ws. ws) (ws_set ref_ms k v ws)
               (Ret (ref_update (bt_insert k v) ws))"
    and "refines (\<lambda>_. False) (\<lambda>ws. ref_ws_ok ws \<and> () = ()) (\<lambda>ws. ws) (ws_remove ref_ms k ws)
               (Ret (ref_update (bt_remove k) ws))"
    by (simp_all add: refines_def ref_ws_ok_update del: ref_update.simps)
next
  fix ws assume "ref_ws_ok ws"
  then show "stores_ok (snd (ws_close ref_ms ws)) \<and> ws_close ref_ms ws = ref_close ws"
    by (cases ws) (auto simp: ref_ws_ok_def)
next
  fix db res db' and tx :: ref_write_handle
  assume "db_ok db" "stores_ok (snd tx)" "ms_commit ref_ms tx db = (res, db')"
  then show "db_ok db' \<and> (res = Ret () \<and> db' = db(fst tx \<mapsto> snd tx) \<or>
               (\<exists>e. res = Fail e \<and> False \<and> db' = db))"
    by (auto simp: ref_commit_def intro: db_ok_upd)
qed (auto intro: refine_intros ref_scan_refines)

end
