(* ===== verification/Key_Core.thy ===== *)
theory Key_Core
  imports Prelude
begin

text \<open>
  The \<open>Key\<close> trait of \<open>src/key.rs\<close>. An implementation of the trait is a record of its
  operations; a \<open>decode_part\<close> that panics is \<open>None\<close>. The borrowed form of a key and its
  \<open>OwnedKey\<close> (\<open>&str\<close> and \<open>String\<close>) have the same encoding, so one HOL type stands for both.

  The locale \<open>lawful_key\<close> is the contract the documentation of the trait states: the bytes
  preserve the logical order, keys can be concatenated without ambiguity, and decoding
  reads back what was encoded. \<open>valid\<close> holds of the HOL values that are values of the Rust
  type (a \<open>str\<close> is UTF-8, an array has its length).
\<close>

section \<open>The trait\<close>

datatype key_size = Fixed nat | Variable

record 'k key =
  key_size :: key_size
  encode :: "'k \<Rightarrow> bytes"
  decode_part :: "bytes \<Rightarrow> ('k \<times> bytes) option"

definition decode :: "'k key \<Rightarrow> bytes \<Rightarrow> 'k option" where
  "decode K bs =
     (case decode_part K bs of
        None \<Rightarrow> None
      | Some (key, rest) \<Rightarrow> if rest \<noteq> [] then None else Some key)"

text \<open>\<open>slice::split_at\<close> panics when the slice is too short.\<close>

definition split_at :: "nat \<Rightarrow> bytes \<Rightarrow> (bytes \<times> bytes) option" where
  "split_at n bs = (if n \<le> length bs then Some (take n bs, drop n bs) else None)"

text \<open>\<open>impl Key for &K\<close> delegates to \<open>K\<close>.\<close>

definition ref_key :: "'k key \<Rightarrow> 'k key" where
  "ref_key K = \<lparr>key_size = key_size K, encode = (\<lambda>k. encode K k),
                decode_part = (\<lambda>bs. decode_part K bs)\<rparr>"

text \<open>\<open>impl Key for (K,)\<close> wraps the decoded value in a one-element tuple.\<close>

datatype 'a tup1 = Tup1 (tup1_0: 'a)

text \<open>One-element tuples are ordered as their element.\<close>

instantiation tup1 :: (linorder) linorder
begin

definition less_eq_tup1 :: "'a tup1 \<Rightarrow> 'a tup1 \<Rightarrow> bool" where
  "a \<le> b \<longleftrightarrow> tup1_0 a \<le> tup1_0 b"

definition less_tup1 :: "'a tup1 \<Rightarrow> 'a tup1 \<Rightarrow> bool" where
  "a < b \<longleftrightarrow> tup1_0 a < tup1_0 b"

instance
  by standard (auto simp: less_eq_tup1_def less_tup1_def tup1.expand)

end

definition tuple1_key :: "'k key \<Rightarrow> 'k tup1 key" where
  "tuple1_key K =
     \<lparr>key_size = key_size K,
      encode = (\<lambda>t. encode K (tup1_0 t)),
      decode_part = (\<lambda>bs. case decode_part K bs of
                            None \<Rightarrow> None
                          | Some (k, r) \<Rightarrow> Some (Tup1 k, r))\<rparr>"

section \<open>The contract\<close>

locale lawful_key =
  fixes K :: "'k key"
    and lt :: "'k \<Rightarrow> 'k \<Rightarrow> bool"
    and valid :: "'k \<Rightarrow> bool"
  assumes decode_part_encode: "valid k \<Longrightarrow> decode_part K (encode K k @ r) = Some (k, r)"
    and decode_part_sound: "decode_part K bs = Some (k, r) \<Longrightarrow> valid k \<and> bs = encode K k @ r"
    and order_kept: "valid a \<Longrightarrow> valid b \<Longrightarrow> lt a b \<Longrightarrow> differs_below (encode K a) (encode K b)"
    and total: "valid a \<Longrightarrow> valid b \<Longrightarrow> lt a b \<or> a = b \<or> lt b a"
    and fixed_length: "key_size K = Fixed n \<Longrightarrow> valid k \<Longrightarrow> length (encode K k) = n"
begin

lemma decode_part_iff: "decode_part K bs = Some (k, r) \<longleftrightarrow> valid k \<and> bs = encode K k @ r"
  using decode_part_encode decode_part_sound by auto

lemma decode_iff: "decode K bs = Some k \<longleftrightarrow> valid k \<and> bs = encode K k"
proof
  assume "decode K bs = Some k"
  then have "decode_part K bs = Some (k, [])"
    by (auto simp: decode_def split: option.splits if_splits)
  then show "valid k \<and> bs = encode K k" by (simp add: decode_part_iff)
next
  assume "valid k \<and> bs = encode K k"
  then have "decode_part K bs = Some (k, [])" by (simp add: decode_part_iff)
  then show "decode K bs = Some k" by (simp add: decode_def)
qed

lemma decode_encode: "valid k \<Longrightarrow> decode K (encode K k) = Some k"
  by (simp add: decode_iff)

lemma encode_append_inject:
  assumes "valid a" "valid b" and "encode K a @ r = encode K b @ s"
  shows "a = b \<and> r = s"
proof -
  have "Some (a, r) = decode_part K (encode K b @ s)"
    using decode_part_encode [OF assms(1), of r] assms(3) by metis
  also have "\<dots> = Some (b, s)" using assms(2) by (rule decode_part_encode)
  finally show ?thesis by simp
qed

lemma encode_inject: "valid a \<Longrightarrow> valid b \<Longrightarrow> encode K a = encode K b \<longleftrightarrow> a = b"
  using encode_append_inject [of a b "[]" "[]"] by auto

lemma prefix_free:
  assumes "valid a" "valid b"
  shows "prefix (encode K a) (encode K b @ r) \<longleftrightarrow> a = b"
proof -
  have "a = b" if "prefix (encode K a) (encode K b @ r)"
  proof -
    from that obtain s where "encode K b @ r = encode K a @ s" by (auto elim: prefixE)
    then show ?thesis using encode_append_inject [of b a r s] assms by simp
  qed
  then show ?thesis by auto
qed

lemma encode_differs_iff:
  assumes "valid a" "valid b"
  shows "differs_below (encode K a) (encode K b) \<longleftrightarrow> lt a b"
  using total [OF assms] order_kept [OF assms] order_kept [OF assms(2,1)]
  by (auto dest: differs_below_asym)

lemma encode_append_less_iff:
  assumes "valid a" "valid b"
  shows "encode K a @ r < encode K b @ s \<longleftrightarrow> lt a b \<or> a = b \<and> r < s"
proof -
  consider "lt a b" | "a = b" | "lt b a" using total [OF assms] by blast
  then show ?thesis
  proof cases
    case 1
    then have "differs_below (encode K a) (encode K b)" by (rule order_kept [OF assms])
    then show ?thesis using 1 by (simp add: differs_below_less_append)
  next
    case 2
    then show ?thesis using order_kept [OF assms] by auto
  next
    case 3
    then have d: "differs_below (encode K b) (encode K a)" by (rule order_kept [OF assms(2,1)])
    then have "\<not> lt a b" using order_kept [OF assms] differs_below_asym by blast
    moreover have "a \<noteq> b" using d by auto
    ultimately show ?thesis
      using differs_below_less_append [OF d, of s r] by auto
  qed
qed

lemma encode_less_iff: "valid a \<Longrightarrow> valid b \<Longrightarrow> encode K a < encode K b \<longleftrightarrow> lt a b"
  using encode_append_less_iff [of a b "[]" "[]"] by simp

lemma lt_irrefl: "valid a \<Longrightarrow> \<not> lt a a"
  using order_kept [of a a] by auto

lemma lt_asym: "valid a \<Longrightarrow> valid b \<Longrightarrow> lt a b \<Longrightarrow> \<not> lt b a"
  using encode_less_iff [of a b] encode_less_iff [of b a] by auto

lemma lt_trans: "valid a \<Longrightarrow> valid b \<Longrightarrow> valid c \<Longrightarrow> lt a b \<Longrightarrow> lt b c \<Longrightarrow> lt a c"
  using encode_less_iff [of a b] encode_less_iff [of b c] encode_less_iff [of a c] by auto

end

section \<open>Fixed-size pieces\<close>

lemma split_at_append [simp]: "length a = n \<Longrightarrow> split_at n (a @ r) = Some (a, r)"
  by (auto simp: split_at_def)

lemma split_at_eq_Some: "split_at n bs = Some (a, r) \<longleftrightarrow> length a = n \<and> bs = a @ r"
  by (auto simp: split_at_def)

section \<open>Wrappers keep the contract\<close>

lemma ref_key_eq [simp]: "ref_key K = K"
  by (simp add: ref_key_def)

lemma lawful_ref_key: "lawful_key K lt valid \<Longrightarrow> lawful_key (ref_key K) lt valid"
  by simp

lemma tuple1_key_simps [simp]:
  "key_size (tuple1_key K) = key_size K"
  "encode (tuple1_key K) t = encode K (tup1_0 t)"
  "decode_part (tuple1_key K) bs = map_option (\<lambda>(k, r). (Tup1 k, r)) (decode_part K bs)"
  by (auto simp: tuple1_key_def split: option.splits)

lemma lawful_tuple1_key:
  assumes "lawful_key K lt valid"
  shows "lawful_key (tuple1_key K) (\<lambda>a b. lt (tup1_0 a) (tup1_0 b)) (\<lambda>t. valid (tup1_0 t))"
proof -
  note L = lawful_key.decode_part_iff [OF assms] lawful_key.order_kept [OF assms]
    lawful_key.total [OF assms] lawful_key.fixed_length [OF assms]
  show ?thesis
    by unfold_locales (auto simp: L tup1.expand dest: L(3))
qed

end
