(* ===== verification/Key_Int.thy ===== *)
theory Key_Int
  imports Key_Core
begin

unbundle bit_operations_syntax

text \<open>
  Fixed-width scalar keys: the integer keys made by the macros of \<open>src/macros.rs\<close>, \<open>bool\<close>
  and C-like enums. An integer of \<open>w\<close> bits is a \<open>w word\<close>; the signed types are read by
  \<open>sint\<close> and ordered by the signed comparison. Big-endian conversion is written byte by byte,
  and its correctness is carried by two facts: the bytes are the base-256 digits of the
  number, and digits compare as the numbers do.
\<close>

section \<open>Big-endian bytes\<close>

fun to_be_bytes :: "nat \<Rightarrow> 'w::len word \<Rightarrow> bytes" where
  "to_be_bytes 0 w = []"
| "to_be_bytes (Suc n) w = ucast (drop_bit (8 * n) w) # to_be_bytes n w"

definition from_be_bytes :: "bytes \<Rightarrow> 'w::len word" where
  "from_be_bytes bs = foldl (\<lambda>acc b. acc * 256 + ucast b) 0 bs"

definition size_of :: "'w::len word itself \<Rightarrow> nat" where
  "size_of t = LENGTH('w) div 8"

text \<open>The digits of a number, most significant first.\<close>

fun be_digits :: "nat \<Rightarrow> nat \<Rightarrow> bytes" where
  "be_digits 0 v = []"
| "be_digits (Suc n) v = word_of_nat (v div 256 ^ n) # be_digits n v"

lemma length_to_be_bytes [simp]: "length (to_be_bytes n w) = n"
  by (induction n) simp_all

lemma unat_byte_of_nat [simp]: "unat (word_of_nat v :: byte) = v mod 256"
  by (simp add: unat_of_nat)

lemma ucast_drop_bit_digit: "(ucast (drop_bit (8 * n) w) :: byte) = word_of_nat (unat w div 256 ^ n)"
proof -
  have "(2 :: nat) ^ (8 * n) = 256 ^ n" by (simp only: power_mult) simp
  then have "unat (drop_bit (8 * n) w) = unat w div 256 ^ n"
    by (metis unat_drop_bit_eq drop_bit_eq_div)
  then show ?thesis using of_nat_unat [of "drop_bit (8 * n) w"] by metis
qed

lemma to_be_bytes_digits: "to_be_bytes n w = be_digits n (unat w)"
  by (induction n) (simp_all add: ucast_drop_bit_digit)

lemma mod_power_Suc: "(v :: nat) mod 256 ^ Suc n = 256 ^ n * (v div 256 ^ n mod 256) + v mod 256 ^ n"
  by (metis mod_mult2_eq power_Suc2 mult.commute)

lemma be_digits_differ:
  "v mod 256 ^ n < v' mod 256 ^ n \<Longrightarrow> differs_below (be_digits n v) (be_digits n v')"
proof (induction n)
  case 0
  then show ?case by simp
next
  case (Suc n)
  let ?q = "v div 256 ^ n mod 256" and ?q' = "v' div 256 ^ n mod 256"
  let ?r = "v mod 256 ^ n" and ?r' = "v' mod 256 ^ n"
  have less: "256 ^ n * ?q + ?r < 256 ^ n * ?q' + ?r'"
    using Suc.prems by (simp only: mod_power_Suc)
  have bound: "?r < 256 ^ n" "?r' < 256 ^ n" by simp_all
  consider "?q < ?q'" | "?q = ?q'" | "?q' < ?q" by linarith
  then show ?case
  proof cases
    case 1
    then show ?thesis by (simp add: word_less_nat_alt)
  next
    case 2
    then have "?r < ?r'" using less by simp
    moreover have "(word_of_nat (v div 256 ^ n) :: byte) = word_of_nat (v' div 256 ^ n)"
      using 2 by (simp add: word_of_nat_eq_iff take_bit_eq_mod)
    ultimately show ?thesis using Suc.IH by simp
  next
    case 3
    then have "256 ^ n * (?q' + 1) \<le> 256 ^ n * ?q" by (intro mult_le_mono) simp_all
    then show ?thesis using less bound by (simp add: algebra_simps)
  qed
qed

lemma foldl_digits:
  "foldl (\<lambda>acc b. acc * 256 + unat (b :: byte)) a (be_digits n v) = a * 256 ^ n + v mod 256 ^ n"
proof (induction n arbitrary: a)
  case 0
  then show ?case by simp
next
  case (Suc n)
  then show ?case
    by (simp only: be_digits.simps foldl.simps unat_byte_of_nat mod_power_Suc)
       (simp add: algebra_simps)
qed

lemma foldl_word_of_nat:
  "foldl (\<lambda>acc b. acc * 256 + ucast b) (word_of_nat a) (bs :: bytes) =
   word_of_nat (foldl (\<lambda>acc b. acc * 256 + unat b) a bs)"
proof (induction bs arbitrary: a)
  case Nil
  then show ?case by simp
next
  case (Cons b bs)
  have "(word_of_nat a :: 'a word) * 256 + ucast b = word_of_nat (a * 256 + unat b)" by simp
  then show ?case using Cons.IH [of "a * 256 + unat b"] by (simp only: foldl.simps)
qed

lemma from_be_bytes_nat:
  "from_be_bytes bs = word_of_nat (foldl (\<lambda>acc b. acc * 256 + unat b) 0 (bs :: bytes))"
  using foldl_word_of_nat [of 0 bs] by (simp add: from_be_bytes_def)

lemma pow_size_of:
  assumes "8 dvd LENGTH('w::len)"
  shows "(256 :: nat) ^ size_of TYPE('w word) = 2 ^ LENGTH('w)"
proof -
  have "(256 :: nat) ^ size_of TYPE('w word) = 2 ^ (8 * size_of TYPE('w word))"
    by (simp only: power_mult) simp
  also have "\<dots> = 2 ^ LENGTH('w)" using assms by (simp add: size_of_def)
  finally show ?thesis .
qed

lemma from_be_bytes_to_be_bytes:
  assumes "8 dvd LENGTH('w::len)"
  shows "from_be_bytes (to_be_bytes (size_of TYPE('w word)) w) = (w :: 'w word)"
proof -
  have "unat w mod 256 ^ size_of TYPE('w word) = unat w"
    using unsigned_less [of w, where 'a = nat] by (simp add: pow_size_of [OF assms])
  then show ?thesis by (simp add: from_be_bytes_nat to_be_bytes_digits foldl_digits)
qed

lemma to_be_bytes_differ:
  assumes "8 dvd LENGTH('w::len)" and "a < (b :: 'w word)"
  shows "differs_below (to_be_bytes (size_of TYPE('w word)) a) (to_be_bytes (size_of TYPE('w word)) b)"
proof -
  have "unat a mod 256 ^ size_of TYPE('w word) < unat b mod 256 ^ size_of TYPE('w word)"
    using assms(2) unsigned_less [of a, where 'a = nat] unsigned_less [of b, where 'a = nat]
    by (simp add: pow_size_of [OF assms(1)] word_less_nat_alt)
  then show ?thesis by (simp only: to_be_bytes_digits be_digits_differ)
qed

lemma byte_256: "(256 :: byte) = 0"
  by simp

lemma be_digits_of_bytes:
  "be_digits (length bs) (foldl (\<lambda>acc b. acc * 256 + unat b) 0 bs) = (bs :: bytes)"
proof -
  have shift: "be_digits n (256 ^ n * k + v) = be_digits n v" for n k v
  proof (induction n arbitrary: k)
    case (Suc n)
    have "(256 :: nat) ^ Suc n * k + v = 256 ^ n * (256 * k) + v" by simp
    moreover have "(word_of_nat ((256 ^ n * (256 * k) + v) div 256 ^ n) :: byte)
                   = word_of_nat (v div 256 ^ n)"
      by (simp add: byte_256)
    ultimately show ?case using Suc.IH [of "256 * k"] by (metis be_digits.simps(2))
  qed simp
  have gen: "foldl (\<lambda>acc b. acc * 256 + unat b) a bs
             = 256 ^ length bs * a + foldl (\<lambda>acc b. acc * 256 + unat b) 0 bs
             \<and> foldl (\<lambda>acc b. acc * 256 + unat b) 0 bs < 256 ^ length bs" for a and bs :: bytes
  proof (induction bs arbitrary: a)
    case (Cons b bs)
    have b: "unat b < 256" using unsigned_less [of b, where 'a = nat] by simp
    let ?f = "foldl (\<lambda>acc b. acc * 256 + unat b)"
    have 1: "?f (a * 256 + unat b) bs = 256 ^ length bs * (a * 256 + unat b) + ?f 0 bs"
      and 2: "?f (unat b) bs = 256 ^ length bs * unat b + ?f 0 bs"
      and 3: "?f 0 bs < 256 ^ length bs" using Cons.IH by blast+
    have "256 ^ length bs * unat b + ?f 0 bs < 256 ^ length bs * (unat b + 1)"
      using 3 by simp
    also have "\<dots> \<le> 256 ^ length bs * 256" using b by (intro mult_le_mono) simp_all
    finally show ?case using 1 2 by (simp add: algebra_simps)
  qed simp
  show ?thesis
  proof (induction bs)
    case (Cons b bs)
    let ?v = "foldl (\<lambda>acc b. acc * 256 + unat b) 0 bs"
    have v: "?v < 256 ^ length bs" using gen by blast
    have f: "foldl (\<lambda>acc b. acc * 256 + unat b) 0 (b # bs) = 256 ^ length bs * unat b + ?v"
      using gen [of "unat b" bs] by simp
    have "(256 ^ length bs * unat b + ?v) div 256 ^ length bs = unat b" using v by simp
    then show ?case using f shift [of "length bs" "unat b" ?v] Cons.IH by simp
  qed simp
qed

lemma be_digits_mod:
  assumes "n \<le> m"
  shows "be_digits n (v mod 256 ^ m) = be_digits n v"
  using assms
proof (induction n)
  case (Suc n)
  have "(256 :: nat) ^ m = 256 ^ n * 256 ^ (m - n)"
    using Suc.prems by (simp flip: power_add)
  then have "v mod 256 ^ m div 256 ^ n = v div 256 ^ n mod 256 ^ (m - n)"
    by (simp add: mod_mult2_eq)
  moreover have "(256 :: nat) dvd 256 ^ (m - n)" using Suc.prems by (simp add: dvd_power)
  ultimately show ?case
    using Suc by (simp add: word_of_nat_eq_iff take_bit_eq_mod mod_mod_cancel)
qed simp

lemma to_be_bytes_from_be_bytes:
  assumes "8 dvd LENGTH('w::len)" and "length bs = size_of TYPE('w word)"
  shows "to_be_bytes (size_of TYPE('w word)) (from_be_bytes bs :: 'w word) = bs"
  using be_digits_of_bytes [of bs] be_digits_mod [of "length bs" "length bs"] assms
  by (simp add: to_be_bytes_digits from_be_bytes_nat unat_of_nat flip: pow_size_of [OF assms(1)])

section \<open>Integer keys\<close>

text \<open>\<open>impl_unsigned_integer_key!\<close>.\<close>

definition unsigned_key :: "'w::len word key" where
  "unsigned_key =
     \<lparr>key_size = Fixed (size_of TYPE('w word)),
      encode = (\<lambda>k. to_be_bytes (size_of TYPE('w word)) k),
      decode_part = (\<lambda>bs. case split_at (size_of TYPE('w word)) bs of
                            None \<Rightarrow> None
                          | Some (kbytes, r) \<Rightarrow> Some (from_be_bytes kbytes, r))\<rparr>"

text \<open>
  \<open>impl_signed_integer_key!\<close>. The casts between the signed and the unsigned type keep the
  bits, so both are the same word here; \<open>signed_min\<close> is \<open>MIN\<close> of the signed type.
\<close>

definition signed_min :: "'w::len word" where
  "signed_min = push_bit (LENGTH('w) - 1) 1"

definition signed_key :: "'w::len word key" where
  "signed_key =
     \<lparr>key_size = Fixed (size_of TYPE('w word)),
      encode = (\<lambda>k. let sortable = k XOR signed_min
                    in to_be_bytes (size_of TYPE('w word)) sortable),
      decode_part = (\<lambda>bs. case split_at (size_of TYPE('w word)) bs of
                            None \<Rightarrow> None
                          | Some (kbytes, r) \<Rightarrow>
                              let sortable = from_be_bytes kbytes
                              in Some (sortable XOR signed_min, r))\<rparr>"

definition u8_key :: "8 word key" where "u8_key = unsigned_key"
definition u16_key :: "16 word key" where "u16_key = unsigned_key"
definition u32_key :: "32 word key" where "u32_key = unsigned_key"
definition u64_key :: "64 word key" where "u64_key = unsigned_key"
definition u128_key :: "128 word key" where "u128_key = unsigned_key"
definition i8_key :: "8 word key" where "i8_key = signed_key"
definition i16_key :: "16 word key" where "i16_key = signed_key"
definition i32_key :: "32 word key" where "i32_key = signed_key"
definition i64_key :: "64 word key" where "i64_key = signed_key"
definition i128_key :: "128 word key" where "i128_key = signed_key"

lemma lawful_unsigned_key:
  assumes "8 dvd LENGTH('w::len)"
  shows "lawful_key (unsigned_key :: 'w word key) (<) (\<lambda>_. True)"
  by unfold_locales
     (auto simp: unsigned_key_def split_at_eq_Some from_be_bytes_to_be_bytes [OF assms]
        to_be_bytes_from_be_bytes [OF assms] to_be_bytes_differ [OF assms] split: option.splits)

lemma xor_signed_min: "a XOR signed_min = (a :: 'w::len word) + signed_min"
proof -
  let ?k = "LENGTH('w) - 1"
  have l: "Suc ?k = LENGTH('w)" by simp
  have "2 ^ ?k + 2 ^ ?k = (2 :: 'w word) ^ Suc ?k" by (simp only: power_Suc mult_2)
  also have "\<dots> = 2 ^ LENGTH('w)" by (simp only: l)
  also have "\<dots> = 0" by (fact word_exp_length_eq_0)
  finally have z: "2 ^ ?k + 2 ^ ?k = (0 :: 'w word)" .
  have minus: "a - 2 ^ ?k = a + 2 ^ ?k"
    by (simp only: diff_eq_eq add.assoc z add_0_right)
  have "a XOR signed_min = flip_bit ?k a" by (simp add: signed_min_def flip_bit_eq_xor)
  also have "\<dots> = a + 2 ^ ?k"
  proof (cases "bit a ?k")
    case True
    then have "flip_bit ?k a = a - 2 ^ ?k" by (simp add: flip_bit_eq_if unset_bit_eq)
    then show ?thesis by (simp only: minus)
  next
    case False
    then show ?thesis by (simp add: flip_bit_eq_if set_bit_eq)
  qed
  finally show ?thesis by (simp only: signed_min_def push_bit_eq_mult mult_1)
qed

lemma uint_signed_shift: "uint (a + signed_min) = sint (a :: 'w::len word) + 2 ^ (LENGTH('w) - 1)"
proof -
  have "uint (word_of_int (2 ^ (LENGTH('w) - 1)) :: 'w word) = 2 ^ (LENGTH('w) - 1)"
    by (simp only: uint_word_of_int) simp
  then have "uint (signed_min :: 'w word) = 2 ^ (LENGTH('w) - 1)"
    by (simp add: signed_min_def push_bit_eq_mult)
  then have "uint (a + signed_min) = (uint a + 2 ^ (LENGTH('w) - 1)) mod 2 ^ LENGTH('w)"
    by (simp only: uint_word_ariths)
  also have "\<dots> = sint (word_of_int (uint a) :: 'w word) + 2 ^ (LENGTH('w) - 1)"
    by (simp only: int_word_sint diff_add_cancel)
  finally show ?thesis by simp
qed

lemma signed_shift_less: "a XOR signed_min < b XOR signed_min \<longleftrightarrow> a <s (b :: 'w::len word)"
  by (simp add: xor_signed_min word_less_def uint_signed_shift word_sless_alt)

lemma xor_signed_min_twice [simp]: "(a XOR signed_min) XOR signed_min = (a :: 'w::len word)"
  by (simp add: xor.assoc)

lemma lawful_signed_key:
  assumes "8 dvd LENGTH('w::len)"
  shows "lawful_key (signed_key :: 'w word key) (\<lambda>a b. a <s b) (\<lambda>_. True)"
proof unfold_locales
  fix k :: "'w word" and r :: bytes
  show "decode_part signed_key (encode signed_key k @ r) = Some (k, r)"
    by (simp add: signed_key_def from_be_bytes_to_be_bytes [OF assms])
next
  fix bs r :: bytes and k :: "'w word"
  assume "decode_part signed_key bs = Some (k, r)"
  then obtain kb where kb: "length kb = size_of TYPE('w word)" "bs = kb @ r"
      "k = from_be_bytes kb XOR signed_min"
    by (auto simp: signed_key_def split_at_eq_Some Let_def split: option.splits)
  then show "True \<and> bs = encode signed_key k @ r"
    by (simp add: signed_key_def to_be_bytes_from_be_bytes [OF assms])
next
  fix a b :: "'w word"
  assume "a <s b"
  then show "differs_below (encode signed_key a) (encode signed_key b)"
    by (simp add: signed_key_def to_be_bytes_differ [OF assms] signed_shift_less)
next
  fix a b :: "'w word"
  show "a <s b \<or> a = b \<or> b <s a" using signed.less_linear by blast
qed (simp add: signed_key_def)

interpretation u8: lawful_key u8_key "(<)" "\<lambda>_. True"
  unfolding u8_key_def by (rule lawful_unsigned_key) simp

interpretation u16: lawful_key u16_key "(<)" "\<lambda>_. True"
  unfolding u16_key_def by (rule lawful_unsigned_key) simp

interpretation u32: lawful_key u32_key "(<)" "\<lambda>_. True"
  unfolding u32_key_def by (rule lawful_unsigned_key) simp

interpretation u64: lawful_key u64_key "(<)" "\<lambda>_. True"
  unfolding u64_key_def by (rule lawful_unsigned_key) simp

interpretation u128: lawful_key u128_key "(<)" "\<lambda>_. True"
  unfolding u128_key_def by (rule lawful_unsigned_key) simp

interpretation i8: lawful_key i8_key "\<lambda>a b. a <s b" "\<lambda>_. True"
  unfolding i8_key_def by (rule lawful_signed_key) simp

interpretation i16: lawful_key i16_key "\<lambda>a b. a <s b" "\<lambda>_. True"
  unfolding i16_key_def by (rule lawful_signed_key) simp

interpretation i32: lawful_key i32_key "\<lambda>a b. a <s b" "\<lambda>_. True"
  unfolding i32_key_def by (rule lawful_signed_key) simp

interpretation i64: lawful_key i64_key "\<lambda>a b. a <s b" "\<lambda>_. True"
  unfolding i64_key_def by (rule lawful_signed_key) simp

interpretation i128: lawful_key i128_key "\<lambda>a b. a <s b" "\<lambda>_. True"
  unfolding i128_key_def by (rule lawful_signed_key) simp

section \<open>Booleans and C-like enums\<close>

definition bool_key :: "bool key" where
  "bool_key =
     \<lparr>key_size = Fixed 1,
      encode = (\<lambda>b. if b then [1] else [0]),
      decode_part = (\<lambda>bs. case bs of
                            [] \<Rightarrow> None
                          | b # r \<Rightarrow> if b = 0 then Some (False, r)
                                     else if b = 1 then Some (True, r)
                                     else None)\<rparr>"

interpretation bool: lawful_key bool_key "(<)" "\<lambda>_. True"
  by unfold_locales (auto simp: bool_key_def split: list.splits if_splits)

text \<open>
  \<open>impl_enum_key!\<close>: the table lists the variants with their discriminants in the order the macro
  invocation gives them; a match takes the first arm that fits. The integer type may be
  signed or unsigned, \<open>to_be_bytes\<close> is the same on both.
\<close>

definition enum_value :: "('v \<times> 'w::len word) list \<Rightarrow> 'v \<Rightarrow> 'w word" where
  "enum_value table v = (case map_of table v of Some value \<Rightarrow> value | None \<Rightarrow> 0)"

definition enum_variant :: "('v \<times> 'w::len word) list \<Rightarrow> 'w word \<Rightarrow> 'v option" where
  "enum_variant table value = map_of (map (\<lambda>(v, x). (x, v)) table) value"

definition enum_key :: "('v \<times> 'w::len word) list \<Rightarrow> 'v key" where
  "enum_key table =
     \<lparr>key_size = Fixed (size_of TYPE('w word)),
      encode = (\<lambda>v. to_be_bytes (size_of TYPE('w word)) (enum_value table v)),
      decode_part = (\<lambda>bs. case split_at (size_of TYPE('w word)) bs of
                            None \<Rightarrow> None
                          | Some (kbytes, r) \<Rightarrow>
                              (case enum_variant table (from_be_bytes kbytes) of
                                 None \<Rightarrow> None
                               | Some variant \<Rightarrow> Some (variant, r)))\<rparr>"

lemma enum_value_variant:
  assumes "distinct (map fst table)" "distinct (map snd table)"
  shows "enum_variant table x = Some v \<longleftrightarrow> v \<in> fst ` set table \<and> enum_value table v = x"
proof -
  have d: "distinct (map fst (map (\<lambda>(v, x). (x, v)) table))"
    using assms(2) by (simp add: comp_def case_prod_unfold)
  have "enum_variant table x = Some v \<longleftrightarrow> (v, x) \<in> set table"
    unfolding enum_variant_def map_of_eq_Some_iff [OF d] by auto
  also have "\<dots> \<longleftrightarrow> map_of table v = Some x" by (simp add: map_of_eq_Some_iff [OF assms(1)])
  also have "\<dots> \<longleftrightarrow> v \<in> fst ` set table \<and> enum_value table v = x"
    using map_of_eq_None_iff [of table v]
    by (cases "map_of table v") (simp_all add: enum_value_def)
  finally show ?thesis .
qed

lemma lawful_enum_key:
  assumes w: "8 dvd LENGTH('w::len)"
    and d: "distinct (map fst table)" "distinct (map snd (table :: ('v \<times> 'w word) list))"
  shows "lawful_key (enum_key table) (\<lambda>a b. enum_value table a < enum_value table b)
           (\<lambda>v. v \<in> fst ` set table)"
proof unfold_locales
  fix a b assume "a \<in> fst ` set table" "b \<in> fst ` set table"
  then show "enum_value table a < enum_value table b \<or> a = b \<or>
             enum_value table b < enum_value table a"
    using enum_value_variant [OF d] by (metis linorder_neqE option.inject)
next
  fix k r assume "k \<in> fst ` set table"
  then show "decode_part (enum_key table) (encode (enum_key table) k @ r) = Some (k, r)"
    using enum_value_variant [OF d, of "enum_value table k" k]
    by (simp add: enum_key_def from_be_bytes_to_be_bytes [OF w])
qed (auto simp: enum_key_def split_at_eq_Some from_be_bytes_to_be_bytes [OF w]
       to_be_bytes_from_be_bytes [OF w] to_be_bytes_differ [OF w] enum_value_variant [OF d]
       split: option.splits)

section \<open>Properties\<close>

text \<open>Unsigned integer keys of any whole number of bytes decode to what was encoded, fill exactly
  their size, and their encodings compare byte by byte as the numbers do.\<close>

lemma unsigned_key_correct:
  assumes "8 dvd LENGTH('w::len)"
  shows "decode unsigned_key (encode unsigned_key a) = Some (a :: 'w word) \<and>
         length (encode unsigned_key a) = LENGTH('w) div 8 \<and>
         (encode unsigned_key a < encode unsigned_key b \<longleftrightarrow> a < b)"
proof -
  have K: "lawful_key (unsigned_key :: 'w word key) (<) (\<lambda>_. True)" by (rule lawful_unsigned_key [OF assms])
  show ?thesis
    using lawful_key.decode_encode [OF K] lawful_key.encode_less_iff [OF K]
    by (simp add: unsigned_key_def size_of_def)
qed

lemma unsigned_key_correct_witness:
  "decode unsigned_key (encode unsigned_key (255 :: 32 word)) = Some (255 :: 32 word) \<and>
   encode unsigned_key (255 :: 32 word) < encode unsigned_key (256 :: 32 word)"
  using unsigned_key_correct [where 'w = 32, of 255 256] by simp

text \<open>C18: Signed integer keys decode to what was encoded, and their encodings compare as the signed
  numbers do, negative ones below the others.\<close>

lemma signed_key_correct:
  assumes "8 dvd LENGTH('w::len)"
  shows "decode signed_key (encode signed_key a) = Some (a :: 'w word) \<and>
         (encode signed_key a < encode signed_key b \<longleftrightarrow> a <s b)"
proof -
  have K: "lawful_key (signed_key :: 'w word key) (\<lambda>a b. a <s b) (\<lambda>_. True)"
    by (rule lawful_signed_key [OF assms])
  show ?thesis using lawful_key.decode_encode [OF K] lawful_key.encode_less_iff [OF K] by simp
qed

lemma signed_key_correct_witness:
  "decode signed_key (encode signed_key (-1 :: 32 word)) = Some (-1 :: 32 word) \<and>
   (encode signed_key (-1 :: 32 word) < encode signed_key (0 :: 32 word) \<longleftrightarrow> (-1 :: 32 word) <s 0)"
  using signed_key_correct [where 'w = 32, of "-1" 0] by simp

text \<open>C23: An enum key made by \<open>impl_enum_key!\<close> with distinct variants and discriminants decodes to the
  variant that was encoded; the bytes compare as the discriminants do when they are read as
  unsigned numbers.\<close>

lemma enum_key_correct:
  assumes "8 dvd LENGTH('w::len)"
    and "distinct (map fst table)" "distinct (map snd (table :: ('v \<times> 'w word) list))"
    and "v \<in> fst ` set table" "u \<in> fst ` set table"
  shows "decode (enum_key table) (encode (enum_key table) v) = Some v \<and>
         (encode (enum_key table) v < encode (enum_key table) u \<longleftrightarrow>
          enum_value table v < enum_value table u)"
proof -
  note K = lawful_enum_key [OF assms(1-3)]
  show ?thesis
    using lawful_key.decode_encode [OF K] lawful_key.encode_less_iff [OF K] assms(4,5) by simp
qed

lemma enum_key_correct_witness:
  "decode (enum_key [(False, 7), (True, 1 :: 8 word)]) (encode (enum_key [(False, 7), (True, 1 :: 8 word)]) True)
     = Some True"
  using enum_key_correct [of "[(False, 7), (True, 1 :: 8 word)]" True False] by simp

text \<open>With a signed integer type the order of an enum key is not that of the discriminants: a
  variant with a negative discriminant is encoded above one with discriminant zero.\<close>

lemma enum_key_negative_above:
  "enum_value [(''before'', -1), (''after'', 0 :: 8 word)] ''before'' <s
   enum_value [(''before'', -1), (''after'', 0 :: 8 word)] ''after'' \<and>
   encode (enum_key [(''before'', -1), (''after'', 0 :: 8 word)]) ''after'' <
   encode (enum_key [(''before'', -1), (''after'', 0 :: 8 word)]) ''before''"
  by (simp add: enum_key_def enum_value_def size_of_def word_sless_alt word_gt_0)

end
