(* ===== verification/Key_Var.thy ===== *)
theory Key_Var
  imports Key_Core
begin

text \<open>
  Byte-string keys of \<open>src/key.rs\<close>: the escaping codec of variable-size bytes and
  \<open>Vec<u8>\<close>, which keep the order of the byte strings; fixed arrays; and \<open>String\<close> and
  \<open>&str\<close>, which end in \<open>0xff\<close> without escaping. The decoder of escaped bytes is the indexed
  loop of the source, shown equal to a structural decoder. For strings the order that the
  bytes keep is made explicit (\<open>str_below\<close>): where one string is a proper prefix of the
  other it is the reverse of the order of \<open>str\<close>.
\<close>

section \<open>Escaped bytes\<close>

text \<open>\<open>encode_unsized_key_bytes\<close> appends to \<open>out\<close>: the loop, then the terminator.\<close>

fun encode_unsized_loop :: "bytes \<Rightarrow> bytes \<Rightarrow> bytes" where
  "encode_unsized_loop [] out = out"
| "encode_unsized_loop (b # bs) out =
     (if b = 0x00 then encode_unsized_loop bs (out @ [0x00, 0xff])
      else encode_unsized_loop bs (out @ [b]))"

definition encode_unsized_key_bytes :: "bytes \<Rightarrow> bytes \<Rightarrow> bytes" where
  "encode_unsized_key_bytes bs out = encode_unsized_loop bs out @ [0x00, 0x00]"

text \<open>
  \<open>decode_unsized_key_bytes\<close>: the loop over the index \<open>i\<close> with the output buffer. \<open>None\<close> is one
  of the three panics: the byte after an escape is missing, it is neither of the two allowed
  ones, or the terminator is missing.
\<close>

function decode_unsized_loop :: "bytes \<Rightarrow> nat \<Rightarrow> bytes \<Rightarrow> (bytes \<times> bytes) option" where
  "decode_unsized_loop bs i out =
     (if i < length bs then
        (if bs ! i = 0x00 then
           (if i + 1 < length bs then
              (let next_byte = bs ! (i + 1) in
               if next_byte = 0x00 then Some (out, drop (i + 2) bs)
               else if next_byte = 0xff then decode_unsized_loop bs (i + 2) (out @ [0x00])
               else None)
            else None)
         else decode_unsized_loop bs (i + 1) (out @ [bs ! i]))
      else None)"
  by pat_completeness auto
termination
  by (relation "measure (\<lambda>(bs, i, out). length bs - i)") auto

declare decode_unsized_loop.simps [simp del]

definition decode_unsized_key_bytes :: "bytes \<Rightarrow> (bytes \<times> bytes) option" where
  "decode_unsized_key_bytes bs = decode_unsized_loop bs 0 []"

text \<open>The same decoder by structural recursion, and the escaped form as a \<open>concat\<close>.\<close>

definition escape :: "bytes \<Rightarrow> bytes" where
  "escape bs = concat (map (\<lambda>b. if b = 0x00 then [0x00, 0xff] else [b]) bs)"

fun unescape :: "bytes \<Rightarrow> (bytes \<times> bytes) option" where
  "unescape [] = None"
| "unescape (b # bs) =
     (if b = 0x00 then
        (case bs of
           [] \<Rightarrow> None
         | c # r \<Rightarrow> if c = 0x00 then Some ([], r)
                    else if c = 0xff then map_option (\<lambda>(v, s). (0x00 # v, s)) (unescape r)
                    else None)
      else map_option (\<lambda>(v, s). (b # v, s)) (unescape bs))"

lemma escape_simps [simp]:
  "escape [] = []"
  "escape (b # bs) = (if b = 0x00 then [0x00, 0xff] else [b]) @ escape bs"
  by (simp_all add: escape_def)

lemma encode_unsized_loop_escape: "encode_unsized_loop bs out = out @ escape bs"
  by (induction bs arbitrary: out) auto

lemma encode_unsized_escape: "encode_unsized_key_bytes bs out = out @ escape bs @ [0x00, 0x00]"
  by (simp add: encode_unsized_key_bytes_def encode_unsized_loop_escape)

lemma decode_unsized_loop_unescape:
  "decode_unsized_loop bs i out = map_option (\<lambda>(v, r). (out @ v, r)) (unescape (drop i bs))"
proof (induction bs i out rule: decode_unsized_loop.induct)
  case (1 bs i out)
  show ?case
  proof (cases "i < length bs")
    case False
    then show ?thesis by (subst decode_unsized_loop.simps) simp
  next
    case i: True
    then have d: "drop i bs = bs ! i # drop (i + 1) bs" by (simp add: Cons_nth_drop_Suc)
    show ?thesis
    proof (cases "bs ! i = 0x00 \<and> i + 1 < length bs")
      case True
      then have "drop (i + 1) bs = bs ! (i + 1) # drop (i + 2) bs"
        by (simp add: Cons_nth_drop_Suc)
      then show ?thesis
        using i d True 1 by (subst decode_unsized_loop.simps)
          (auto simp: Let_def option.map_comp comp_def case_prod_unfold)
    next
      case False
      then show ?thesis
        using i d 1 by (subst decode_unsized_loop.simps)
          (auto simp: option.map_comp comp_def case_prod_unfold)
    qed
  qed
qed

lemma decode_unsized_unescape: "decode_unsized_key_bytes bs = unescape bs"
  by (simp add: decode_unsized_key_bytes_def decode_unsized_loop_unescape option.map_id
      flip: id_def)

lemma unescape_escape: "unescape (escape v @ 0x00 # 0x00 # r) = Some (v, r)"
  by (induction v) auto

lemma unescape_sound: "unescape bs = Some (v, r) \<Longrightarrow> bs = escape v @ 0x00 # 0x00 # r"
  by (induction bs arbitrary: v rule: unescape.induct)
     (auto split: if_splits list.splits)

lemma unescape_iff: "unescape bs = Some (v, r) \<longleftrightarrow> bs = escape v @ 0x00 # 0x00 # r"
  using unescape_escape unescape_sound by auto

lemma escape_differs: "a < b \<Longrightarrow> differs_below (escape a @ [0x00, 0x00]) (escape b @ [0x00, 0x00])"
  by (induction a b rule: differs_below.induct) (auto simp: word_gt_0 neq_Nil_conv)

definition vec_key :: "bytes key" where
  "vec_key = \<lparr>key_size = Variable,
              encode = (\<lambda>v. encode_unsized_key_bytes v []),
              decode_part = decode_unsized_key_bytes\<rparr>"

interpretation vec: lawful_key vec_key "(<)" "\<lambda>_. True"
  by unfold_locales
     (auto simp: vec_key_def encode_unsized_escape decode_unsized_unescape unescape_iff
        escape_differs)

section \<open>Fixed arrays\<close>

definition array_key :: "nat \<Rightarrow> bytes key" where
  "array_key S = \<lparr>key_size = Fixed S, encode = (\<lambda>a. a), decode_part = split_at S\<rparr>"

lemma less_same_length_differs: "a < b \<Longrightarrow> length a = length b \<Longrightarrow> differs_below a b"
  by (induction a b rule: differs_below.induct) auto

lemma lawful_array_key: "lawful_key (array_key S) (<) (\<lambda>a. length a = S)"
  by unfold_locales (auto simp: array_key_def split_at_eq_Some less_same_length_differs)

interpretation arr0: lawful_key "array_key 0" "(<)" "\<lambda>a. length a = 0"
  by (rule lawful_array_key)

section \<open>Strings\<close>

text \<open>
  A \<open>String\<close> is its UTF-8 bytes; \<open>utf8_valid\<close> is the check of \<open>str::from_utf8\<close> (the well-formed
  byte sequences of the Unicode standard: no overlong forms, no surrogates, at most U+10FFFF).
\<close>

definition continuation :: "byte \<Rightarrow> bool" where
  "continuation b \<longleftrightarrow> 0x80 \<le> b \<and> b \<le> 0xbf"

definition utf8_second :: "byte \<Rightarrow> byte \<Rightarrow> bool" where
  "utf8_second lead b \<longleftrightarrow>
     (if lead = 0xe0 then 0xa0 \<le> b \<and> b \<le> 0xbf
      else if lead = 0xed then 0x80 \<le> b \<and> b \<le> 0x9f
      else if lead = 0xf0 then 0x90 \<le> b \<and> b \<le> 0xbf
      else if lead = 0xf4 then 0x80 \<le> b \<and> b \<le> 0x8f
      else continuation b)"

fun utf8_valid :: "bytes \<Rightarrow> bool" where
  "utf8_valid [] \<longleftrightarrow> True"
| "utf8_valid (b # bs) \<longleftrightarrow>
     (if b \<le> 0x7f then utf8_valid bs
      else if 0xc2 \<le> b \<and> b \<le> 0xdf then
        (case bs of b1 # r \<Rightarrow> continuation b1 \<and> utf8_valid r | _ \<Rightarrow> False)
      else if 0xe0 \<le> b \<and> b \<le> 0xef then
        (case bs of b1 # b2 # r \<Rightarrow> utf8_second b b1 \<and> continuation b2 \<and> utf8_valid r | _ \<Rightarrow> False)
      else if 0xf0 \<le> b \<and> b \<le> 0xf4 then
        (case bs of b1 # b2 # b3 # r \<Rightarrow>
           utf8_second b b1 \<and> continuation b2 \<and> continuation b3 \<and> utf8_valid r | _ \<Rightarrow> False)
      else False)"

lemma continuation_not_max: "\<not> continuation 0xff"
  by (simp add: continuation_def)

lemma utf8_second_not_max: "\<not> utf8_second lead 0xff"
  by (simp add: utf8_second_def continuation_def)

lemma utf8_valid_no_max: "utf8_valid s \<Longrightarrow> 0xff \<notin> set s"
  by (induction s rule: utf8_valid.induct)
     (auto simp: continuation_not_max utf8_second_not_max split: if_splits list.splits)

text \<open>\<open>Iterator::position\<close>.\<close>

fun position :: "(byte \<Rightarrow> bool) \<Rightarrow> bytes \<Rightarrow> nat option" where
  "position p [] = None"
| "position p (b # bs) = (if p b then Some 0 else map_option Suc (position p bs))"

text \<open>
  \<open>impl Key for &str\<close>, to which \<open>impl Key for String\<close> delegates. \<open>None\<close> is a panic: no
  terminator, bytes that are not UTF-8, or an empty tail.
\<close>

definition str_key :: "bytes key" where
  "str_key =
     \<lparr>key_size = Variable,
      encode = (\<lambda>s. s @ [0xff]),
      decode_part = (\<lambda>bs.
        case position (\<lambda>b. b = 0xff) bs of
          None \<Rightarrow> None
        | Some end_str_pos \<Rightarrow>
            (let strbytes = take end_str_pos bs; tail = drop end_str_pos bs in
             if utf8_valid strbytes then
               (case tail of [] \<Rightarrow> None | _ # r \<Rightarrow> Some (strbytes, r))
             else None))\<rparr>"

definition string_key :: "bytes key" where
  "string_key = \<lparr>key_size = Variable, encode = (\<lambda>s. encode str_key s),
                 decode_part = (\<lambda>bs. decode_part str_key bs)\<rparr>"

lemma position_append: "\<forall>b \<in> set a. \<not> p b \<Longrightarrow> p c \<Longrightarrow> position p (a @ c # r) = Some (length a)"
  by (induction a) auto

lemma position_eq_Some:
  "position p bs = Some i \<Longrightarrow>
   \<exists>c r. drop i bs = c # r \<and> p c \<and> bs = take i bs @ c # r \<and> (\<forall>b \<in> set (take i bs). \<not> p b)"
proof (induction bs arbitrary: i)
  case (Cons b bs)
  then show ?case by (cases "p b") auto
qed simp

text \<open>The order that the encoded strings have: a byte decides as usual, the end counts as highest.\<close>

fun str_below :: "bytes \<Rightarrow> bytes \<Rightarrow> bool" where
  "str_below (x # xs) (y # ys) \<longleftrightarrow> x < y \<or> x = y \<and> str_below xs ys"
| "str_below (x # xs) [] \<longleftrightarrow> True"
| "str_below [] _ \<longleftrightarrow> False"

lemma str_below_differs:
  "0xff \<notin> set a \<Longrightarrow> 0xff \<notin> set b \<Longrightarrow> str_below a b \<Longrightarrow>
   differs_below (a @ [0xff]) (b @ [0xff])"
  by (induction a b rule: str_below.induct) (auto simp flip: byte_less_max)

lemma str_below_total: "str_below a b \<or> a = b \<or> str_below b a"
proof (induction a b rule: str_below.induct)
  case (3 b)
  then show ?case by (cases b) auto
qed auto

lemma str_below_iff: "str_below a b \<longleftrightarrow> differs_below a b \<or> strict_prefix b a"
  by (induction a b rule: str_below.induct) (auto simp: strict_prefix_def)

lemma lawful_str_key: "lawful_key str_key str_below utf8_valid"
proof unfold_locales
  fix k r assume "utf8_valid k"
  then have "position (\<lambda>b. b = 0xff) (k @ 0xff # r) = Some (length k)"
    by (intro position_append) (auto dest: utf8_valid_no_max)
  then show "decode_part str_key (encode str_key k @ r) = Some (k, r)"
    using \<open>utf8_valid k\<close> by (simp add: str_key_def)
next
  fix bs k r assume "decode_part str_key bs = Some (k, r)"
  then show "utf8_valid k \<and> bs = encode str_key k @ r"
    by (auto simp: str_key_def Let_def split: option.splits if_splits list.splits
        dest!: position_eq_Some)
next
  fix a b assume "utf8_valid a" "utf8_valid b" "str_below a b"
  then show "differs_below (encode str_key a) (encode str_key b)"
    by (simp add: str_key_def str_below_differs utf8_valid_no_max)
next
  fix a b show "str_below a b \<or> a = b \<or> str_below b a" by (rule str_below_total)
qed (simp add: str_key_def)

lemma string_key_eq: "string_key = str_key"
  by (simp add: string_key_def str_key_def)

interpretation str: lawful_key str_key str_below utf8_valid
  by (rule lawful_str_key)

section \<open>Properties\<close>

text \<open>C19: The escaping codec of variable-size keys reads back exactly what it wrote and leaves the bytes
  behind it: the decoder succeeds on the encoding of a value followed by anything, with that
  value and that rest, and on nothing else (every other input is a panic).\<close>

lemma decode_unsized_exact:
  "decode_unsized_key_bytes bs = Some (v, rest) \<longleftrightarrow> bs = encode_unsized_key_bytes v [] @ rest"
  by (simp add: decode_unsized_unescape unescape_iff encode_unsized_escape)

text \<open>C20: \<open>Vec<u8>\<close> keys decode to what was encoded, and escaping keeps the lexicographic order of the
  byte strings, also when one is a prefix of the other or contains zero bytes.\<close>

lemma vec_key_correct:
  "decode vec_key (encode vec_key a) = Some a \<and> (encode vec_key a < encode vec_key b \<longleftrightarrow> a < b)"
  by (simp add: vec.decode_encode vec.encode_less_iff)

text \<open>String keys decode to what was encoded, and distinct strings get distinct encodings that are
  not prefixes of each other, whatever follows them.\<close>

lemma str_key_roundtrip:
  assumes "utf8_valid a" "utf8_valid b"
  shows "decode string_key (encode string_key a) = Some a \<and>
         (prefix (encode string_key a) (encode string_key b @ r) \<longleftrightarrow> a = b)"
  using assms by (simp add: string_key_eq str.decode_encode str.prefix_free)

lemma str_key_roundtrip_witness:
  "decode string_key (encode string_key [0x61, 0xc3, 0xa9]) = Some [0x61, 0xc3, 0xa9]"
  using str_key_roundtrip [of "[0x61, 0xc3, 0xa9]" "[]"] by (simp add: continuation_def utf8_second_def)

text \<open>C21: String keys do not keep the order of strings: when a string is a proper prefix of another, it is
  the smaller string but has the greater key, because of the terminator \<open>0xff\<close>.\<close>

lemma str_key_prefix_reversed:
  assumes "utf8_valid b" "strict_prefix a b"
  shows "a < b \<and> encode string_key b < encode string_key a"
proof -
  obtain c r where b: "b = a @ c # r" using assms(2) by (auto elim: strict_prefixE')
  then have "c < 0xff"
    using utf8_valid_no_max [OF assms(1)] byte_less_max [of c] by auto
  then show ?thesis
    using append_less_append [of a "[]" "c # r"] by (simp add: b string_key_eq str_key_def)
qed

lemma str_key_prefix_reversed_witness:
  "[0x61] < ([0x61, 0x62] :: bytes) \<and> encode string_key [0x61, 0x62] < encode string_key [0x61]"
  using str_key_prefix_reversed [of "[0x61, 0x62]" "[0x61]"] by (simp add: strict_prefix_def)

end
