(* ===== verification/Key_Tuple.thy ===== *)
theory Key_Tuple
  imports Key_Int Key_Var
begin

text \<open>
  Composite keys of \<open>src/key.rs\<close>: tuples of two, three and four keys, whose encoding is the
  concatenation of the parts, and \<open>AppendKey\<close>, which a \<open>Multi\<close> index uses to put the primary
  key behind an index key. The longer tuples are shown equal to nested pairs, so that one
  proof of the contract serves all of them.
\<close>

section \<open>Tuples\<close>

fun key_size2 :: "key_size \<Rightarrow> key_size \<Rightarrow> key_size" where
  "key_size2 (Fixed s1) (Fixed s2) = Fixed (s1 + s2)"
| "key_size2 _ _ = Variable"

definition tuple2_key :: "'a key \<Rightarrow> 'b key \<Rightarrow> ('a \<times> 'b) key" where
  "tuple2_key A B =
     (let size = key_size2 (key_size A) (key_size B) in
      \<lparr>key_size = size,
       encode = (\<lambda>(a, b).
         case size of
           Fixed s \<Rightarrow> (let out = [] @ encode A a in out @ encode B b)
         | Variable \<Rightarrow> (let out = encode A a in out @ encode B b)),
       decode_part = (\<lambda>bs.
         case decode_part A bs of None \<Rightarrow> None | Some (a, r) \<Rightarrow>
         case decode_part B r of None \<Rightarrow> None | Some (b, r) \<Rightarrow>
         Some ((a, b), r))\<rparr>)"

fun key_size3 :: "key_size \<Rightarrow> key_size \<Rightarrow> key_size \<Rightarrow> key_size" where
  "key_size3 (Fixed s1) (Fixed s2) (Fixed s3) = Fixed (s1 + s2 + s3)"
| "key_size3 _ _ _ = Variable"

definition tuple3_key :: "'a key \<Rightarrow> 'b key \<Rightarrow> 'c key \<Rightarrow> ('a \<times> 'b \<times> 'c) key" where
  "tuple3_key A B C =
     (let size = key_size3 (key_size A) (key_size B) (key_size C) in
      \<lparr>key_size = size,
       encode = (\<lambda>(a, b, c).
         case size of
           Fixed s \<Rightarrow> (let out = [] @ encode A a; out = out @ encode B b in out @ encode C c)
         | Variable \<Rightarrow> (let out = encode A a; out = out @ encode B b in out @ encode C c)),
       decode_part = (\<lambda>bs.
         case decode_part A bs of None \<Rightarrow> None | Some (a, r) \<Rightarrow>
         case decode_part B r of None \<Rightarrow> None | Some (b, r) \<Rightarrow>
         case decode_part C r of None \<Rightarrow> None | Some (c, r) \<Rightarrow>
         Some ((a, b, c), r))\<rparr>)"

fun key_size4 :: "key_size \<Rightarrow> key_size \<Rightarrow> key_size \<Rightarrow> key_size \<Rightarrow> key_size" where
  "key_size4 (Fixed s1) (Fixed s2) (Fixed s3) (Fixed s4) = Fixed (s1 + s2 + s3 + s4)"
| "key_size4 _ _ _ _ = Variable"

definition tuple4_key ::
  "'a key \<Rightarrow> 'b key \<Rightarrow> 'c key \<Rightarrow> 'd key \<Rightarrow> ('a \<times> 'b \<times> 'c \<times> 'd) key" where
  "tuple4_key A B C D =
     (let size = key_size4 (key_size A) (key_size B) (key_size C) (key_size D) in
      \<lparr>key_size = size,
       encode = (\<lambda>(a, b, c, d).
         case size of
           Fixed s \<Rightarrow> (let out = [] @ encode A a; out = out @ encode B b; out = out @ encode C c
                       in out @ encode D d)
         | Variable \<Rightarrow> (let out = encode A a; out = out @ encode B b; out = out @ encode C c
                        in out @ encode D d)),
       decode_part = (\<lambda>bs.
         case decode_part A bs of None \<Rightarrow> None | Some (a, r) \<Rightarrow>
         case decode_part B r of None \<Rightarrow> None | Some (b, r) \<Rightarrow>
         case decode_part C r of None \<Rightarrow> None | Some (c, r) \<Rightarrow>
         case decode_part D r of None \<Rightarrow> None | Some (d, r) \<Rightarrow>
         Some ((a, b, c, d), r))\<rparr>)"

section \<open>Appending the primary key\<close>

text \<open>
  An implementation of \<open>AppendKey\<close> is its \<open>append\<close> and the \<open>Key\<close> dictionary of the longer
  tuple it makes; the appended part is a reference to the primary key.
\<close>

record ('ik, 'pk, 'sk) append_key =
  append_fn :: "'ik \<Rightarrow> 'pk \<Rightarrow> 'sk"
  appended_key :: "'sk key"

definition append1 :: "'a key \<Rightarrow> 'pk key \<Rightarrow> ('a tup1, 'pk, 'a \<times> 'pk) append_key" where
  "append1 A PK = \<lparr>append_fn = (\<lambda>t pk. (tup1_0 t, pk)),
                   appended_key = tuple2_key A (ref_key PK)\<rparr>"

definition append2 :: "'a key \<Rightarrow> 'b key \<Rightarrow> 'pk key \<Rightarrow> ('a \<times> 'b, 'pk, 'a \<times> 'b \<times> 'pk) append_key" where
  "append2 A B PK = \<lparr>append_fn = (\<lambda>(a, b) pk. (a, b, pk)),
                     appended_key = tuple3_key A B (ref_key PK)\<rparr>"

definition append3 ::
  "'a key \<Rightarrow> 'b key \<Rightarrow> 'c key \<Rightarrow> 'pk key \<Rightarrow>
   ('a \<times> 'b \<times> 'c, 'pk, 'a \<times> 'b \<times> 'c \<times> 'pk) append_key" where
  "append3 A B C PK = \<lparr>append_fn = (\<lambda>(a, b, c) pk. (a, b, c, pk)),
                       appended_key = tuple4_key A B C (ref_key PK)\<rparr>"

section \<open>Tuples as nested pairs\<close>

lemma tuple2_key_simps [simp]:
  "key_size (tuple2_key A B) = key_size2 (key_size A) (key_size B)"
  "encode (tuple2_key A B) p = encode A (fst p) @ encode B (snd p)"
  "decode_part (tuple2_key A B) bs =
     (case decode_part A bs of None \<Rightarrow> None | Some (a, r) \<Rightarrow>
      case decode_part B r of None \<Rightarrow> None | Some (b, s) \<Rightarrow> Some ((a, b), s))"
  by (auto simp: tuple2_key_def Let_def split: prod.splits key_size.splits)

lemma key_size3_eq: "key_size3 a b c = key_size2 a (key_size2 b c)"
  by (cases a; cases b; cases c) auto

lemma key_size4_eq: "key_size4 a b c d = key_size2 a (key_size2 b (key_size2 c d))"
  by (cases a; cases b; cases c; cases d) auto

lemma tuple3_key_nested: "tuple3_key A B C = tuple2_key A (tuple2_key B C)"
proof -
  have "decode_part (tuple3_key A B C) = decode_part (tuple2_key A (tuple2_key B C))"
    by (rule ext) (auto simp: tuple3_key_def Let_def split: option.splits prod.splits)
  moreover have "encode (tuple3_key A B C) = encode (tuple2_key A (tuple2_key B C))"
    by (rule ext) (auto simp: tuple3_key_def Let_def split: key_size.splits prod.splits)
  moreover have "key_size (tuple3_key A B C) = key_size (tuple2_key A (tuple2_key B C))"
    by (simp add: tuple3_key_def Let_def key_size3_eq)
  ultimately show ?thesis by (metis key.equality old.unit.exhaust)
qed

lemma tuple4_key_nested: "tuple4_key A B C D = tuple2_key A (tuple2_key B (tuple2_key C D))"
proof -
  have "decode_part (tuple4_key A B C D) = decode_part (tuple2_key A (tuple2_key B (tuple2_key C D)))"
    by (rule ext) (auto simp: tuple4_key_def Let_def split: option.splits prod.splits)
  moreover have "encode (tuple4_key A B C D) = encode (tuple2_key A (tuple2_key B (tuple2_key C D)))"
    by (rule ext) (auto simp: tuple4_key_def Let_def split: key_size.splits prod.splits)
  moreover have "key_size (tuple4_key A B C D) = key_size (tuple2_key A (tuple2_key B (tuple2_key C D)))"
    by (simp add: tuple4_key_def Let_def key_size4_eq)
  ultimately show ?thesis by (metis key.equality old.unit.exhaust)
qed

section \<open>The contract of a composite key\<close>

definition lex_lt :: "('a \<Rightarrow> 'a \<Rightarrow> bool) \<Rightarrow> ('b \<Rightarrow> 'b \<Rightarrow> bool) \<Rightarrow> 'a \<times> 'b \<Rightarrow> 'a \<times> 'b \<Rightarrow> bool" where
  "lex_lt la lb p q \<longleftrightarrow> la (fst p) (fst q) \<or> fst p = fst q \<and> lb (snd p) (snd q)"

definition both :: "('a \<Rightarrow> bool) \<Rightarrow> ('b \<Rightarrow> bool) \<Rightarrow> 'a \<times> 'b \<Rightarrow> bool" where
  "both va vb p \<longleftrightarrow> va (fst p) \<and> vb (snd p)"

lemma key_size2_Fixed: "key_size2 a b = Fixed n \<longleftrightarrow> (\<exists>i j. a = Fixed i \<and> b = Fixed j \<and> n = i + j)"
  by (cases a; cases b) auto

locale two_keys =
  a: lawful_key A la va + b: lawful_key B lb vb
  for A :: "'a key" and la va and B :: "'b key" and lb vb

sublocale two_keys \<subseteq> pair: lawful_key "tuple2_key A B" "lex_lt la lb" "both va vb"
proof unfold_locales
  fix k r assume "both va vb k"
  then show "decode_part (tuple2_key A B) (encode (tuple2_key A B) k @ r) = Some (k, r)"
    by (simp add: both_def a.decode_part_encode b.decode_part_encode)
next
  fix bs k r assume "decode_part (tuple2_key A B) bs = Some (k, r)"
  then obtain s where "decode_part A bs = Some (fst k, s)" "decode_part B s = Some (snd k, r)"
    by (auto split: option.splits prod.splits)
  then show "both va vb k \<and> bs = encode (tuple2_key A B) k @ r"
    by (auto simp: both_def a.decode_part_iff b.decode_part_iff)
next
  fix p q assume "both va vb p" "both va vb q" "lex_lt la lb p q"
  then show "differs_below (encode (tuple2_key A B) p) (encode (tuple2_key A B) q)"
    by (auto simp: both_def lex_lt_def a.order_kept b.order_kept intro: lex_intros)
next
  fix p q assume "both va vb p" "both va vb q"
  then show "lex_lt la lb p q \<or> p = q \<or> lex_lt la lb q p"
    using a.total [of "fst p" "fst q"] b.total [of "snd p" "snd q"]
    by (auto simp: both_def lex_lt_def prod_eq_iff)
next
  fix n k assume "key_size (tuple2_key A B) = Fixed n" "both va vb k"
  then show "length (encode (tuple2_key A B) k) = n"
    by (auto simp: both_def key_size2_Fixed a.fixed_length b.fixed_length)
qed

context two_keys
begin

lemma pair_lawful: "lawful_key (tuple2_key A B) (lex_lt la lb) (both va vb)"
  by (rule pair.lawful_key_axioms)

end

lemma lawful_tuple2_key:
  "lawful_key A la va \<Longrightarrow> lawful_key B lb vb \<Longrightarrow>
   lawful_key (tuple2_key A B) (lex_lt la lb) (both va vb)"
  by (rule two_keys.pair_lawful) (rule two_keys.intro)

lemma lawful_tuple3_key:
  "lawful_key A la va \<Longrightarrow> lawful_key B lb vb \<Longrightarrow> lawful_key C lc vc \<Longrightarrow>
   lawful_key (tuple3_key A B C) (lex_lt la (lex_lt lb lc)) (both va (both vb vc))"
  by (simp add: tuple3_key_nested lawful_tuple2_key)

lemma lawful_tuple4_key:
  "lawful_key A la va \<Longrightarrow> lawful_key B lb vb \<Longrightarrow> lawful_key C lc vc \<Longrightarrow> lawful_key D ld vd \<Longrightarrow>
   lawful_key (tuple4_key A B C D) (lex_lt la (lex_lt lb (lex_lt lc ld)))
     (both va (both vb (both vc vd)))"
  by (simp add: tuple4_key_nested lawful_tuple2_key)

text \<open>The index key and primary key of a collection of users: an email with a number.\<close>

interpretation str_u64: two_keys str_key str_below utf8_valid u64_key "(<)" "\<lambda>_. True"
  by (rule two_keys.intro) unfold_locales

section \<open>Properties\<close>

text \<open>C22: A composite key of three parts decodes to the tuple that was encoded and orders tuples
  lexicographically, whenever its parts are keys that keep their order.\<close>

lemma tuple3_key_correct:
  assumes A: "lawful_key A la va" and B: "lawful_key B lb vb" and C: "lawful_key C lc vc"
    and p: "va a \<and> vb b \<and> vc c" and q: "va a' \<and> vb b' \<and> vc c'"
  shows "decode (tuple3_key A B C) (encode (tuple3_key A B C) (a, b, c)) = Some (a, b, c) \<and>
         (encode (tuple3_key A B C) (a, b, c) < encode (tuple3_key A B C) (a', b', c') \<longleftrightarrow>
          la a a' \<or> a = a' \<and> (lb b b' \<or> b = b' \<and> lc c c'))"
proof -
  note K = lawful_tuple3_key [OF A B C]
  show ?thesis
    using lawful_key.decode_encode [OF K, of "(a, b, c)"]
      lawful_key.encode_less_iff [OF K, of "(a, b, c)" "(a', b', c')"] p q
    by (simp add: both_def lex_lt_def)
qed

lemma tuple3_key_correct_witness:
  "decode (tuple3_key u8_key vec_key i16_key) (encode (tuple3_key u8_key vec_key i16_key) (1, [2, 0], -3))
     = Some (1, [2, 0], -3)"
  using tuple3_key_correct [OF u8.lawful_key_axioms vec.lawful_key_axioms i16.lawful_key_axioms,
      of 1 "[2, 0]" "-3" 1 "[2, 0]" "-3"] by simp

end
