(* ===== verification/Key_Prefix.thy ===== *)
theory Key_Prefix
  imports Ranges Key_Tuple
begin

text \<open>
  Prefix bounds of \<open>src/prefix.rs\<close>. \<open>prefix_end\<close> turns an encoded prefix into the end of the
  smallest range that holds every key beginning with it; the main fact is that the range is
  exactly those keys. \<open>Prefixable\<close> says which leftmost parts of a tuple can be a prefix and
  how a suffix completes it.
\<close>

section \<open>The end of a prefix range\<close>

text \<open>The loop runs the index down from the length; \<open>Suc i\<close> is the iteration at index \<open>i\<close>.\<close>

fun prefix_end_loop :: "nat \<Rightarrow> bytes \<Rightarrow> scan_bound" where
  "prefix_end_loop 0 bs = Unbounded"
| "prefix_end_loop (Suc i) bs =
     (if bs ! i \<noteq> 0xff then Excluded (take (i + 1) (bs[i := bs ! i + 1]))
      else prefix_end_loop i bs)"

definition prefix_end :: "bytes \<Rightarrow> scan_bound" where
  "prefix_end bs = prefix_end_loop (length bs) bs"

lemma prefix_end_loop_append: "i \<le> length p \<Longrightarrow> prefix_end_loop i (p @ q) = prefix_end_loop i p"
  by (induction i) (auto simp: nth_append list_update_append)

lemma prefix_end_Nil [simp]: "prefix_end [] = Unbounded"
  by (simp add: prefix_end_def)

lemma prefix_end_snoc [simp]:
  "prefix_end (p @ [b]) = (if b = 0xff then prefix_end p else Excluded (p @ [b + 1]))"
  by (simp add: prefix_end_def prefix_end_loop_append list_update_append)

lemma between_successors:
  assumes b: "b \<noteq> 0xff" and k: "p @ [b] \<le> k"
  shows "k < p @ [b + 1] \<longleftrightarrow> prefix (p @ [b]) (k :: bytes)"
proof
  assume less: "k < p @ [b + 1]"
  have "prefix p k"
  proof -
    have "\<not> differs_below p k"
      using less differs_below_less_append [of p k "[b + 1]" "[]"] by auto
    moreover have "\<not> differs_below k p"
      using k differs_below_less_append [of k p "[]" "[b]"] by auto
    moreover have "\<not> strict_prefix k p"
      using k prefix_le [of k p] by (metis leD le_append order.strict_trans2 order_le_less
          strict_prefix_def less_iff_prefix_or_differs)
    ultimately show ?thesis
      using differs_below_trichotomy [of p k] by (auto simp: strict_prefix_def)
  qed
  then obtain s where s: "k = p @ s" by (auto elim: prefixE)
  with k less obtain c r where "s = c # r" "b \<le> c" "c < b + 1 \<or> c = b + 1 \<and> r < []"
    by (cases s) (auto simp: list_le_def)
  then have "c = b" using byte_less_add_one [OF b, of c] by auto
  then show "prefix (p @ [b]) k" using s \<open>s = c # r\<close> by simp
next
  assume "prefix (p @ [b]) k"
  then obtain r where "k = p @ b # r" by (auto elim: prefixE)
  then show "k < p @ [b + 1]" using byte_less_add_one [OF b, of b] by simp
qed

lemma end_ok_prefix_end:
  "p \<le> k \<Longrightarrow> end_ok (<) (prefix_end p) k \<longleftrightarrow> prefix p (k :: bytes)"
proof (induction p rule: rev_induct)
  case Nil
  then show ?case by simp
next
  case (snoc b p)
  show ?case
  proof (cases "b = 0xff")
    case False
    then show ?thesis using between_successors [OF False snoc.prems] by simp
  next
    case True
    have "p \<le> k" using snoc.prems le_append by (rule order_trans [rotated])
    then have "end_ok (<) (prefix_end p) k \<longleftrightarrow> prefix p k" by (rule snoc.IH)
    moreover have "prefix p k \<longleftrightarrow> prefix (p @ [b]) k"
    proof
      assume "prefix p k"
      then obtain s where "k = p @ s" by (auto elim: prefixE)
      then show "prefix (p @ [b]) k"
        using snoc.prems True by (cases s) (auto simp: list_le_def)
    qed (auto dest: append_prefixD)
    ultimately show ?thesis using True by simp
  qed
qed

text \<open>The range of an encoded prefix, as the tests of the crate build it.\<close>

definition encoded_prefix_range :: "bytes \<Rightarrow> scan_range" where
  "encoded_prefix_range p = (if p = [] then (Unbounded, Unbounded) else (Included p, prefix_end p))"

lemma contains_prefix_range: "contains (<) (Included p, prefix_end p) k \<longleftrightarrow> prefix p k"
proof (cases "p \<le> k")
  case True
  then show ?thesis by (auto simp: end_ok_prefix_end le_less)
next
  case False
  then show ?thesis using prefix_le [of p k] by (auto simp: le_less)
qed

lemma contains_encoded_prefix_range: "contains (<) (encoded_prefix_range p) k \<longleftrightarrow> prefix p k"
  using contains_prefix_range [of p k] by (auto simp: encoded_prefix_range_def)

text \<open>
  The same bound used as a start, as an excluded start of a non-unique index does: it is above
  every key with the prefix, but it is exclusive, so it also leaves out the successor itself.
\<close>

lemma prefix_end_above: "prefix_end p = Excluded e \<Longrightarrow> p < e \<and> \<not> prefix p e"
proof (induction p rule: rev_induct)
  case (snoc b p)
  show ?case
  proof (cases "b = 0xff")
    case True
    with snoc have "p < e" "\<not> prefix p e" by auto
    then have "differs_below p e"
      by (auto simp: less_iff_prefix_or_differs strict_prefix_def)
    then have "p @ [b] < e" using differs_below_less_append [of p e "[b]" "[]"] by simp
    then show ?thesis using \<open>\<not> prefix p e\<close> by (auto dest: append_prefixD)
  next
    case False
    then show ?thesis using snoc.prems byte_less_add_one [OF False, of b] by auto
  qed
qed simp

lemma start_ok_prefix_end:
  assumes "prefix_end p = Excluded e"
  shows "start_ok (<) (prefix_end p) k \<longleftrightarrow> p \<le> k \<and> \<not> prefix p k \<and> k \<noteq> e"
  using assms prefix_end_above [OF assms] end_ok_prefix_end [of p k] prefix_le [of p k]
  by (auto simp: not_le)

text \<open>There is no such bound when every byte of the prefix is \<open>0xff\<close>.\<close>

lemma prefix_end_Unbounded: "prefix_end p = Unbounded \<longleftrightarrow> (\<forall>b \<in> set p. b = 0xff)"
  by (induction p rule: rev_induct) auto

lemma prefix_end_cases: "prefix_end p = Unbounded \<or> (\<exists>e. prefix_end p = Excluded e)"
  by (induction p rule: rev_induct) auto

lemma end_ok_prefix_end_iff: "end_ok (<) (prefix_end p) k \<longleftrightarrow> k < p \<or> prefix p (k :: bytes)"
proof (cases "p \<le> k")
  case True
  then show ?thesis using end_ok_prefix_end [OF True] by auto
next
  case False
  then show ?thesis using prefix_end_cases [of p] prefix_end_above [of p] by auto
qed

text \<open>Whatever is properly below the bound in the prefix order is a prefix of the prefix.\<close>

lemma strict_prefix_of_prefix_end:
  "prefix_end p = Excluded e \<Longrightarrow> strict_prefix x e \<Longrightarrow> prefix x p"
  by (induction p rule: rev_induct) (auto split: if_splits simp: strict_prefix_def)

section \<open>Prefixes of tuples\<close>

text \<open>
  Every key can be a prefix, encoded as it is. An implementation of \<open>Prefixable\<close> is the key
  of its prefix, the key of its suffix and \<open>compose\<close>.
\<close>

definition encode_prefix :: "'p key \<Rightarrow> 'p \<Rightarrow> bytes" where
  "encode_prefix P p = encode P p"

record ('p, 's, 'k) prefixing =
  prefix_key :: "'p key"
  suffix_key :: "'s key"
  compose :: "'p \<Rightarrow> 's \<Rightarrow> 'k"

definition prefix2 :: "'a key \<Rightarrow> 'b key \<Rightarrow> ('a, 'b, 'a \<times> 'b) prefixing" where
  "prefix2 A B = \<lparr>prefix_key = A, suffix_key = B, compose = (\<lambda>prefix suffix. (prefix, suffix))\<rparr>"

definition prefix3_1 ::
  "'a key \<Rightarrow> 'b key \<Rightarrow> 'c key \<Rightarrow> ('a, 'b \<times> 'c, 'a \<times> 'b \<times> 'c) prefixing" where
  "prefix3_1 A B C = \<lparr>prefix_key = A, suffix_key = tuple2_key B C,
                      compose = (\<lambda>prefix (b, c). (prefix, b, c))\<rparr>"

definition prefix3_2 ::
  "'a key \<Rightarrow> 'b key \<Rightarrow> 'c key \<Rightarrow> ('a \<times> 'b, 'c, 'a \<times> 'b \<times> 'c) prefixing" where
  "prefix3_2 A B C = \<lparr>prefix_key = tuple2_key A B, suffix_key = C,
                      compose = (\<lambda>(a, b) suffix. (a, b, suffix))\<rparr>"

definition prefix4_1 ::
  "'a key \<Rightarrow> 'b key \<Rightarrow> 'c key \<Rightarrow> 'd key \<Rightarrow>
   ('a, 'b \<times> 'c \<times> 'd, 'a \<times> 'b \<times> 'c \<times> 'd) prefixing" where
  "prefix4_1 A B C D = \<lparr>prefix_key = A, suffix_key = tuple3_key B C D,
                        compose = (\<lambda>prefix (b, c, d). (prefix, b, c, d))\<rparr>"

definition prefix4_2 ::
  "'a key \<Rightarrow> 'b key \<Rightarrow> 'c key \<Rightarrow> 'd key \<Rightarrow>
   ('a \<times> 'b, 'c \<times> 'd, 'a \<times> 'b \<times> 'c \<times> 'd) prefixing" where
  "prefix4_2 A B C D = \<lparr>prefix_key = tuple2_key A B, suffix_key = tuple2_key C D,
                        compose = (\<lambda>(a, b) (c, d). (a, b, c, d))\<rparr>"

definition prefix4_3 ::
  "'a key \<Rightarrow> 'b key \<Rightarrow> 'c key \<Rightarrow> 'd key \<Rightarrow>
   ('a \<times> 'b \<times> 'c, 'd, 'a \<times> 'b \<times> 'c \<times> 'd) prefixing" where
  "prefix4_3 A B C D = \<lparr>prefix_key = tuple3_key A B C, suffix_key = D,
                        compose = (\<lambda>(a, b, c) suffix. (a, b, c, suffix))\<rparr>"

text \<open>
  What the scan builders rely on: composing concatenates the encodings, and every key comes
  from a prefix and a suffix.
\<close>

locale prefixable =
  k: lawful_key K lt valid +
  p: lawful_key "prefix_key X" ltp vp +
  s: lawful_key "suffix_key X" lts vs
  for K :: "'k key" and lt valid and X :: "('p, 's, 'k) prefixing" and ltp vp lts vs +
  assumes encode_compose:
      "encode K (compose X p s) = encode (prefix_key X) p @ encode (suffix_key X) s"
    and valid_compose: "valid (compose X p s) \<longleftrightarrow> vp p \<and> vs s"
    and compose_surj: "\<exists>p s. k = compose X p s"
begin

lemma has_prefix_iff:
  assumes "vp p" "valid k"
  shows "prefix (encode_prefix (prefix_key X) p) (encode K k @ r) \<longleftrightarrow>
         (\<exists>s. vs s \<and> k = compose X p s)"
proof
  assume *: "prefix (encode_prefix (prefix_key X) p) (encode K k @ r)"
  obtain q s where k: "k = compose X q s" using compose_surj by blast
  then have v: "vp q" "vs s" using assms valid_compose by auto
  with * k have "p = q"
    using p.prefix_free [OF assms(1) v(1)] by (simp add: encode_prefix_def encode_compose)
  then show "\<exists>s. vs s \<and> k = compose X p s" using k v by auto
next
  assume "\<exists>s. vs s \<and> k = compose X p s"
  then show "prefix (encode_prefix (prefix_key X) p) (encode K k @ r)"
    by (auto simp: encode_prefix_def encode_compose)
qed

lemma compose_inject:
  assumes "vp p" "vs s" "vp q" "vs t"
  shows "compose X p s = compose X q t \<longleftrightarrow> p = q \<and> s = t"
  using assms p.encode_append_inject [of p q "encode (suffix_key X) s" "encode (suffix_key X) t"]
    s.encode_inject encode_compose by metis

lemma compose_less_iff:
  assumes "vp p" "vs s" "vp q" "vs t"
  shows "lt (compose X p s) (compose X q t) \<longleftrightarrow> ltp p q \<or> p = q \<and> lts s t"
  using assms k.encode_less_iff [of "compose X p s" "compose X q t"]
  by (simp add: valid_compose encode_compose p.encode_append_less_iff s.encode_less_iff)

end

lemma prefixable_2:
  assumes "lawful_key A la va" "lawful_key B lb vb"
  shows "prefixable (tuple2_key A B) (lex_lt la lb) (both va vb) (prefix2 A B) la va lb vb"
  using assms lawful_tuple2_key [OF assms]
  by (auto simp: prefixable_def prefixable_axioms_def prefix2_def both_def)

lemma prefixable_3_1:
  assumes "lawful_key A la va" "lawful_key B lb vb" "lawful_key C lc vc"
  shows "prefixable (tuple3_key A B C) (lex_lt la (lex_lt lb lc)) (both va (both vb vc))
           (prefix3_1 A B C) la va (lex_lt lb lc) (both vb vc)"
  using assms lawful_tuple3_key [OF assms] lawful_tuple2_key [OF assms(2,3)]
  by (auto simp: prefixable_def prefixable_axioms_def prefix3_1_def both_def tuple3_key_nested
      split: prod.splits)

lemma prefixable_3_2:
  assumes "lawful_key A la va" "lawful_key B lb vb" "lawful_key C lc vc"
  shows "prefixable (tuple3_key A B C) (lex_lt la (lex_lt lb lc)) (both va (both vb vc))
           (prefix3_2 A B C) (lex_lt la lb) (both va vb) lc vc"
  using assms lawful_tuple3_key [OF assms] lawful_tuple2_key [OF assms(1,2)]
  by (auto simp: prefixable_def prefixable_axioms_def prefix3_2_def both_def tuple3_key_nested
      split: prod.splits)

lemma prefixable_4_1:
  assumes "lawful_key A la va" "lawful_key B lb vb" "lawful_key C lc vc" "lawful_key D ld vd"
  shows "prefixable (tuple4_key A B C D) (lex_lt la (lex_lt lb (lex_lt lc ld)))
           (both va (both vb (both vc vd)))
           (prefix4_1 A B C D) la va (lex_lt lb (lex_lt lc ld)) (both vb (both vc vd))"
  using assms lawful_tuple4_key [OF assms] lawful_tuple3_key [OF assms(2-4)]
  by (auto simp: prefixable_def prefixable_axioms_def prefix4_1_def both_def tuple3_key_nested
      tuple4_key_nested split: prod.splits)

lemma prefixable_4_2:
  assumes "lawful_key A la va" "lawful_key B lb vb" "lawful_key C lc vc" "lawful_key D ld vd"
  shows "prefixable (tuple4_key A B C D) (lex_lt la (lex_lt lb (lex_lt lc ld)))
           (both va (both vb (both vc vd)))
           (prefix4_2 A B C D) (lex_lt la lb) (both va vb) (lex_lt lc ld) (both vc vd)"
  using assms lawful_tuple4_key [OF assms] lawful_tuple2_key [OF assms(1,2)]
    lawful_tuple2_key [OF assms(3,4)]
  by (auto simp: prefixable_def prefixable_axioms_def prefix4_2_def both_def
      tuple4_key_nested split: prod.splits)

lemma prefixable_4_3:
  assumes "lawful_key A la va" "lawful_key B lb vb" "lawful_key C lc vc" "lawful_key D ld vd"
  shows "prefixable (tuple4_key A B C D) (lex_lt la (lex_lt lb (lex_lt lc ld)))
           (both va (both vb (both vc vd)))
           (prefix4_3 A B C D) (lex_lt la (lex_lt lb lc)) (both va (both vb vc)) ld vd"
  using assms lawful_tuple4_key [OF assms] lawful_tuple3_key [OF assms(1-3)]
  by (auto simp: prefixable_def prefixable_axioms_def prefix4_3_def both_def tuple3_key_nested
      tuple4_key_nested split: prod.splits)

interpretation str_u64_prefix: prefixable "tuple2_key str_key u64_key" "lex_lt str_below (<)"
  "both utf8_valid (\<lambda>_. True)" "prefix2 str_key u64_key" str_below utf8_valid "(<)" "\<lambda>_. True"
  by (rule prefixable_2) unfold_locales

section \<open>Properties\<close>

text \<open>C17: The range from an encoded prefix to \<open>prefix_end\<close> of it holds exactly the keys that begin with
  the prefix, also for a prefix that ends in \<open>0xff\<close> bytes or is all \<open>0xff\<close>.\<close>

lemma prefix_range_exact: "contains (<) (Included p, prefix_end p) k \<longleftrightarrow> prefix p k"
  by (rule contains_prefix_range)

end
