(* ===== verification/Bounds.thy ===== *)
theory Bounds
  imports Key_Prefix
begin

text \<open>
  The bounds encoders of \<open>src/bounds.rs\<close>: from a range of logical keys to the range of encoded
  bytes a store is scanned with. \<open>ExactEncoder\<close> is for stores keyed by the encoded key alone
  (the main store and unique indexes), \<open>PrefixEncoder\<close> for non-unique indexes, whose store
  keys go on with the primary key. The theorems say that a store key is in the encoded range
  exactly when its logical key is in the logical range, and name the one bound for which
  the second encoder does not keep that promise and the ranges it makes malformed.
\<close>

section \<open>The encoders\<close>

datatype encoder = ExactEncoder | PrefixEncoder

fun map_bound :: "('a \<Rightarrow> 'b) \<Rightarrow> 'a bound \<Rightarrow> 'b bound" where
  "map_bound f (Included k) = Included (f k)"
| "map_bound f (Excluded k) = Excluded (f k)"
| "map_bound f Unbounded = Unbounded"

fun encode_start_bound :: "encoder \<Rightarrow> 'k key \<Rightarrow> 'k bound \<Rightarrow> scan_bound" where
  "encode_start_bound ExactEncoder K b = map_bound (encode K) b"
| "encode_start_bound PrefixEncoder K (Included k) = Included (encode K k)"
| "encode_start_bound PrefixEncoder K (Excluded k) = prefix_end (encode K k)"
| "encode_start_bound PrefixEncoder K Unbounded = Unbounded"

fun encode_end_bound :: "encoder \<Rightarrow> 'k key \<Rightarrow> 'k bound \<Rightarrow> scan_bound" where
  "encode_end_bound ExactEncoder K b = map_bound (encode K) b"
| "encode_end_bound PrefixEncoder K (Included k) = prefix_end (encode K k)"
| "encode_end_bound PrefixEncoder K (Excluded k) = Excluded (encode K k)"
| "encode_end_bound PrefixEncoder K Unbounded = Unbounded"

definition encode_range :: "encoder \<Rightarrow> 'k key \<Rightarrow> 'k bound \<times> 'k bound \<Rightarrow> scan_range" where
  "encode_range E K r =
     (encode_start_bound E K (fst r), encode_end_bound E K (snd r))"

definition encode_prefix_range :: "('p, 's, 'k) prefixing \<Rightarrow> 'p \<Rightarrow> scan_range" where
  "encode_prefix_range X p =
     (let bound = encode_prefix (prefix_key X) p in (Included bound, prefix_end bound))"

definition encode_prefixed_range ::
  "encoder \<Rightarrow> 'k key \<Rightarrow> ('p, 's, 'k) prefixing \<Rightarrow> 'p \<Rightarrow> 's bound \<times> 's bound \<Rightarrow> scan_range" where
  "encode_prefixed_range E K X p r =
     (let (prefix_start, prefix_end) = encode_prefix_range X p in
      (case fst r of
         Included rest \<Rightarrow> encode_start_bound E K (Included (compose X p rest))
       | Excluded rest \<Rightarrow> encode_start_bound E K (Excluded (compose X p rest))
       | Unbounded \<Rightarrow> prefix_start,
       case snd r of
         Included rest \<Rightarrow> encode_end_bound E K (Included (compose X p rest))
       | Excluded rest \<Rightarrow> encode_end_bound E K (Excluded (compose X p rest))
       | Unbounded \<Rightarrow> prefix_end))"

lemma fst_encode_prefixed_range:
  "fst (encode_prefixed_range E K X p r) =
     (if fst r = Unbounded then Included (encode (prefix_key X) p)
      else encode_start_bound E K (map_bound (compose X p) (fst r)))"
  by (cases "fst r")
    (simp_all add: encode_prefixed_range_def encode_prefix_range_def encode_prefix_def Let_def
      del: encode_start_bound.simps)

lemma snd_encode_prefixed_range:
  "snd (encode_prefixed_range E K X p r) =
     (if snd r = Unbounded then prefix_end (encode (prefix_key X) p)
      else encode_end_bound E K (map_bound (compose X p) (snd r)))"
  by (cases "snd r")
    (simp_all add: encode_prefixed_range_def encode_prefix_range_def encode_prefix_def Let_def
      del: encode_end_bound.simps)

lemma unrefined_prefix_no_panic: "\<not> range_panics (encode_prefixed_range E K X p (Unbounded, Unbounded))"
proof -
  let ?p = "encode (prefix_key X) p"
  have "encode_prefixed_range E K X p (Unbounded, Unbounded) = (Included ?p, prefix_end ?p)"
    by (simp add: encode_prefixed_range_def encode_prefix_range_def encode_prefix_def Let_def)
  then show ?thesis
    using contains_no_panic [of "(Included ?p, prefix_end ?p)" ?p] contains_prefix_range [of ?p ?p] by simp
qed

section \<open>Encoded ranges select the logical ranges\<close>

text \<open>
  A start the second encoder handles: an exclusive start with a byte other than \<open>0xff\<close>, so
  that its encoding has a successor.
\<close>

fun start_has_successor :: "'k key \<Rightarrow> 'k bound \<Rightarrow> bool" where
  "start_has_successor K (Excluded k) \<longleftrightarrow> prefix_end (encode K k) \<noteq> Unbounded"
| "start_has_successor K _ \<longleftrightarrow> True"

text \<open>The keys that have none.\<close>

definition all_ff :: "bytes \<Rightarrow> bool" where
  "all_ff bs \<longleftrightarrow> list_all (\<lambda>b. b = 0xff) bs"

lemma all_ff_iff: "all_ff bs \<longleftrightarrow> prefix_end bs = Unbounded"
  by (simp add: all_ff_def list_all_iff prefix_end_Unbounded)

text \<open>What follows the logical key in a store key of each kind of store.\<close>

fun tail_ok :: "encoder \<Rightarrow> bytes \<Rightarrow> bool" where
  "tail_ok ExactEncoder t \<longleftrightarrow> t = []"
| "tail_ok PrefixEncoder t \<longleftrightarrow> t \<noteq> []"

context lawful_key
begin

lemma start_ok_exact:
  "bound_valid valid b \<Longrightarrow> valid k \<Longrightarrow>
   start_ok (<) (encode_start_bound ExactEncoder K b) (encode K k) \<longleftrightarrow> start_ok lt b k"
  by (cases b) (auto simp: encode_less_iff encode_inject)

lemma end_ok_exact:
  "bound_valid valid b \<Longrightarrow> valid k \<Longrightarrow>
   end_ok (<) (encode_end_bound ExactEncoder K b) (encode K k) \<longleftrightarrow> end_ok lt b k"
  by (cases b) (auto simp: encode_less_iff encode_inject)

lemma le_append_iff:
  "valid a \<Longrightarrow> valid k \<Longrightarrow> encode K a \<le> encode K k @ t \<longleftrightarrow> lt a k \<or> a = k"
  using encode_append_less_iff [of k a t "[]"] total [of a k]
  by (auto simp: not_less [symmetric] dest: lt_asym lt_irrefl)

lemma less_append_iff:
  "valid a \<Longrightarrow> valid k \<Longrightarrow> encode K k @ t < encode K a \<longleftrightarrow> lt k a"
  using encode_append_less_iff [of k a t "[]"] by auto

lemma start_ok_prefix:
  assumes v: "bound_valid valid b" "valid k" and t: "t \<noteq> []" and s: "start_has_successor K b"
  shows "start_ok (<) (encode_start_bound PrefixEncoder K b) (encode K k @ t) \<longleftrightarrow> start_ok lt b k"
proof (cases b)
  case (Included a)
  then show ?thesis using v le_append_iff [of a k t] by (simp add: le_less)
next
  case (Excluded a)
  then obtain e where e: "prefix_end (encode K a) = Excluded e"
    using s prefix_end_cases by auto
  have a: "valid a" using v Excluded by simp
  have "encode K k @ t \<noteq> e"
  proof
    assume "encode K k @ t = e"
    then have "strict_prefix (encode K k) e" using t by (auto simp: strict_prefix_def)
    then have "prefix (encode K k) (encode K a @ [])"
      using strict_prefix_of_prefix_end [OF e] by simp
    then have "k = a" using prefix_free v(2) a by blast
    then show False using prefix_end_above [OF e] \<open>encode K k @ t = e\<close> by auto
  qed
  then show ?thesis
    using start_ok_prefix_end [OF e, of "encode K k @ t"] Excluded a v(2)
    by (auto simp: le_append_iff prefix_free dest: lt_irrefl)
next
  case Unbounded
  then show ?thesis by simp
qed

lemma end_ok_prefix:
  "bound_valid valid b \<Longrightarrow> valid k \<Longrightarrow>
   end_ok (<) (encode_end_bound PrefixEncoder K b) (encode K k @ t) \<longleftrightarrow> end_ok lt b k"
  by (cases b) (auto simp: end_ok_prefix_end_iff less_append_iff prefix_free)

lemma start_ok_encoded:
  assumes "bound_valid valid b" "valid k" "tail_ok E t" "E = PrefixEncoder \<Longrightarrow> start_has_successor K b"
  shows "start_ok (<) (encode_start_bound E K b) (encode K k @ t) \<longleftrightarrow> start_ok lt b k"
  using assms by (cases E) (simp_all add: start_ok_exact start_ok_prefix del: encode_start_bound.simps)

lemma end_ok_encoded:
  assumes "bound_valid valid b" "valid k" "tail_ok E t"
  shows "end_ok (<) (encode_end_bound E K b) (encode K k @ t) \<longleftrightarrow> end_ok lt b k"
  using assms by (cases E) (simp_all add: end_ok_exact end_ok_prefix del: encode_end_bound.simps)

text \<open>With the exact encoder a range is malformed exactly when the range of keys is.\<close>

lemma exact_range_panics:
  assumes "bound_valid valid (fst r)" "bound_valid valid (snd r)"
  shows "range_panics (encode_range ExactEncoder K r) \<longleftrightarrow> malformed lt r"
  using assms
  by (cases r; cases "fst r"; cases "snd r")
    (auto simp: encode_range_def encode_less_iff encode_inject le_less)

text \<open>A key whose bytes are all \<open>0xff\<close> is the greatest one, and no key is between two keys of which
  the second is encoded as the end of the first as a prefix.\<close>

lemma nothing_above_all_ff:
  assumes "valid a" "valid k" "all_ff (encode K a)"
  shows "\<not> lt a k"
  using assms [unfolded all_ff_iff] end_ok_prefix [of "Included a" k "[]"] by (auto dest: lt_asym lt_irrefl)

lemma nothing_between_neighbours:
  assumes "valid a" "valid b" "valid k" "prefix_end (encode K a) = Excluded (encode K b)"
  shows "\<not> (lt a k \<and> lt k b)"
  using assms end_ok_prefix [of "Included a" k "[]"]
  by (auto simp: encode_less_iff dest: lt_asym lt_irrefl)

lemma contains_encode_range:
  assumes "bound_valid valid (fst r)" "bound_valid valid (snd r)" "valid k" "tail_ok E t"
    and "E = PrefixEncoder \<Longrightarrow> start_has_successor K (fst r)"
  shows "contains (<) (encode_range E K r) (encode K k @ t) \<longleftrightarrow> contains lt r k"
  using assms by (simp add: contains_pair encode_range_def start_ok_encoded end_ok_encoded)

end

context prefixable
begin

lemma prefix_start_iff:
  assumes "vp p" "vp q" "vs s"
  shows "encode (prefix_key X) p \<le> encode K (compose X q s) @ t \<longleftrightarrow> ltp p q \<or> p = q"
  using assms by (simp add: encode_compose p.le_append_iff)

lemma prefix_end_iff:
  assumes "vp p" "vp q" "vs s"
  shows "end_ok (<) (prefix_end (encode (prefix_key X) p)) (encode K (compose X q s) @ t) \<longleftrightarrow>
         ltp q p \<or> p = q"
  using assms by (simp add: end_ok_prefix_end_iff encode_compose p.less_append_iff p.prefix_free)

text \<open>Both ends of a prefixed range, for a key with any prefix.\<close>

lemma prefixed_start_ok:
  assumes v: "vp p" "vp q" "vs s" "bound_valid vs b" "tail_ok E t"
    and suc: "E = PrefixEncoder \<Longrightarrow> start_has_successor K (map_bound (compose X p) b)"
  shows "start_ok (<) (fst (encode_prefixed_range E K X p (b, c))) (encode K (compose X q s) @ t)
         \<longleftrightarrow> ltp p q \<or> p = q \<and> start_ok lts b s"
proof (cases b)
  case Unbounded
  then show ?thesis
    using prefix_start_iff [OF v(1-3), of t]
    by (auto simp: fst_encode_prefixed_range le_less)
next
  case (Included a)
  then show ?thesis
    using v suc k.start_ok_encoded [of "Included (compose X p a)" "compose X q s" E t]
    by (auto simp: fst_encode_prefixed_range valid_compose
        compose_less_iff compose_inject simp del: encode_start_bound.simps)
next
  case (Excluded a)
  then show ?thesis
    using v suc k.start_ok_encoded [of "Excluded (compose X p a)" "compose X q s" E t]
    by (auto simp: fst_encode_prefixed_range valid_compose
        compose_less_iff simp del: encode_start_bound.simps)
qed

lemma prefixed_end_ok:
  assumes v: "vp p" "vp q" "vs s" "bound_valid vs c" "tail_ok E t"
  shows "end_ok (<) (snd (encode_prefixed_range E K X p (b, c))) (encode K (compose X q s) @ t)
         \<longleftrightarrow> ltp q p \<or> p = q \<and> end_ok lts c s"
proof (cases c)
  case Unbounded
  then show ?thesis
    using prefix_end_iff [OF v(1-3), of t]
    by (auto simp: snd_encode_prefixed_range)
next
  case (Included a)
  then show ?thesis
    using v k.end_ok_encoded [of "Included (compose X p a)" "compose X q s" E t]
    by (auto simp: snd_encode_prefixed_range valid_compose
        compose_less_iff compose_inject simp del: encode_end_bound.simps)
next
  case (Excluded a)
  then show ?thesis
    using v k.end_ok_encoded [of "Excluded (compose X p a)" "compose X q s" E t]
    by (auto simp: snd_encode_prefixed_range valid_compose
        compose_less_iff simp del: encode_end_bound.simps)
qed

lemma contains_prefixed_range:
  assumes "vp p" "valid k" "bound_valid vs (fst r)" "bound_valid vs (snd r)" "tail_ok E t"
    and "E = PrefixEncoder \<Longrightarrow> start_has_successor K (map_bound (compose X p) (fst r))"
  shows "contains (<) (encode_prefixed_range E K X p r) (encode K k @ t) \<longleftrightarrow>
         (\<exists>s. vs s \<and> k = compose X p s \<and> contains lts r s)"
proof -
  obtain q s where k: "k = compose X q s" using compose_surj by blast
  then have v: "vp q" "vs s" using assms(2) by (auto simp: valid_compose)
  obtain b c where r: "r = (b, c)" by (cases r)
  have "\<not> (ltp p q \<and> ltp q p)" using p.lt_asym assms(1) v(1) by blast
  then have "contains (<) (encode_prefixed_range E K X p r) (encode K k @ t) \<longleftrightarrow>
             p = q \<and> start_ok lts b s \<and> end_ok lts c s"
    using assms v p.lt_irrefl [of p]
    by (auto simp: contains_pair k r prefixed_start_ok prefixed_end_ok)
  then show ?thesis using assms(1) v by (auto simp: k r compose_inject)
qed

end

section \<open>Properties\<close>

text \<open>C15: A range of valid logical keys becomes a byte range that holds a store key exactly when the logical key
  is in the range: with the exact encoder for store keys that are the encoded key, with the
  prefix encoder for store keys that go on with a primary key, as long as an exclusive start is
  not a key whose bytes are all \<open>0xff\<close> (\<open>start_has_successor\<close>).\<close>

lemma encoded_range_selects:
  assumes "lawful_key K lt valid" "valid k" "tail_ok E t"
    and "bound_valid valid (fst r)" "bound_valid valid (snd r)"
    and "E = PrefixEncoder \<Longrightarrow> start_has_successor K (fst r)"
  shows "contains (<) (encode_range E K r) (encode K k @ t) \<longleftrightarrow> contains lt r k"
  using lawful_key.contains_encode_range [OF assms(1,4,5,2,3,6)] by simp

lemma encoded_range_selects_witness:
  "contains (<) (encode_range PrefixEncoder u8_key (Excluded 3, Included 255)) (encode u8_key 255 @ [1])"
  using encoded_range_selects [where k = 255 and E = PrefixEncoder and t = "[1]"
      and r = "(Excluded 3, Included 255)", OF u8.lawful_key_axioms]
  by (simp add: u8_key_def unsigned_key_def size_of_def prefix_end_def)

text \<open>C16: A valid typed prefix with a range over valid rests of the key becomes a byte range that holds a store key
  exactly when its logical key is composed of that prefix and a rest in the range; with the prefix
  encoder as long as an exclusive start, completed by the prefix, is not a key whose bytes are all
  \<open>0xff\<close>.\<close>

lemma encoded_prefixed_range_selects:
  assumes "prefixable K lt valid X ltp vp lts vs" "vp p" "valid k" "tail_ok E t"
    and "bound_valid vs (fst r)" "bound_valid vs (snd r)"
    and "E = PrefixEncoder \<Longrightarrow> start_has_successor K (map_bound (compose X p) (fst r))"
  shows "contains (<) (encode_prefixed_range E K X p r) (encode K k @ t) \<longleftrightarrow>
         (\<exists>s. vs s \<and> k = compose X p s \<and> contains lts r s)"
  using prefixable.contains_prefixed_range [OF assms(1,2,3,5,6,4,7)] by simp

lemma encoded_prefixed_range_selects_witness:
  "contains (<) (encode_prefixed_range ExactEncoder (tuple2_key u8_key u8_key) (prefix2 u8_key u8_key) 1
     (Unbounded, Excluded 9)) (encode (tuple2_key u8_key u8_key) (1, 8) @ [])"
  using encoded_prefixed_range_selects [where p = 1 and k = "(1, 8)" and E = ExactEncoder and t = "[]"
      and r = "(Unbounded, Excluded 9)", OF prefixable_2 [OF u8.lawful_key_axioms u8.lawful_key_axioms]]
  by (simp add: both_def prefix2_def del: contains.simps) (simp add: contains.simps)

text \<open>C24: A range that contains some valid key is never turned into a range \<open>BTreeMap\<close> panics on.\<close>

lemma encoded_range_no_panic:
  assumes "lawful_key K lt valid" "valid k" "contains lt r k"
    and "bound_valid valid (fst r)" "bound_valid valid (snd r)"
    and "E = PrefixEncoder \<Longrightarrow> start_has_successor K (fst r)"
  shows "\<not> range_panics (encode_range E K r)"
proof -
  have "\<exists>t. tail_ok E t" by (cases E) (auto intro: exI [of _ "[]"] exI [of _ "[0]"])
  then obtain t where "tail_ok E t" by auto
  then have "contains (<) (encode_range E K r) (encode K k @ t)"
    using lawful_key.contains_encode_range [OF assms(1,4,5,2)] assms(3,6) by simp
  then show ?thesis by (rule contains_no_panic)
qed

lemma encoded_range_no_panic_witness:
  "\<not> range_panics (encode_range PrefixEncoder u8_key (Excluded 3, Excluded 5))"
  using encoded_range_no_panic [where k = 4 and r = "(Excluded 3, Excluded 5)" and E = PrefixEncoder, OF u8.lawful_key_axioms]
  by (simp add: u8_key_def unsigned_key_def size_of_def prefix_end_def)

text \<open>
  Where the prefix encoder goes wrong. An exclusive start whose bytes are all \<open>0xff\<close> has no
  successor, and the start is lost.
\<close>

lemma prefix_encoder_loses_start:
  "prefix_end (encode K a) = Unbounded \<Longrightarrow>
   encode_range PrefixEncoder K (Excluded a, e) = encode_range PrefixEncoder K (Unbounded, e)"
  by (simp add: encode_range_def)

text \<open>
  The empty range between two neighbouring keys, both excluded, and the rest of a prefix behind a
  suffix of only \<open>0xff\<close> bytes become ranges with two equal excluded bounds.
\<close>

lemma prefix_encoder_neighbours:
  "prefix_end (encode K a) = Excluded (encode K b) \<Longrightarrow>
   range_panics (encode_range PrefixEncoder K (Excluded a, Excluded b))"
  by (simp add: encode_range_def)

lemma prefix_end_append_ff: "prefix_end q = Unbounded \<Longrightarrow> prefix_end (p @ q) = prefix_end p"
proof (induction q rule: rev_induct)
  case (snoc b q)
  then show ?case
    by (auto simp: append_assoc [symmetric] simp del: append_assoc split: if_splits)
qed simp

lemma prefix_encoder_last_suffix:
  assumes "encode K (compose X p s) = encode (prefix_key X) p @ encode (suffix_key X) s"
    and "all_ff (encode (suffix_key X) s)" and "\<not> all_ff (encode (prefix_key X) p)"
  shows "range_panics (encode_prefixed_range PrefixEncoder K X p (Excluded s, Unbounded))"
proof -
  let ?r = "encode_prefixed_range PrefixEncoder K X p (Excluded s, Unbounded)"
  obtain e where e: "prefix_end (encode (prefix_key X) p) = Excluded e"
    using assms(3) prefix_end_cases by (auto simp: all_ff_iff)
  then have "fst ?r = Excluded e" "snd ?r = Excluded e"
    using prefix_end_append_ff assms(1,2)
    by (simp_all add: fst_encode_prefixed_range snd_encode_prefixed_range all_ff_iff)
  then show ?thesis by (cases ?r) simp
qed

end
