(* ===== verification/Index.thy ===== *)
theory Index
  imports Store Bounds
begin

text \<open>
  Records and their secondary indexes: the \<open>Item\<close> trait of \<open>src/item.rs\<close>, the \<open>Index\<close> and
  \<open>IndexKind\<close> traits of \<open>src/index.rs\<close>, and the registry of a collection's indexes of
  \<open>src/index_registry.rs\<close>.

  An index is a record of its name, its key extraction and its kind. The type-level list of
  a collection's indexes mixes key types, so its elements keep of an index only what the
  registry uses of it: the store key of a record as bytes, the comparison of two store keys,
  and their debug text (\<open>erase_index\<close>).
\<close>

section \<open>Items\<close>

record ('r, 'pk) item =
  item_key :: "'r \<Rightarrow> 'pk"
  to_bytes :: "'r \<Rightarrow> (std_error, bytes) outcome"
  from_bytes :: "bytes \<Rightarrow> (std_error, 'r) outcome"
  pk_key :: "'pk key"
  pk_debug :: "'pk \<Rightarrow> string"

section \<open>Index kinds\<close>

record ('ik, 'pk, 'sk) index_kind =
  store_key :: "'ik \<Rightarrow> 'pk \<Rightarrow> 'sk"
  store_key_key :: "'sk key"
  store_key_debug :: "'sk \<Rightarrow> string"
  bounds_encoder :: encoder

definition unique_kind :: "'ik key \<Rightarrow> ('ik \<Rightarrow> string) \<Rightarrow> ('ik, 'pk, 'ik) index_kind" where
  "unique_kind K dbg = \<lparr>store_key = (\<lambda>k pk. k), store_key_key = K, store_key_debug = dbg,
                        bounds_encoder = ExactEncoder\<rparr>"

definition multi_kind ::
  "('ik, 'pk, 'sk) append_key \<Rightarrow> ('sk \<Rightarrow> string) \<Rightarrow> ('ik, 'pk, 'sk) index_kind" where
  "multi_kind A dbg = \<lparr>store_key = (\<lambda>k pk. append_fn A k pk), store_key_key = appended_key A,
                       store_key_debug = dbg, bounds_encoder = PrefixEncoder\<rparr>"

record ('r, 'ik, 'pk, 'sk) index_type =
  index_name :: name
  index_key :: "'r \<Rightarrow> 'ik"
  index_key_key :: "'ik key"
  kind :: "('ik, 'pk, 'sk) index_kind"

section \<open>Indexes in a registry\<close>

record ('r, 'pk) any_index =
  ix_name :: name
  ix_store_key :: "'r \<Rightarrow> 'pk \<Rightarrow> bytes"
  ix_same_key :: "'r \<Rightarrow> 'r \<Rightarrow> 'pk \<Rightarrow> bool"
  ix_debug :: "'r \<Rightarrow> 'pk \<Rightarrow> string"

definition erase_index :: "('r, 'ik, 'pk, 'sk) index_type \<Rightarrow> ('r, 'pk) any_index" where
  "erase_index X =
     (let sk = (\<lambda>r pk. store_key (kind X) (index_key X r) pk) in
      \<lparr>ix_name = index_name X,
       ix_store_key = (\<lambda>r pk. encode (store_key_key (kind X)) (sk r pk)),
       ix_same_key = (\<lambda>old new pk. sk old pk = sk new pk),
       ix_debug = (\<lambda>r pk. store_key_debug (kind X) (sk r pk))\<rparr>)"

text \<open>
  \<open>Index::update\<close> in three parts: it opens the store, then \<open>index_write\<close> removes the old store
  key unless it is unchanged, then \<open>index_put\<close> checks that the new store key is free and
  writes it.
\<close>

definition index_put ::
  "('db, 'rh, 'rs, 'wh, 'ws) multistore \<Rightarrow> ('r, 'pk) any_index \<Rightarrow> 'pk key \<Rightarrow> 'pk \<Rightarrow> 'r \<Rightarrow> 'ws \<Rightarrow>
   (error, 'wh) outcome" where
  "index_put I X PK pk new ws =
     (let skey = ix_store_key X new pk in
      and_then (map_err error_backend (ws_get I skey ws)) (\<lambda>found.
        if found \<noteq> None then Fail (AlreadyExists (ix_debug X new pk))
        else map_ret (ws_close I) (map_err error_backend (ws_set I skey (encode PK pk) ws))))"

definition index_write ::
  "('db, 'rh, 'rs, 'wh, 'ws) multistore \<Rightarrow> ('r, 'pk) any_index \<Rightarrow> 'pk key \<Rightarrow> 'pk \<Rightarrow> 'r option \<Rightarrow> 'r \<Rightarrow>
   'ws \<Rightarrow> (error, 'wh) outcome" where
  "index_write I X PK pk old new ws =
     (case old of
        None \<Rightarrow> index_put I X PK pk new ws
      | Some item \<Rightarrow>
          if ix_same_key X item new pk then Ret (ws_close I ws)
          else and_then (map_err error_backend (ws_remove I (ix_store_key X item pk) ws))
                 (index_put I X PK pk new))"

definition index_update ::
  "('db, 'rh, 'rs, 'wh, 'ws) multistore \<Rightarrow> ('r, 'pk) any_index \<Rightarrow> 'pk key \<Rightarrow> 'pk \<Rightarrow> 'r option \<Rightarrow> 'r \<Rightarrow>
   'wh \<Rightarrow> (error, 'wh) outcome" where
  "index_update I X PK pk old new tx =
     and_then (map_err error_backend (wh_open I (ix_name X) tx)) (index_write I X PK pk old new)"

definition index_remove ::
  "('db, 'rh, 'rs, 'wh, 'ws) multistore \<Rightarrow> ('r, 'pk) any_index \<Rightarrow> 'pk \<Rightarrow> 'r \<Rightarrow> 'wh \<Rightarrow>
   (error, 'wh) outcome" where
  "index_remove I X pk item tx =
     and_then (map_err error_backend (wh_open I (ix_name X) tx)) (\<lambda>ws.
       map_ret (ws_close I) (map_err error_backend (ws_remove I (ix_store_key X item pk) ws)))"

section \<open>The registry\<close>

type_synonym ('r, 'pk) registry = "('r, 'pk) any_index list"

fun registry_store_names :: "('r, 'pk) registry \<Rightarrow> name list \<Rightarrow> name list" where
  "registry_store_names [] out = out"
| "registry_store_names (X # T) out = registry_store_names T (out @ [ix_name X])"

fun registry_update ::
  "('db, 'rh, 'rs, 'wh, 'ws) multistore \<Rightarrow> ('r, 'pk) registry \<Rightarrow> 'pk key \<Rightarrow> 'pk \<Rightarrow> 'r option \<Rightarrow> 'r \<Rightarrow>
   'wh \<Rightarrow> (error, 'wh) outcome" where
  "registry_update I [] PK pk old new tx = Ret tx"
| "registry_update I (X # T) PK pk old new tx =
     and_then (index_update I X PK pk old new tx) (registry_update I T PK pk old new)"

fun registry_remove ::
  "('db, 'rh, 'rs, 'wh, 'ws) multistore \<Rightarrow> ('r, 'pk) registry \<Rightarrow> 'pk \<Rightarrow> 'r \<Rightarrow> 'wh \<Rightarrow>
   (error, 'wh) outcome" where
  "registry_remove I [] pk item tx = Ret tx"
| "registry_remove I (X # T) pk item tx =
     and_then (index_remove I X pk item tx) (registry_remove I T pk item)"

fun registry_has_index :: "('r, 'pk) registry \<Rightarrow> name \<Rightarrow> bool" where
  "registry_has_index [] n \<longleftrightarrow> False"
| "registry_has_index (X # T) n \<longleftrightarrow> ix_name X = n \<or> registry_has_index T n"

lemma registry_store_names_eq: "registry_store_names T out = out @ List.map ix_name T"
  by (induction T out rule: registry_store_names.induct) auto

lemma registry_has_index_iff: "registry_has_index T n \<longleftrightarrow> n \<in> ix_name ` set T"
  by (induction T) auto

section \<open>Any backend does what the reference does\<close>

context lawful_multistore
begin

lemma index_put_refines:
  "store_on q ws \<Longrightarrow>
   refines (backend_failed may_fail) (handle_on q) wh_abs
     (index_put I X PK pk new ws) (index_put ref_ms X PK pk new (ws_abs ws))"
  unfolding index_put_def Let_def ref_ms_simps
  by (rule refines_and_then [OF refines_map_err [OF get_on]])
    (auto intro!: refine_intros refines_map_ret [OF refines_map_err [OF set_on]]
      simp del: map_err.simps dest: close_on)

lemma index_write_refines:
  assumes ws: "store_on q ws"
  shows "refines (backend_failed may_fail) (handle_on q) wh_abs
           (index_write I X PK pk old new ws) (index_write ref_ms X PK pk old new (ws_abs ws))"
proof (cases old)
  case None
  then show ?thesis using ws by (simp add: index_write_def index_put_refines)
next
  case (Some item)
  have "refines (backend_failed may_fail) (handle_on q) wh_abs
     (and_then (map_err error_backend (ws_remove I k ws)) (index_put I X PK pk new))
     (and_then (map_err error_backend (Ret (ref_update (bt_remove k) (ws_abs ws))))
        (index_put ref_ms X PK pk new))" for k
    by (rule refines_and_then [OF refines_map_err [OF remove_on [OF ws]]]) (rule index_put_refines)
  then show ?thesis
    using close_on [OF ws] Some
    by (auto simp: index_write_def simp del: map_err.simps intro!: refine_intros)
qed

lemma index_update_refines:
  "handle_on q tx \<Longrightarrow>
   refines (backend_failed may_fail) (handle_on q) wh_abs
     (index_update I X PK pk old new tx) (index_update ref_ms X PK pk old new (wh_abs tx))"
  unfolding index_update_def ref_ms_simps
  by (rule refines_and_then [OF refines_map_err [OF open_on]]) (auto intro: index_write_refines)

lemma index_remove_refines:
  "handle_on q tx \<Longrightarrow>
   refines (backend_failed may_fail) (handle_on q) wh_abs
     (index_remove I X pk item tx) (index_remove ref_ms X pk item (wh_abs tx))"
  unfolding index_remove_def ref_ms_simps
  by (rule refines_and_then [OF refines_map_err [OF open_on]])
    (auto intro!: refines_map_ret [OF refines_map_err [OF remove_on]]
      simp del: map_err.simps dest: close_on)

lemma registry_update_refines:
  "handle_on q tx \<Longrightarrow>
   refines (backend_failed may_fail) (handle_on q) wh_abs
     (registry_update I T PK pk old new tx) (registry_update ref_ms T PK pk old new (wh_abs tx))"
  by (induction T arbitrary: tx)
    (auto intro!: refine_intros refines_and_then [OF index_update_refines])

lemma registry_remove_refines:
  "handle_on q tx \<Longrightarrow>
   refines (backend_failed may_fail) (handle_on q) wh_abs
     (registry_remove I T pk item tx) (registry_remove ref_ms T pk item (wh_abs tx))"
  by (induction T arbitrary: tx)
    (auto intro!: refine_intros refines_and_then [OF index_remove_refines])

end

end
