(* ===== verification/Index_Content.thy ===== *)
theory Index_Content
  imports Index
begin

text \<open>
  What the stores of a collection hold. A collection is specified by a finite table from
  primary keys to records; the primary store represents it by the encoded records
  (\<open>main_repr\<close>), an index by one entry per record, from the record's store key to its primary
  key (\<open>index_repr\<close>). The lemmas say that updating and removing through an index keeps that
  representation in step with the table, and that an update is refused exactly when another
  record already has the store key.
\<close>

section \<open>Contracts of the application's types\<close>

text \<open>
  A codec reads back what it wrote, and the primary key of a record is a value of its type.
  \<open>rec_ok\<close> holds of the HOL records that are values of the Rust type.
\<close>

locale lawful_item =
  pk: lawful_key "pk_key R" lt pk_valid
  for R :: "('r, 'pk) item" and lt and pk_valid +
  fixes rec_ok :: "'r \<Rightarrow> bool"
  assumes key_valid: "rec_ok r \<Longrightarrow> pk_valid (item_key R r)"
    and read_back: "rec_ok r \<Longrightarrow> to_bytes R r = Ret b \<Longrightarrow> from_bytes R b = Ret r"

text \<open>Comparing two store keys of an index compares their bytes.\<close>

definition same_key_ok ::
  "('r, 'pk) item \<Rightarrow> ('r \<Rightarrow> bool) \<Rightarrow> ('r, 'pk) any_index \<Rightarrow> bool" where
  "same_key_ok R rec_ok X \<longleftrightarrow>
     (\<forall>a b. rec_ok a \<longrightarrow> rec_ok b \<longrightarrow> item_key R a = item_key R b \<longrightarrow>
       ix_same_key X a b (item_key R b) =
         (ix_store_key X a (item_key R b) = ix_store_key X b (item_key R b)))"

section \<open>Stores with one entry per record\<close>

type_synonym ('r, 'pk) table = "'pk \<Rightarrow> 'r option"

text \<open>\<open>E pk r k v\<close>: the record \<open>r\<close> of key \<open>pk\<close> is stored as \<open>v\<close> under \<open>k\<close>.\<close>

definition represents ::
  "('pk \<Rightarrow> 'r \<Rightarrow> bytes \<Rightarrow> bytes \<Rightarrow> bool) \<Rightarrow> ('r, 'pk) table \<Rightarrow> kv_store \<Rightarrow> bool" where
  "represents E tbl kv \<longleftrightarrow> bt_ok kv \<and>
     (\<forall>k v. bt_get k kv = Some v \<longleftrightarrow> (\<exists>pk r. tbl pk = Some r \<and> E pk r k v))"

lemma ex_upd:
  "(\<exists>q s. (tbl(pk \<mapsto> r)) q = Some s \<and> P q s) \<longleftrightarrow> P pk r \<or> (\<exists>q s. q \<noteq> pk \<and> tbl q = Some s \<and> P q s)"
  by (metis fun_upd_apply option.inject)

lemma ex_del:
  "(\<exists>q s. (tbl(pk := None)) q = Some s \<and> P q s) \<longleftrightarrow> (\<exists>q s. q \<noteq> pk \<and> tbl q = Some s \<and> P q s)"
  by (metis fun_upd_apply option.distinct(1))

lemma represents_get:
  "represents E tbl kv \<Longrightarrow> bt_get k kv = Some v \<longleftrightarrow> (\<exists>pk r. tbl pk = Some r \<and> E pk r k v)"
  by (simp add: represents_def)

text \<open>The entry of \<open>pk\<close> is the only one under \<open>k\<close>, and \<open>k\<close> is its only key.\<close>

lemma represents_remove:
  assumes rep: "represents E tbl kv"
    and other: "\<And>q s v. q \<noteq> pk \<Longrightarrow> tbl q = Some s \<Longrightarrow> \<not> E q s k v"
    and own: "\<And>s k' v. tbl pk = Some s \<Longrightarrow> E pk s k' v \<Longrightarrow> k' = k"
  shows "represents E (tbl(pk := None)) (bt_remove k kv)"
  unfolding represents_def
proof (intro conjI allI)
  show "bt_ok (bt_remove k kv)" using rep by (simp add: represents_def)
next
  fix k' v
  have "bt_get k' (bt_remove k kv) = Some v \<longleftrightarrow>
      k' \<noteq> k \<and> (\<exists>q s. tbl q = Some s \<and> E q s k' v)"
    by (simp add: represents_get [OF rep])
  also have "\<dots> \<longleftrightarrow> (\<exists>q s. q \<noteq> pk \<and> tbl q = Some s \<and> E q s k' v)"
    using other own by metis
  finally show "bt_get k' (bt_remove k kv) = Some v \<longleftrightarrow>
      (\<exists>q s. (tbl(pk := None)) q = Some s \<and> E q s k' v)"
    by (simp only: ex_del)
qed

lemma represents_insert:
  assumes rep: "represents E tbl kv"
    and other: "\<And>q s v. q \<noteq> pk \<Longrightarrow> tbl q = Some s \<Longrightarrow> \<not> E q s k v"
    and own: "\<And>s k' v. tbl pk = Some s \<Longrightarrow> E pk s k' v \<Longrightarrow> k' = k"
    and new: "\<And>k' v'. E pk r k' v' \<longleftrightarrow> k' = k \<and> v' = v"
  shows "represents E (tbl(pk \<mapsto> r)) (bt_insert k v kv)"
  unfolding represents_def
proof (intro conjI allI)
  show "bt_ok (bt_insert k v kv)" using rep by (simp add: represents_def)
next
  fix k' v'
  have "bt_get k' (bt_insert k v kv) = Some v' \<longleftrightarrow>
      k' = k \<and> v' = v \<or> k' \<noteq> k \<and> (\<exists>q s. tbl q = Some s \<and> E q s k' v')"
    using rep by (auto simp: represents_get [OF rep] represents_def)
  also have "\<dots> \<longleftrightarrow> E pk r k' v' \<or> (\<exists>q s. q \<noteq> pk \<and> tbl q = Some s \<and> E q s k' v')"
    unfolding new using other own by metis
  finally show "bt_get k' (bt_insert k v kv) = Some v' \<longleftrightarrow>
      (\<exists>q s. (tbl(pk \<mapsto> r)) q = Some s \<and> E q s k' v')"
    by (simp only: ex_upd)
qed

section \<open>Tables and their representation\<close>

definition table_ok :: "('r, 'pk) item \<Rightarrow> ('r \<Rightarrow> bool) \<Rightarrow> ('r, 'pk) table \<Rightarrow> bool" where
  "table_ok R rec_ok tbl \<longleftrightarrow> (\<forall>pk r. tbl pk = Some r \<longrightarrow>
     rec_ok r \<and> item_key R r = pk \<and> (\<exists>b. to_bytes R r = Ret b))"

definition main_entry :: "('r, 'pk) item \<Rightarrow> 'pk \<Rightarrow> 'r \<Rightarrow> bytes \<Rightarrow> bytes \<Rightarrow> bool" where
  "main_entry R pk r k v \<longleftrightarrow> k = encode (pk_key R) pk \<and> to_bytes R r = Ret v"

definition index_entry :: "('r, 'pk) any_index \<Rightarrow> 'pk key \<Rightarrow> 'pk \<Rightarrow> 'r \<Rightarrow> bytes \<Rightarrow> bytes \<Rightarrow> bool" where
  "index_entry X PK pk r k v \<longleftrightarrow> k = ix_store_key X r pk \<and> v = encode PK pk"

definition main_repr :: "('r, 'pk) item \<Rightarrow> ('r, 'pk) table \<Rightarrow> kv_store \<Rightarrow> bool" where
  "main_repr R = represents (main_entry R)"

definition index_repr :: "('r, 'pk) any_index \<Rightarrow> 'pk key \<Rightarrow> ('r, 'pk) table \<Rightarrow> kv_store \<Rightarrow> bool" where
  "index_repr X PK = represents (index_entry X PK)"

text \<open>Another record of the table has the store key that \<open>new\<close> asks for.\<close>

definition index_conflict :: "('r, 'pk) any_index \<Rightarrow> ('r, 'pk) table \<Rightarrow> 'pk \<Rightarrow> 'r \<Rightarrow> bool" where
  "index_conflict X tbl pk new \<longleftrightarrow> (\<exists>pk' r'. pk' \<noteq> pk \<and> tbl pk' = Some r' \<and>
     ix_store_key X r' pk' = ix_store_key X new pk)"

lemma table_okD:
  "table_ok R rec_ok tbl \<Longrightarrow> tbl pk = Some r \<Longrightarrow>
   rec_ok r \<and> item_key R r = pk \<and> (\<exists>b. to_bytes R r = Ret b)"
  by (simp add: table_ok_def)

lemma table_ok_empty: "table_ok R rec_ok (\<lambda>_. None)"
  by (simp add: table_ok_def)

lemma table_ok_upd:
  "table_ok R rec_ok tbl \<Longrightarrow> rec_ok r \<Longrightarrow> item_key R r = pk \<Longrightarrow> to_bytes R r = Ret b \<Longrightarrow>
   table_ok R rec_ok (tbl(pk \<mapsto> r))"
  by (simp add: table_ok_def)

lemma table_ok_del: "table_ok R rec_ok tbl \<Longrightarrow> table_ok R rec_ok (tbl(pk := None))"
  by (simp add: table_ok_def)

lemma represents_empty: "represents E (\<lambda>_. None) []"
  by (simp add: represents_def)

lemma main_repr_empty: "main_repr R (\<lambda>_. None) []"
  by (simp add: main_repr_def represents_empty)

lemma index_repr_empty: "index_repr X PK (\<lambda>_. None) []"
  by (simp add: index_repr_def represents_empty)

lemma main_repr_ok: "main_repr R tbl kv \<Longrightarrow> bt_ok kv"
  by (simp add: main_repr_def represents_def)

lemma index_repr_ok: "index_repr X PK tbl kv \<Longrightarrow> bt_ok kv"
  by (simp add: index_repr_def represents_def)

lemma index_repr_get:
  "index_repr X PK tbl kv \<Longrightarrow>
   bt_get k kv = Some v \<longleftrightarrow> (\<exists>pk r. tbl pk = Some r \<and> k = ix_store_key X r pk \<and> v = encode PK pk)"
  by (simp add: index_repr_def represents_get index_entry_def)

lemma index_conflict_del [simp]:
  "index_conflict X (tbl(pk := None)) pk new \<longleftrightarrow> index_conflict X tbl pk new"
  by (auto simp: index_conflict_def)

context lawful_item
begin

lemma table_key_valid: "table_ok R rec_ok tbl \<Longrightarrow> tbl pk = Some r \<Longrightarrow> pk_valid pk"
  using table_okD key_valid by fastforce

lemma table_key_inject:
  "table_ok R rec_ok tbl \<Longrightarrow> tbl pk = Some r \<Longrightarrow> pk_valid q \<Longrightarrow>
   encode (pk_key R) q = encode (pk_key R) pk \<longleftrightarrow> q = pk"
  using pk.encode_inject table_key_valid by metis

section \<open>The primary store\<close>

lemma main_get:
  assumes "table_ok R rec_ok tbl" "main_repr R tbl kv" "pk_valid pk"
  shows "bt_get (encode (pk_key R) pk) kv = Some b \<longleftrightarrow>
         (\<exists>r. tbl pk = Some r \<and> to_bytes R r = Ret b)"
proof -
  have "bt_get (encode (pk_key R) pk) kv = Some b \<longleftrightarrow>
    (\<exists>q r. tbl q = Some r \<and> encode (pk_key R) pk = encode (pk_key R) q \<and> to_bytes R r = Ret b)"
    using assms(2) by (simp add: main_repr_def represents_get main_entry_def)
  also have "\<dots> \<longleftrightarrow> (\<exists>r. tbl pk = Some r \<and> to_bytes R r = Ret b)"
    using table_key_inject [OF assms(1) _ assms(3)] by blast
  finally show ?thesis .
qed

lemma main_get_None:
  assumes "table_ok R rec_ok tbl" "main_repr R tbl kv" "pk_valid pk"
  shows "bt_get (encode (pk_key R) pk) kv = None \<longleftrightarrow> tbl pk = None"
proof -
  have "(\<exists>b. bt_get (encode (pk_key R) pk) kv = Some b) \<longleftrightarrow> (\<exists>r. tbl pk = Some r)"
    unfolding main_get [OF assms] using table_okD [OF assms(1)] by blast
  then show ?thesis by (metis not_Some_eq)
qed

lemma main_insert:
  assumes "table_ok R rec_ok tbl" "main_repr R tbl kv" "pk_valid pk" "to_bytes R r = Ret b"
  shows "main_repr R (tbl(pk \<mapsto> r)) (bt_insert (encode (pk_key R) pk) b kv)"
  using assms(2,4) table_key_inject [OF assms(1) _ assms(3)] unfolding main_repr_def
  by (intro represents_insert) (auto simp: main_entry_def)

lemma main_remove:
  assumes "table_ok R rec_ok tbl" "main_repr R tbl kv" "pk_valid pk"
  shows "main_repr R (tbl(pk := None)) (bt_remove (encode (pk_key R) pk) kv)"
  using assms(2) table_key_inject [OF assms(1) _ assms(3)] unfolding main_repr_def
  by (intro represents_remove) (auto simp: main_entry_def)

section \<open>Index stores\<close>

text \<open>Two records of a represented index never share a store key.\<close>

lemma index_keys_distinct:
  assumes "table_ok R rec_ok tbl" "index_repr X (pk_key R) tbl kv"
    "tbl pk = Some r" "tbl pk' = Some r'" "ix_store_key X r pk = ix_store_key X r' pk'"
  shows "pk = pk'"
proof -
  have "bt_get (ix_store_key X r pk) kv = Some (encode (pk_key R) pk)"
    and "bt_get (ix_store_key X r' pk') kv = Some (encode (pk_key R) pk')"
    using assms(3,4) by (auto simp: index_repr_get [OF assms(2)])
  then have "encode (pk_key R) pk = encode (pk_key R) pk'" using assms(5) by simp
  then show ?thesis using table_key_inject assms(1,3,4) table_key_valid by metis
qed

lemma index_del:
  assumes ok: "table_ok R rec_ok tbl" and repr: "index_repr X (pk_key R) tbl kv"
    and pk: "tbl pk = Some r"
  shows "index_repr X (pk_key R) (tbl(pk := None)) (bt_remove (ix_store_key X r pk) kv)"
  using repr index_keys_distinct [OF ok repr pk] pk unfolding index_repr_def
  by (intro represents_remove) (auto simp: index_entry_def)

lemma index_add:
  assumes repr: "index_repr X (pk_key R) tbl kv" and "tbl pk = None"
    and free: "bt_get (ix_store_key X r pk) kv = None"
  shows "index_repr X (pk_key R) (tbl(pk \<mapsto> r)) (bt_insert (ix_store_key X r pk) (encode (pk_key R) pk) kv)"
  unfolding index_repr_def
proof (rule represents_insert)
  show "represents (index_entry X (pk_key R)) tbl kv" using repr by (simp add: index_repr_def)
next
  fix q s v assume "tbl q = Some s"
  then show "\<not> index_entry X (pk_key R) q s (ix_store_key X r pk) v"
    using free index_repr_get [OF repr, of "ix_store_key X r pk"] by (auto simp: index_entry_def)
qed (use assms(2) in \<open>auto simp: index_entry_def\<close>)

lemma index_taken_iff:
  assumes "index_repr X (pk_key R) tbl kv" "tbl pk = None"
  shows "bt_get (ix_store_key X new pk) kv \<noteq> None \<longleftrightarrow> index_conflict X tbl pk new"
proof
  assume "bt_get (ix_store_key X new pk) kv \<noteq> None"
  then obtain v where "bt_get (ix_store_key X new pk) kv = Some v" by auto
  then obtain q s where "tbl q = Some s" "ix_store_key X new pk = ix_store_key X s q"
    using index_repr_get [OF assms(1)] by auto
  then show "index_conflict X tbl pk new"
    using assms(2) unfolding index_conflict_def by (metis option.distinct(1))
next
  assume "index_conflict X tbl pk new"
  then obtain q s where "tbl q = Some s" "ix_store_key X s q = ix_store_key X new pk"
    by (auto simp: index_conflict_def)
  then have "bt_get (ix_store_key X new pk) kv = Some (encode (pk_key R) q)"
    using index_repr_get [OF assms(1), of "ix_store_key X new pk"] by metis
  then show "bt_get (ix_store_key X new pk) kv \<noteq> None" by simp
qed

lemma index_entry_moves:
  assumes "tbl pk = Some old" "ix_store_key X old pk = ix_store_key X new pk"
  shows "(\<exists>q s. (tbl(pk \<mapsto> new)) q = Some s \<and> index_entry X PK q s k v) \<longleftrightarrow>
         (\<exists>q s. tbl q = Some s \<and> index_entry X PK q s k v)"
  unfolding ex_upd using assms unfolding index_entry_def by (metis option.inject)

section \<open>Updating an index on the reference backend\<close>

lemma index_put_ref:
  assumes "index_repr X (pk_key R) tbl kv" "tbl pk = None" "S n = Some kv"
  shows "if index_conflict X tbl pk new
         then index_put ref_ms X (pk_key R) pk new (ns, S, n) = Fail (AlreadyExists (ix_debug X new pk))
         else \<exists>kv'. index_put ref_ms X (pk_key R) pk new (ns, S, n) = Ret (ns, S(n \<mapsto> kv')) \<and>
                    index_repr X (pk_key R) (tbl(pk \<mapsto> new)) kv'"
  using index_taken_iff [OF assms(1,2), of new] index_add [OF assms(1,2), of new] assms(3)
  by (auto simp: index_put_def ref_get_def)

lemma index_write_ref:
  assumes ok: "table_ok R rec_ok tbl" and repr: "index_repr X (pk_key R) tbl kv"
    and S: "S n = Some kv" and X: "same_key_ok R rec_ok X" and new: "rec_ok new"
    and key: "item_key R new = pk"
  shows "if index_conflict X tbl pk new
         then index_write ref_ms X (pk_key R) pk (tbl pk) new (ns, S, n) =
                Fail (AlreadyExists (ix_debug X new pk))
         else \<exists>kv'. index_write ref_ms X (pk_key R) pk (tbl pk) new (ns, S, n) = Ret (ns, S(n \<mapsto> kv')) \<and>
                    index_repr X (pk_key R) (tbl(pk \<mapsto> new)) kv'"
proof (cases "tbl pk")
  case None
  then show ?thesis
    using index_put_ref [where S = S, OF repr None S] by (simp add: index_write_def)
next
  case (Some old)
  have same: "ix_same_key X old new pk \<longleftrightarrow> ix_store_key X old pk = ix_store_key X new pk"
    using X new key table_okD [OF ok Some] by (auto simp: same_key_ok_def)
  show ?thesis
  proof (cases "ix_store_key X old pk = ix_store_key X new pk")
    case True
    then have "\<not> index_conflict X tbl pk new"
      using index_keys_distinct [OF ok repr Some] unfolding index_conflict_def by metis
    moreover have "index_repr X (pk_key R) (tbl(pk \<mapsto> new)) kv"
      using repr index_entry_moves [where tbl = tbl and pk = pk, OF Some True] by (simp add: index_repr_def represents_def)
    ultimately show ?thesis
      using Some same True S by (auto simp: index_write_def fun_upd_idem intro!: exI [of _ kv])
  next
    case False
    let ?S = "S(n \<mapsto> bt_remove (ix_store_key X old pk) kv)"
    have "index_repr X (pk_key R) (tbl(pk := None)) (bt_remove (ix_store_key X old pk) kv)"
      by (rule index_del [OF ok repr Some])
    from index_put_ref [where S = ?S and n = n and ns = ns and new = new and pk = pk, OF this]
    show ?thesis
      using Some same False S by (auto simp: index_write_def)
  qed
qed

lemma index_update_ref:
  assumes "table_ok R rec_ok tbl" "index_repr X (pk_key R) tbl kv" "S (ix_name X) = Some kv"
    "same_key_ok R rec_ok X" "rec_ok new" "item_key R new = pk"
  shows "if index_conflict X tbl pk new
         then index_update ref_ms X (pk_key R) pk (tbl pk) new (ns, S) =
                Fail (AlreadyExists (ix_debug X new pk))
         else \<exists>kv'. index_update ref_ms X (pk_key R) pk (tbl pk) new (ns, S) =
                      Ret (ns, S(ix_name X \<mapsto> kv')) \<and>
                    index_repr X (pk_key R) (tbl(pk \<mapsto> new)) kv'"
  using index_write_ref [where S = S and n = "ix_name X" and pk = pk and ns = ns, OF assms(1-2) assms(3-6)]
    assms(3)
  by (simp add: index_update_def ref_wopen_def)

lemma index_remove_ref:
  assumes "table_ok R rec_ok tbl" "index_repr X (pk_key R) tbl kv" "S (ix_name X) = Some kv"
    "tbl pk = Some r"
  shows "\<exists>kv'. index_remove ref_ms X pk r (ns, S) = Ret (ns, S(ix_name X \<mapsto> kv')) \<and>
               index_repr X (pk_key R) (tbl(pk := None)) kv'"
  using index_del [OF assms(1,2,4)] assms(3) by (auto simp: index_remove_def ref_wopen_def)

end

end
