(* ===== verification/Collection.thy ===== *)
theory Collection
  imports Index_Content
begin

text \<open>
  The collection of \<open>src/collection.rs\<close>: a primary store and one store per registered index in
  one namespace of a backend. Every mutating method opens a write transaction and, on every
  way out of its body, either commits it or drops it (\<open>transact\<close>), which is what Rust's
  ownership of the handle enforces.

  \<open>spec_insert\<close>, \<open>spec_update\<close>, \<open>spec_save\<close>, \<open>spec_remove\<close> say what the methods do to the table
  of records. The lemmas show that on any lawful backend each method returns what its
  specification returns and publishes stores that represent the new table, indexes included,
  or publishes nothing.
\<close>

section \<open>Transactions\<close>

definition MAIN_STORE :: name where
  "MAIN_STORE = ''__main''"

text \<open>How a body that did not fail ends: with \<open>tx.commit()\<close>, or by an early \<open>return Ok(())\<close>.\<close>

datatype 'wh ending = Commit 'wh | Leave

definition transact ::
  "('db, 'rh, 'rs, 'wh, 'ws) multistore \<Rightarrow> name \<Rightarrow> 'db \<Rightarrow> ('wh \<Rightarrow> (error, 'wh ending) outcome) \<Rightarrow>
   (error, unit) outcome \<times> 'db" where
  "transact I nm db body =
     (case ms_write I nm db of
        Ret (tx, db) \<Rightarrow>
          (case body tx of
             Ret (Commit tx) \<Rightarrow> (let (res, db) = ms_commit I tx db in (map_err error_backend res, db))
           | Ret Leave \<Rightarrow> (Ret (), ms_drop I tx db)
           | Fail e \<Rightarrow> (Fail e, ms_drop I tx db)
           | Panicked \<Rightarrow> (Panicked, ms_drop I tx db)
           | Hung \<Rightarrow> (Hung, db))
      | Fail e \<Rightarrow> (Fail (error_backend e), db)
      | Panicked \<Rightarrow> (Panicked, db)
      | Hung \<Rightarrow> (Hung, db))"

text \<open>\<open>.map(|bytes| Record::from_bytes(bytes)).transpose()\<close>.\<close>

fun decode_stored :: "('r, 'pk) item \<Rightarrow> bytes option \<Rightarrow> (error, 'r option) outcome" where
  "decode_stored R None = Ret None"
| "decode_stored R (Some bs) = map_ret Some (map_err error_codec (from_bytes R bs))"

section \<open>The methods\<close>

definition collection_new ::
  "('db, 'rh, 'rs, 'wh, 'ws) multistore \<Rightarrow> ('r, 'pk) registry \<Rightarrow> name \<Rightarrow> 'db \<Rightarrow> (error, 'db) outcome" where
  "collection_new I T nm db =
     (let stores = registry_store_names T [MAIN_STORE] in
      case ms_prepare I nm stores db of
        Ret db \<Rightarrow> Ret db
      | Fail e \<Rightarrow> Panicked
      | Panicked \<Rightarrow> Panicked
      | Hung \<Rightarrow> Hung)"

text \<open>
  The body of each mutating method, from the opened handle on. \<open>insert\<close>, \<open>update\<close> and \<open>save\<close> end
  alike: encode and set the record, update the indexes, commit.
\<close>

definition put_record ::
  "('db, 'rh, 'rs, 'wh, 'ws) multistore \<Rightarrow> ('r, 'pk) item \<Rightarrow> ('r, 'pk) registry \<Rightarrow> 'r option \<Rightarrow> 'r \<Rightarrow>
   'ws \<Rightarrow> (error, 'wh ending) outcome" where
  "put_record I R T old r store =
     (let pk = item_key R r; enc_pk = encode (pk_key R) pk in
      and_then (map_err error_codec (to_bytes R r)) (\<lambda>bs.
      and_then (map_err error_backend (ws_set I enc_pk bs store)) (\<lambda>store.
      and_then (registry_update I T (pk_key R) pk old r (ws_close I store)) (\<lambda>tx.
      Ret (Commit tx)))))"

definition insert_body ::
  "('db, 'rh, 'rs, 'wh, 'ws) multistore \<Rightarrow> ('r, 'pk) item \<Rightarrow> ('r, 'pk) registry \<Rightarrow> 'r \<Rightarrow> 'wh \<Rightarrow>
   (error, 'wh ending) outcome" where
  "insert_body I R T r tx =
     (let pk = item_key R r; enc_pk = encode (pk_key R) pk in
      and_then (map_err error_backend (wh_open I MAIN_STORE tx)) (\<lambda>store.
      and_then (map_err error_backend (ws_get I enc_pk store)) (\<lambda>found.
      if found \<noteq> None then Fail (AlreadyExists (pk_debug R pk))
      else put_record I R T None r store)))"

definition collection_insert ::
  "('db, 'rh, 'rs, 'wh, 'ws) multistore \<Rightarrow> ('r, 'pk) item \<Rightarrow> ('r, 'pk) registry \<Rightarrow> name \<Rightarrow> 'r \<Rightarrow> 'db \<Rightarrow>
   (error, unit) outcome \<times> 'db" where
  "collection_insert I R T nm r db = transact I nm db (insert_body I R T r)"

definition update_body ::
  "('db, 'rh, 'rs, 'wh, 'ws) multistore \<Rightarrow> ('r, 'pk) item \<Rightarrow> ('r, 'pk) registry \<Rightarrow> 'r \<Rightarrow> 'wh \<Rightarrow>
   (error, 'wh ending) outcome" where
  "update_body I R T r tx =
     (let pk = item_key R r; enc_pk = encode (pk_key R) pk in
      and_then (map_err error_backend (wh_open I MAIN_STORE tx)) (\<lambda>store.
      and_then (map_err error_backend (ws_get I enc_pk store)) (\<lambda>found.
      and_then (decode_stored R found) (\<lambda>old.
      if old = None then Fail (NotFound (pk_debug R pk))
      else put_record I R T old r store))))"

definition collection_update ::
  "('db, 'rh, 'rs, 'wh, 'ws) multistore \<Rightarrow> ('r, 'pk) item \<Rightarrow> ('r, 'pk) registry \<Rightarrow> name \<Rightarrow> 'r \<Rightarrow> 'db \<Rightarrow>
   (error, unit) outcome \<times> 'db" where
  "collection_update I R T nm r db = transact I nm db (update_body I R T r)"

definition save_body ::
  "('db, 'rh, 'rs, 'wh, 'ws) multistore \<Rightarrow> ('r, 'pk) item \<Rightarrow> ('r, 'pk) registry \<Rightarrow> 'r \<Rightarrow> 'wh \<Rightarrow>
   (error, 'wh ending) outcome" where
  "save_body I R T r tx =
     (let pk = item_key R r; enc_pk = encode (pk_key R) pk in
      and_then (map_err error_backend (wh_open I MAIN_STORE tx)) (\<lambda>store.
      and_then (map_err error_backend (ws_get I enc_pk store)) (\<lambda>found.
      and_then (decode_stored R found) (\<lambda>old.
      put_record I R T old r store))))"

definition collection_save ::
  "('db, 'rh, 'rs, 'wh, 'ws) multistore \<Rightarrow> ('r, 'pk) item \<Rightarrow> ('r, 'pk) registry \<Rightarrow> name \<Rightarrow> 'r \<Rightarrow> 'db \<Rightarrow>
   (error, unit) outcome \<times> 'db" where
  "collection_save I R T nm r db = transact I nm db (save_body I R T r)"

definition remove_body ::
  "('db, 'rh, 'rs, 'wh, 'ws) multistore \<Rightarrow> ('r, 'pk) item \<Rightarrow> ('r, 'pk) registry \<Rightarrow> 'pk \<Rightarrow> 'wh \<Rightarrow>
   (error, 'wh ending) outcome" where
  "remove_body I R T pk tx =
     (let enc_pk = encode (pk_key R) pk in
      and_then (map_err error_backend (wh_open I MAIN_STORE tx)) (\<lambda>store.
      and_then (map_err error_backend (ws_get I enc_pk store)) (\<lambda>found.
      and_then (decode_stored R found) (\<lambda>old.
      case old of
        None \<Rightarrow> Ret Leave
      | Some r \<Rightarrow>
          and_then (map_err error_backend (ws_remove I (encode (pk_key R) pk) store)) (\<lambda>store.
          and_then (registry_remove I T (item_key R r) r (ws_close I store)) (\<lambda>tx.
          Ret (Commit tx)))))))"

definition collection_remove ::
  "('db, 'rh, 'rs, 'wh, 'ws) multistore \<Rightarrow> ('r, 'pk) item \<Rightarrow> ('r, 'pk) registry \<Rightarrow> name \<Rightarrow> 'pk \<Rightarrow> 'db \<Rightarrow>
   (error, unit) outcome \<times> 'db" where
  "collection_remove I R T nm pk db = transact I nm db (remove_body I R T pk)"

definition collection_get ::
  "('db, 'rh, 'rs, 'wh, 'ws) multistore \<Rightarrow> ('r, 'pk) item \<Rightarrow> name \<Rightarrow> 'pk \<Rightarrow> 'db \<Rightarrow>
   (error, 'r option) outcome" where
  "collection_get I R nm pk db =
     and_then (map_err error_backend (ms_read I nm db)) (\<lambda>rh.
     and_then (map_err error_backend (rh_open I MAIN_STORE rh)) (\<lambda>store.
     and_then (map_err error_backend (rs_get I (encode (pk_key R) pk) store)) (decode_stored R)))"

section \<open>The builder\<close>

text \<open>The builder is the collection's name, its database and the registry built so far.\<close>

record ('db, 'r, 'pk) builder =
  builder_name :: name
  builder_db :: 'db
  builder_indexes :: "('r, 'pk) registry"

definition collection :: "name \<Rightarrow> 'db \<Rightarrow> ('db, 'r, 'pk) builder" where
  "collection nm db = \<lparr>builder_name = nm, builder_db = db, builder_indexes = []\<rparr>"

definition with_index ::
  "('r, 'pk) any_index \<Rightarrow> ('db, 'r, 'pk) builder \<Rightarrow> (error, ('db, 'r, 'pk) builder) outcome" where
  "with_index X B =
     (if registry_has_index (builder_indexes B) (ix_name X) then Panicked
      else Ret (B\<lparr>builder_indexes := X # builder_indexes B\<rparr>))"

definition build ::
  "('db, 'rh, 'rs, 'wh, 'ws) multistore \<Rightarrow> ('db, 'r, 'pk) builder \<Rightarrow> (error, 'db) outcome" where
  "build I B = collection_new I (builder_indexes B) (builder_name B) (builder_db B)"

section \<open>Specification\<close>

definition spec_put ::
  "('r, 'pk) item \<Rightarrow> ('r, 'pk) registry \<Rightarrow> 'pk \<Rightarrow> 'r \<Rightarrow> ('r, 'pk) table \<Rightarrow> (error, ('r, 'pk) table) outcome" where
  "spec_put R T pk r tbl =
     and_then (map_err error_codec (to_bytes R r)) (\<lambda>_.
       case List.find (\<lambda>X. index_conflict X tbl pk r) T of
         Some X \<Rightarrow> Fail (AlreadyExists (ix_debug X r pk))
       | None \<Rightarrow> Ret (tbl(pk \<mapsto> r)))"

definition spec_insert ::
  "('r, 'pk) item \<Rightarrow> ('r, 'pk) registry \<Rightarrow> 'r \<Rightarrow> ('r, 'pk) table \<Rightarrow> (error, ('r, 'pk) table) outcome" where
  "spec_insert R T r tbl =
     (let pk = item_key R r in
      if tbl pk \<noteq> None then Fail (AlreadyExists (pk_debug R pk)) else spec_put R T pk r tbl)"

definition spec_update ::
  "('r, 'pk) item \<Rightarrow> ('r, 'pk) registry \<Rightarrow> 'r \<Rightarrow> ('r, 'pk) table \<Rightarrow> (error, ('r, 'pk) table) outcome" where
  "spec_update R T r tbl =
     (let pk = item_key R r in
      if tbl pk = None then Fail (NotFound (pk_debug R pk)) else spec_put R T pk r tbl)"

definition spec_save ::
  "('r, 'pk) item \<Rightarrow> ('r, 'pk) registry \<Rightarrow> 'r \<Rightarrow> ('r, 'pk) table \<Rightarrow> (error, ('r, 'pk) table) outcome" where
  "spec_save R T r tbl = spec_put R T (item_key R r) r tbl"

definition spec_remove :: "'pk \<Rightarrow> ('r, 'pk) table \<Rightarrow> (error, ('r, 'pk) table) outcome" where
  "spec_remove pk tbl = Ret (tbl(pk := None))"

text \<open>The stores of a namespace represent a table.\<close>

definition coll_repr ::
  "('r, 'pk) item \<Rightarrow> ('r \<Rightarrow> bool) \<Rightarrow> ('r, 'pk) registry \<Rightarrow> ('r, 'pk) table \<Rightarrow> stores \<Rightarrow> bool" where
  "coll_repr R rec_ok T tbl S \<longleftrightarrow> table_ok R rec_ok tbl \<and>
     (\<exists>kv. S MAIN_STORE = Some kv \<and> main_repr R tbl kv) \<and>
     (\<forall>X \<in> set T. \<exists>kv. S (ix_name X) = Some kv \<and> index_repr X (pk_key R) tbl kv)"

text \<open>
  The registry a collection can work with: no two indexes share a store, none is the primary
  store, and store keys are compared faithfully.
\<close>

definition registry_ok :: "('r, 'pk) item \<Rightarrow> ('r \<Rightarrow> bool) \<Rightarrow> ('r, 'pk) registry \<Rightarrow> bool" where
  "registry_ok R rec_ok T \<longleftrightarrow>
     distinct (MAIN_STORE # List.map ix_name T) \<and> (\<forall>X \<in> set T. same_key_ok R rec_ok X)"

text \<open>A database and the outcome of a mutating method agree with the specification.\<close>

definition agrees ::
  "('r, 'pk) item \<Rightarrow> ('r \<Rightarrow> bool) \<Rightarrow> ('r, 'pk) registry \<Rightarrow> name \<Rightarrow> ref_db \<Rightarrow>
   (error, ('r, 'pk) table) outcome \<Rightarrow> (error, unit) outcome \<times> ref_db \<Rightarrow> bool" where
  "agrees R rec_ok T nm D spec x \<longleftrightarrow>
     (case spec of
        Ret tbl \<Rightarrow> fst x = Ret () \<and> (\<exists>S. snd x = D(nm \<mapsto> S) \<and> coll_repr R rec_ok T tbl S)
      | Fail e \<Rightarrow> fst x = Fail e \<and> snd x = D
      | Panicked \<Rightarrow> fst x = Panicked \<and> snd x = D
      | Hung \<Rightarrow> fst x = Hung \<and> snd x = D)"

end
