(* ===== verification/Collection_Spec.thy ===== *)
theory Collection_Spec
  imports Collection
begin

text \<open>
  The methods of a collection against their specification. The first half moves a method from
  any lawful backend to the reference backend; the second half runs it there, where the
  stores are plain ordered maps.
\<close>

section \<open>From any backend to the reference\<close>

context lawful_multistore
begin

text \<open>A backend error that published nothing, or what the reference does.\<close>

definition call_refines ::
  "'db \<Rightarrow> (error, unit) outcome \<times> 'db \<Rightarrow> (error, unit) outcome \<times> ref_db \<Rightarrow> bool" where
  "call_refines db x y \<longleftrightarrow>
     (\<exists>e. fst x = Fail e \<and> backend_failed may_fail e \<and> db_inv (snd x) \<and> db_abs (snd x) = db_abs db) \<or>
     fst x = fst y \<and> db_abs (snd x) = snd y \<and> (fst x \<noteq> Hung \<longrightarrow> db_inv (snd x))"

lemma commit_refines:
  assumes "writing q db" "handle_on q tx"
  shows "call_refines db (let (res, db) = ms_commit I tx db in (map_err error_backend res, db))
           (let (res, D) = ref_commit (wh_abs tx) (db_abs db) in (map_err error_backend res, D))"
proof (cases "ms_commit I tx db")
  case (Pair res db')
  then show ?thesis
    using commit_law [of tx db res db'] assms
    by (auto simp: call_refines_def handle_on_def ref_commit_def backend_failed_def)
qed

lemma transact_refines:
  assumes inv: "db_inv db"
    and body: "\<And>q tx. handle_on q tx \<Longrightarrow>
      refines (backend_failed may_fail) (pred_ending (handle_on q)) (map_ending wh_abs)
        (body tx) (body' (wh_abs tx))"
  shows "call_refines db (transact I nm db body) (transact ref_ms nm (db_abs db) body')"
proof (cases "ms_write I nm db")
  case (Ret x)
  obtain tx db' where x: "x = (tx, db')" by (cases x)
  have w: "ref_write nm (db_abs db) = Ret (wh_abs tx, db_abs db')"
    and tx: "handle_on (origin tx) tx" and wr: "writing (origin tx) db'"
    using refines_RetD [OF write_law [OF inv, of nm, unfolded Ret x]] by (auto simp: handle_on_def)
  then have same: "db_abs db' = db_abs db" by (auto simp: ref_write_def map_ret_eq_Ret)
  have dropped: "db_inv (ms_drop I tx db') \<and> db_abs (ms_drop I tx db') = db_abs db"
    using drop_law [OF wr] tx same by (simp add: handle_on_def)
  show ?thesis
  proof (cases "body tx")
    case (Ret e)
    then have b': "body' (wh_abs tx) = Ret (map_ending wh_abs e)" "pred_ending (handle_on (origin tx)) e"
      using refines_RetD body [OF tx] by metis+
    show ?thesis
    proof (cases e)
      case (Commit tx')
      then have "call_refines db' (transact I nm db body) (transact ref_ms nm (db_abs db) body')"
        using commit_refines [OF wr, of tx'] \<open>ms_write I nm db = Ret x\<close> x Ret b' w
        by (simp add: transact_def)
      then show ?thesis by (simp add: call_refines_def same)
    next
      case Leave
      then show ?thesis
        using \<open>ms_write I nm db = Ret x\<close> x Ret b' w dropped same
        by (simp add: transact_def call_refines_def)
    qed
  qed (use body [OF tx] Ret x w dropped same in
        \<open>auto simp: transact_def call_refines_def refines_def eq_commute [where b = "body' (wh_abs tx)"]\<close>)
qed (use write_law [OF inv, of nm] inv in
      \<open>auto simp: transact_def call_refines_def refines_def backend_failed_def
         eq_commute [where b = "ref_write nm (db_abs db)"]\<close>)

lemma commit_update_refines:
  assumes ws: "store_on q ws"
  shows "refines (backend_failed may_fail) (pred_ending (handle_on q)) (map_ending wh_abs)
    (and_then (registry_update I T PK pk old r (ws_close I ws)) (\<lambda>tx. Ret (Commit tx)))
    (and_then (registry_update ref_ms T PK pk old r (ref_close (ws_abs ws))) (\<lambda>tx. Ret (Commit tx)))"
proof -
  have "handle_on q (ws_close I ws)" and c: "ref_close (ws_abs ws) = wh_abs (ws_close I ws)"
    using close_on [OF ws] by simp_all
  then show ?thesis
    unfolding c by (intro refines_and_then [OF registry_update_refines] refine_intros) simp_all
qed

lemma commit_remove_refines:
  assumes ws: "store_on q ws"
  shows "refines (backend_failed may_fail) (pred_ending (handle_on q)) (map_ending wh_abs)
    (and_then (registry_remove I T pk r (ws_close I ws)) (\<lambda>tx. Ret (Commit tx)))
    (and_then (registry_remove ref_ms T pk r (ref_close (ws_abs ws))) (\<lambda>tx. Ret (Commit tx)))"
proof -
  have "handle_on q (ws_close I ws)" and c: "ref_close (ws_abs ws) = wh_abs (ws_close I ws)"
    using close_on [OF ws] by simp_all
  then show ?thesis
    unfolding c by (intro refines_and_then [OF registry_remove_refines] refine_intros) simp_all
qed

lemma put_refines:
  assumes ws: "store_on q ws"
  shows "refines (backend_failed may_fail) (pred_ending (handle_on q)) (map_ending wh_abs)
           (put_record I R T old r ws) (put_record ref_ms R T old r (ws_abs ws))"
  unfolding put_record_def Let_def ref_ms_simps
  by (rule refines_and_then [OF refines_same],
      rule refines_and_then [OF refines_map_err [OF set_on [OF ws]]], rule commit_update_refines)

lemma insert_body_refines:
  "handle_on q tx \<Longrightarrow>
   refines (backend_failed may_fail) (pred_ending (handle_on q)) (map_ending wh_abs)
     (insert_body I R T r tx) (insert_body ref_ms R T r (wh_abs tx))"
  unfolding insert_body_def Let_def ref_ms_simps
  by (rule refines_and_then [OF refines_map_err [OF open_on]], assumption,
      rule refines_and_then [OF refines_map_err [OF get_on]], assumption)
    (simp add: put_refines refines_Fail)

lemma update_body_refines:
  "handle_on q tx \<Longrightarrow>
   refines (backend_failed may_fail) (pred_ending (handle_on q)) (map_ending wh_abs)
     (update_body I R T r tx) (update_body ref_ms R T r (wh_abs tx))"
  unfolding update_body_def Let_def ref_ms_simps
  by (rule refines_and_then [OF refines_map_err [OF open_on]], assumption,
      rule refines_and_then [OF refines_map_err [OF get_on]], assumption,
      rule refines_and_then [OF refines_same])
    (simp add: put_refines refines_Fail)

lemma save_body_refines:
  "handle_on q tx \<Longrightarrow>
   refines (backend_failed may_fail) (pred_ending (handle_on q)) (map_ending wh_abs)
     (save_body I R T r tx) (save_body ref_ms R T r (wh_abs tx))"
  unfolding save_body_def Let_def ref_ms_simps
  by (rule refines_and_then [OF refines_map_err [OF open_on]], assumption,
      rule refines_and_then [OF refines_map_err [OF get_on]], assumption,
      rule refines_and_then [OF refines_same])
    (simp add: put_refines)

lemma remove_body_refines:
  assumes tx: "handle_on q tx"
  shows "refines (backend_failed may_fail) (pred_ending (handle_on q)) (map_ending wh_abs)
           (remove_body I R T pk tx) (remove_body ref_ms R T pk (wh_abs tx))"
proof -
  have rm: "refines (backend_failed may_fail) (pred_ending (handle_on q)) (map_ending wh_abs)
     (and_then (map_err error_backend (ws_remove I k ws)) (\<lambda>ws.
      and_then (registry_remove I T p r (ws_close I ws)) (\<lambda>tx. Ret (Commit tx))))
     (and_then (map_err error_backend (Ret (ref_update (bt_remove k) (ws_abs ws)))) (\<lambda>ws.
      and_then (registry_remove ref_ms T p r (ref_close ws)) (\<lambda>tx. Ret (Commit tx))))"
    if "store_on q ws" for k p r ws
    by (rule refines_and_then [OF refines_map_err [OF remove_on [OF that]]]) (rule commit_remove_refines)
  show ?thesis
    unfolding remove_body_def Let_def ref_ms_simps
    by (rule refines_and_then [OF refines_map_err [OF open_on [OF tx]]],
        rule refines_and_then [OF refines_map_err [OF get_on]], assumption,
        rule refines_and_then [OF refines_same])
      (auto intro!: refines_Ret rm simp del: map_err.simps split: option.splits)
qed

text \<open>Each mutating method on any backend.\<close>

lemma collection_insert_refines:
  "db_inv db \<Longrightarrow>
   call_refines db (collection_insert I R T nm r db) (collection_insert ref_ms R T nm r (db_abs db))"
  unfolding collection_insert_def by (rule transact_refines) (auto intro: insert_body_refines)

lemma collection_update_refines:
  "db_inv db \<Longrightarrow>
   call_refines db (collection_update I R T nm r db) (collection_update ref_ms R T nm r (db_abs db))"
  unfolding collection_update_def by (rule transact_refines) (auto intro: update_body_refines)

lemma collection_save_refines:
  "db_inv db \<Longrightarrow>
   call_refines db (collection_save I R T nm r db) (collection_save ref_ms R T nm r (db_abs db))"
  unfolding collection_save_def by (rule transact_refines) (auto intro: save_body_refines)

lemma collection_remove_refines:
  "db_inv db \<Longrightarrow>
   call_refines db (collection_remove I R T nm pk db) (collection_remove ref_ms R T nm pk (db_abs db))"
  unfolding collection_remove_def by (rule transact_refines) (auto intro: remove_body_refines)

lemma collection_get_refines:
  "db_inv db \<Longrightarrow>
   refines (backend_failed may_fail) (\<lambda>_. True) (\<lambda>a. a)
     (collection_get I R nm pk db) (collection_get ref_ms R nm pk (db_abs db))"
  unfolding collection_get_def ref_ms_simps
  by (rule refines_and_then [OF refines_map_err [OF read_law]], assumption,
      rule refines_and_then [OF refines_map_err [OF open_read_law]],
      rule refines_and_then [OF refines_map_err [OF read_get_law]], rule refines_same)

text \<open>
  Building a collection: the stores it names are there, and those that were there keep their
  content.
\<close>

lemma collection_new_prepared:
  assumes "db_inv db"
  shows "collection_new I T nm db = Panicked \<and> (\<exists>e. may_fail e) \<or>
         (\<exists>db'. collection_new I T nm db = Ret db' \<and> db_inv db' \<and>
                prepared nm (registry_store_names T [MAIN_STORE]) (db_abs db) (db_abs db'))"
  using prepare_law [OF assms, of nm "registry_store_names T [MAIN_STORE]"]
  by (auto simp: collection_new_def)

end

context volatile_multistore
begin

lemma collection_new_refines:
  assumes "db_inv db"
  shows "collection_new I T nm db = Panicked \<and> (\<exists>e. may_fail e) \<or>
         (\<exists>db'. collection_new I T nm db = Ret db' \<and> db_inv db' \<and>
                collection_new ref_ms T nm (db_abs db) = Ret (db_abs db'))"
  using prepare_exact [OF assms, of nm "registry_store_names T [MAIN_STORE]"]
  by (cases "ms_prepare I nm (registry_store_names T [MAIN_STORE]) db")
    (auto simp: collection_new_def refines_def ref_prepare_def)

end

section \<open>On the reference backend\<close>

lemma transact_ref:
  "D nm = Some S \<Longrightarrow> transact ref_ms nm D body =
     (case body (nm, S) of
        Ret (Commit tx) \<Rightarrow> (Ret (), D(fst tx \<mapsto> snd tx))
      | Ret Leave \<Rightarrow> (Ret (), D)
      | Fail e \<Rightarrow> (Fail e, D) | Panicked \<Rightarrow> (Panicked, D) | Hung \<Rightarrow> (Hung, D))"
  by (auto simp: transact_def ref_write_def ref_commit_def split: outcome.splits ending.splits)

lemma coll_repr_main: "coll_repr R rec_ok T tbl S \<Longrightarrow> \<exists>kv. S MAIN_STORE = Some kv \<and> main_repr R tbl kv"
  by (simp add: coll_repr_def)

lemma coll_repr_table: "coll_repr R rec_ok T tbl S \<Longrightarrow> table_ok R rec_ok tbl"
  by (simp add: coll_repr_def)

lemma coll_repr_index:
  "coll_repr R rec_ok T tbl S \<Longrightarrow> X \<in> set T \<Longrightarrow>
   \<exists>kv. S (ix_name X) = Some kv \<and> index_repr X (pk_key R) tbl kv"
  by (simp add: coll_repr_def)

text \<open>What the indexes of a registry represent, whatever the other stores hold.\<close>

definition indexes_repr :: "('r, 'pk) registry \<Rightarrow> 'pk key \<Rightarrow> ('r, 'pk) table \<Rightarrow> stores \<Rightarrow> bool" where
  "indexes_repr T PK tbl S \<longleftrightarrow>
     (\<forall>X \<in> set T. \<exists>kv. S (ix_name X) = Some kv \<and> index_repr X PK tbl kv)"

lemma indexes_repr_Cons:
  "indexes_repr (X # T) PK tbl S \<longleftrightarrow>
     (\<exists>kv. S (ix_name X) = Some kv \<and> index_repr X PK tbl kv) \<and> indexes_repr T PK tbl S"
  by (simp add: indexes_repr_def)

lemma indexes_repr_other:
  "n \<notin> ix_name ` set T \<Longrightarrow> indexes_repr T PK tbl (S(n \<mapsto> kv)) = indexes_repr T PK tbl S"
  by (auto simp: indexes_repr_def)

lemma coll_repr_indexes: "coll_repr R rec_ok T tbl S \<Longrightarrow> indexes_repr T (pk_key R) tbl S"
  by (simp add: coll_repr_def indexes_repr_def)

lemma indexes_repr_cong:
  "(\<And>n. n \<in> ix_name ` set T \<Longrightarrow> S n = S' n) \<Longrightarrow> indexes_repr T PK tbl S = indexes_repr T PK tbl S'"
  by (auto simp: indexes_repr_def)

context lawful_item
begin

lemma registry_update_ref:
  assumes ok: "table_ok R rec_ok tbl" and new: "rec_ok new" and key: "item_key R new = pk"
  shows "indexes_repr T (pk_key R) tbl S \<Longrightarrow> distinct (List.map ix_name T) \<Longrightarrow>
    (\<forall>X \<in> set T. same_key_ok R rec_ok X) \<Longrightarrow>
    (case List.find (\<lambda>X. index_conflict X tbl pk new) T of
       Some X \<Rightarrow> registry_update ref_ms T (pk_key R) pk (tbl pk) new (ns, S) =
                   Fail (AlreadyExists (ix_debug X new pk))
     | None \<Rightarrow> \<exists>S'. registry_update ref_ms T (pk_key R) pk (tbl pk) new (ns, S) = Ret (ns, S') \<and>
                    (\<forall>n. n \<notin> ix_name ` set T \<longrightarrow> S' n = S n) \<and>
                    indexes_repr T (pk_key R) (tbl(pk \<mapsto> new)) S')"
proof (induction T arbitrary: S)
  case Nil
  then show ?case by (simp add: indexes_repr_def)
next
  case (Cons X T)
  obtain kv where kv: "S (ix_name X) = Some kv" "index_repr X (pk_key R) tbl kv"
    using Cons.prems(1) by (auto simp: indexes_repr_Cons)
  have X: "same_key_ok R rec_ok X" and names: "ix_name X \<notin> ix_name ` set T"
    using Cons.prems by auto
  note step = index_update_ref [where S = S and ns = ns and pk = pk, OF ok kv(2,1) X new key]
  show ?case
  proof (cases "index_conflict X tbl pk new")
    case True
    then show ?thesis using step by simp
  next
    case False
    then obtain kv' where u: "index_update ref_ms X (pk_key R) pk (tbl pk) new (ns, S) =
          Ret (ns, S(ix_name X \<mapsto> kv'))" and r: "index_repr X (pk_key R) (tbl(pk \<mapsto> new)) kv'"
      using step by auto
    let ?S = "S(ix_name X \<mapsto> kv')"
    have "indexes_repr T (pk_key R) tbl ?S"
      using Cons.prems(1) names by (simp add: indexes_repr_Cons indexes_repr_other)
    note IH = Cons.IH [OF this]
    show ?thesis
    proof (cases "List.find (\<lambda>X. index_conflict X tbl pk new) T")
      case None
      then obtain S' where S': "registry_update ref_ms T (pk_key R) pk (tbl pk) new (ns, ?S) = Ret (ns, S')"
        "\<forall>n. n \<notin> ix_name ` set T \<longrightarrow> S' n = ?S n" "indexes_repr T (pk_key R) (tbl(pk \<mapsto> new)) S'"
        using IH Cons.prems by auto
      then have "indexes_repr (X # T) (pk_key R) (tbl(pk \<mapsto> new)) S'"
        using r names by (simp add: indexes_repr_Cons)
      moreover have "\<forall>n. n \<notin> ix_name ` set (X # T) \<longrightarrow> S' n = S n" using S'(2) by auto
      ultimately show ?thesis using False u None S'(1) by auto
    next
      case (Some Y)
      then show ?thesis using IH False u Cons.prems by auto
    qed
  qed
qed

lemma registry_remove_ref:
  assumes ok: "table_ok R rec_ok tbl" and pk: "tbl pk = Some r"
  shows "indexes_repr T (pk_key R) tbl S \<Longrightarrow> distinct (List.map ix_name T) \<Longrightarrow>
    \<exists>S'. registry_remove ref_ms T pk r (ns, S) = Ret (ns, S') \<and>
         (\<forall>n. n \<notin> ix_name ` set T \<longrightarrow> S' n = S n) \<and>
         indexes_repr T (pk_key R) (tbl(pk := None)) S'"
proof (induction T arbitrary: S)
  case Nil
  then show ?case by (simp add: indexes_repr_def)
next
  case (Cons X T)
  obtain kv where kv: "S (ix_name X) = Some kv" "index_repr X (pk_key R) tbl kv"
    using Cons.prems(1) by (auto simp: indexes_repr_Cons)
  have names: "ix_name X \<notin> ix_name ` set T" using Cons.prems by auto
  obtain kv' where u: "index_remove ref_ms X pk r (ns, S) = Ret (ns, S(ix_name X \<mapsto> kv'))"
    and r: "index_repr X (pk_key R) (tbl(pk := None)) kv'"
    using index_remove_ref [where S = S and ns = ns, OF ok kv(2,1) pk] by auto
  let ?S = "S(ix_name X \<mapsto> kv')"
  have "indexes_repr T (pk_key R) tbl ?S"
    using Cons.prems(1) names by (simp add: indexes_repr_Cons indexes_repr_other)
  moreover have "distinct (List.map ix_name T)" using Cons.prems(2) by simp
  ultimately obtain S' where S': "registry_remove ref_ms T pk r (ns, ?S) = Ret (ns, S')"
      "\<forall>n. n \<notin> ix_name ` set T \<longrightarrow> S' n = ?S n" "indexes_repr T (pk_key R) (tbl(pk := None)) S'"
    using Cons.IH [of ?S] by blast
  then have "indexes_repr (X # T) (pk_key R) (tbl(pk := None)) S'"
    using r names by (simp add: indexes_repr_Cons)
  moreover have "\<forall>n. n \<notin> ix_name ` set (X # T) \<longrightarrow> S' n = S n" using S'(2) by auto
  ultimately show ?case unfolding registry_remove.simps u and_then.simps using S'(1) by blast
qed

lemma coll_repr_step:
  assumes "table_ok R rec_ok tbl" "main_repr R tbl kv" "S MAIN_STORE = Some kv"
    "indexes_repr T (pk_key R) tbl S"
  shows "coll_repr R rec_ok T tbl S"
  using assms by (auto simp: coll_repr_def indexes_repr_def)

text \<open>A body on the reference backend that commits what the specification says.\<close>

definition body_agrees ::
  "('r, 'pk) registry \<Rightarrow> name \<Rightarrow> (error, ('r, 'pk) table) outcome \<Rightarrow>
   (error, ref_write_handle ending) outcome \<Rightarrow> bool" where
  "body_agrees T nm spec b \<longleftrightarrow>
     (case spec of
        Ret tbl \<Rightarrow> \<exists>S. b = Ret (Commit (nm, S)) \<and> coll_repr R rec_ok T tbl S
      | Fail e \<Rightarrow> b = Fail e
      | Panicked \<Rightarrow> b = Panicked
      | Hung \<Rightarrow> b = Hung)"

lemma put_ref:
  assumes repr: "coll_repr R rec_ok T tbl S" and reg: "registry_ok R rec_ok T"
    and r: "rec_ok r" and pk: "item_key R r = pk"
  shows "body_agrees T nm (spec_put R T pk r tbl) (put_record ref_ms R T (tbl pk) r (nm, S, MAIN_STORE))"
proof (cases "to_bytes R r")
  case (Ret bs)
  obtain kv where kv: "S MAIN_STORE = Some kv" "main_repr R tbl kv" using coll_repr_main [OF repr] by auto
  note ok = coll_repr_table [OF repr]
  have v: "pk_valid pk" using key_valid [OF r] pk by simp
  have names: "MAIN_STORE \<notin> ix_name ` set T" "distinct (List.map ix_name T)"
    "\<forall>X \<in> set T. same_key_ok R rec_ok X" using reg by (auto simp: registry_ok_def)
  let ?kv = "bt_insert (encode (pk_key R) pk) bs kv"
  let ?S = "S(MAIN_STORE \<mapsto> ?kv)"
  have idx: "indexes_repr T (pk_key R) tbl ?S"
    using coll_repr_indexes [OF repr] names(1) by (simp add: indexes_repr_other)
  have main: "main_repr R (tbl(pk \<mapsto> r)) ?kv" by (rule main_insert [OF ok kv(2) v Ret])
  note upd = registry_update_ref [OF ok r pk idx names(2,3), of nm]
  show ?thesis
  proof (cases "List.find (\<lambda>X. index_conflict X tbl pk r) T")
    case None
    then obtain S' where S': "registry_update ref_ms T (pk_key R) pk (tbl pk) r (nm, ?S) = Ret (nm, S')"
      "\<forall>n. n \<notin> ix_name ` set T \<longrightarrow> S' n = ?S n" "indexes_repr T (pk_key R) (tbl(pk \<mapsto> r)) S'"
      using upd by auto
    have "coll_repr R rec_ok T (tbl(pk \<mapsto> r)) S'"
      by (rule coll_repr_step [OF table_ok_upd [OF ok r pk Ret] main])
        (use S' names in auto)
    then show ?thesis
      using None Ret kv(1) S'(1) pk by (simp add: spec_put_def put_record_def body_agrees_def)
  next
    case (Some X)
    then show ?thesis
      using upd Ret kv(1) pk by (simp add: spec_put_def put_record_def body_agrees_def)
  qed
qed (simp_all add: spec_put_def put_record_def body_agrees_def)

text \<open>Opening the primary store and reading the record of a key.\<close>

lemma main_lookup:
  assumes repr: "coll_repr R rec_ok T tbl S" and v: "pk_valid pk"
  shows "\<exists>kv. S MAIN_STORE = Some kv \<and> main_repr R tbl kv \<and>
      (bt_get (encode (pk_key R) pk) kv = None \<longleftrightarrow> tbl pk = None) \<and>
      decode_stored R (bt_get (encode (pk_key R) pk) kv) = Ret (tbl pk)"
proof -
  obtain kv where kv: "S MAIN_STORE = Some kv" "main_repr R tbl kv" using coll_repr_main [OF repr] by auto
  note ok = coll_repr_table [OF repr]
  have "decode_stored R (bt_get (encode (pk_key R) pk) kv) = Ret (tbl pk)"
  proof (cases "bt_get (encode (pk_key R) pk) kv")
    case None
    then show ?thesis using main_get_None [OF ok kv(2) v] by simp
  next
    case (Some bs)
    then obtain r where "tbl pk = Some r" "to_bytes R r = Ret bs"
      using main_get [OF ok kv(2) v] by auto
    then have "from_bytes R bs = Ret r" using read_back [of r bs] table_okD [OF ok] by blast
    then show ?thesis using Some \<open>tbl pk = Some r\<close> by simp
  qed
  with kv main_get_None [OF ok kv(2) v] show ?thesis by (intro exI [of _ kv] conjI)
qed

lemma transact_agrees:
  assumes D: "D nm = Some S" and b: "body_agrees T nm spec (body (nm, S))"
  shows "agrees R rec_ok T nm D spec (transact ref_ms nm D body)"
proof (cases spec)
  case (Ret tbl)
  then obtain S' where "body (nm, S) = Ret (Commit (nm, S'))" "coll_repr R rec_ok T tbl S'"
    using b by (auto simp: body_agrees_def)
  then show ?thesis
    using Ret by (auto simp: agrees_def transact_ref [where D = D and nm = nm and S = S, OF D])
qed (use b in \<open>simp_all add: agrees_def body_agrees_def transact_ref [where D = D and nm = nm and S = S, OF D]\<close>)

lemma insert_agrees:
  assumes "D nm = Some S" "coll_repr R rec_ok T tbl S" "registry_ok R rec_ok T" "rec_ok r"
  shows "agrees R rec_ok T nm D (spec_insert R T r tbl) (collection_insert ref_ms R T nm r D)"
  unfolding collection_insert_def
proof (rule transact_agrees [where D = D and S = S and nm = nm, OF assms(1)])
  have "insert_body ref_ms R T r (nm, S) = 
      (if tbl (item_key R r) = None then put_record ref_ms R T None r (nm, S, MAIN_STORE)
       else Fail (AlreadyExists (pk_debug R (item_key R r))))"
    using main_lookup [OF assms(2) key_valid [OF assms(4)]]
    by (auto simp: insert_body_def Let_def ref_wopen_def ref_get_def)
  then show "body_agrees T nm (spec_insert R T r tbl) (insert_body ref_ms R T r (nm, S))"
    using put_ref [OF assms(2-4) refl, of nm]
    by (auto simp: spec_insert_def Let_def body_agrees_def [where spec = "Fail e" for e])
qed

lemma update_agrees:
  assumes "D nm = Some S" "coll_repr R rec_ok T tbl S" "registry_ok R rec_ok T" "rec_ok r"
  shows "agrees R rec_ok T nm D (spec_update R T r tbl) (collection_update ref_ms R T nm r D)"
  unfolding collection_update_def
proof (rule transact_agrees [where D = D and S = S and nm = nm, OF assms(1)])
  have "update_body ref_ms R T r (nm, S) = 
      (if tbl (item_key R r) = None then Fail (NotFound (pk_debug R (item_key R r)))
       else put_record ref_ms R T (tbl (item_key R r)) r (nm, S, MAIN_STORE))"
    using main_lookup [OF assms(2) key_valid [OF assms(4)]]
    by (auto simp: update_body_def Let_def ref_wopen_def ref_get_def)
  then show "body_agrees T nm (spec_update R T r tbl) (update_body ref_ms R T r (nm, S))"
    using put_ref [OF assms(2-4) refl, of nm]
    by (auto simp: spec_update_def Let_def body_agrees_def [where spec = "Fail e" for e])
qed

lemma save_agrees:
  assumes "D nm = Some S" "coll_repr R rec_ok T tbl S" "registry_ok R rec_ok T" "rec_ok r"
  shows "agrees R rec_ok T nm D (spec_save R T r tbl) (collection_save ref_ms R T nm r D)"
  unfolding collection_save_def
proof (rule transact_agrees [where D = D and S = S and nm = nm, OF assms(1)])
  have "save_body ref_ms R T r (nm, S) = 
      put_record ref_ms R T (tbl (item_key R r)) r (nm, S, MAIN_STORE)"
    using main_lookup [OF assms(2) key_valid [OF assms(4)]]
    by (auto simp: save_body_def Let_def ref_wopen_def ref_get_def)
  then show "body_agrees T nm (spec_save R T r tbl) (save_body ref_ms R T r (nm, S))"
    using put_ref [OF assms(2-4) refl, of nm]
    by (auto simp: spec_save_def Let_def body_agrees_def [where spec = "Fail e" for e])
qed

lemma remove_agrees:
  assumes D: "D nm = Some S" and repr: "coll_repr R rec_ok T tbl S" and reg: "registry_ok R rec_ok T"
    and v: "pk_valid pk"
  shows "agrees R rec_ok T nm D (spec_remove pk tbl) (collection_remove ref_ms R T nm pk D)"
proof -
  obtain kv where kv: "S MAIN_STORE = Some kv" "main_repr R tbl kv"
      "decode_stored R (bt_get (encode (pk_key R) pk) kv) = Ret (tbl pk)"
    using main_lookup [OF repr v] by auto
  show ?thesis
  proof (cases "tbl pk")
    case None
    then have "tbl(pk := None) = tbl" by (simp add: fun_upd_idem)
    moreover have "remove_body ref_ms R T pk (nm, S) = Ret Leave"
      using kv None by (simp add: remove_body_def ref_wopen_def ref_get_def)
    moreover have "D(nm \<mapsto> S) = D" using D by (simp add: fun_upd_idem)
    ultimately show ?thesis
      using repr unfolding collection_remove_def transact_ref [where D = D and nm = nm and S = S, OF D]
      by (auto simp: agrees_def spec_remove_def intro!: exI [of _ S])
  next
    case (Some r)
    note ok = coll_repr_table [OF repr]
    have pk: "item_key R r = pk" using table_okD [OF ok Some] by simp
    let ?kv = "bt_remove (encode (pk_key R) pk) kv"
    let ?S = "S(MAIN_STORE \<mapsto> ?kv)"
    have names: "MAIN_STORE \<notin> ix_name ` set T" "distinct (List.map ix_name T)"
      using reg by (auto simp: registry_ok_def)
    have "indexes_repr T (pk_key R) tbl ?S"
      using coll_repr_indexes [OF repr] names(1) by (simp add: indexes_repr_other)
    then obtain S' where S': "registry_remove ref_ms T pk r (nm, ?S) = Ret (nm, S')"
        "\<forall>n. n \<notin> ix_name ` set T \<longrightarrow> S' n = ?S n" "indexes_repr T (pk_key R) (tbl(pk := None)) S'"
      using registry_remove_ref [OF ok Some _ names(2)] by blast
    have "coll_repr R rec_ok T (tbl(pk := None)) S'"
      by (rule coll_repr_step [OF table_ok_del [OF ok] main_remove [OF ok kv(2) v]])
        (use S' names in auto)
    then have "body_agrees T nm (spec_remove pk tbl) (remove_body ref_ms R T pk (nm, S))"
      using kv Some S'(1) pk
      by (auto simp: body_agrees_def spec_remove_def remove_body_def ref_wopen_def ref_get_def)
    then show ?thesis
      unfolding collection_remove_def by (rule transact_agrees [where D = D and S = S and nm = nm, OF D])
  qed
qed

lemma get_agrees:
  assumes "D nm = Some S" "coll_repr R rec_ok T tbl S" "pk_valid pk"
  shows "collection_get ref_ms R nm pk D = Ret (tbl pk)"
  using main_lookup [OF assms(2,3)] assms(1)
  by (auto simp: collection_get_def ref_read_def ref_open_def ref_get_def)

end

end
