(* ===== verification/Memory.thy ===== *)
theory Memory
  imports Collection_Spec
begin

text \<open>
  The in-memory backend of \<open>src/backend/memory.rs\<close>. A namespace is its published stores, behind
  an \<open>Arc\<close> that is replaced as a whole, and its writer gate. A read handle keeps the stores
  that were published when it was opened; a write handle is a private copy of them that
  \<open>commit\<close> publishes. The gate lets one writer in: this theory runs the operations one after
  the other, where a writer that finds the gate taken waits for ever (\<open>Hung\<close>); the threads that
  wait and are woken are in the theory of the writer gate.
\<close>

section \<open>State\<close>

record namespaced_state =
  ns_stores :: stores
  writer_open :: bool

type_synonym memory_db = "name \<Rightarrow> namespaced_state option"

record memory_write_handle =
  mwh_namespace :: name
  mwh_staged :: stores

record memory_write_store =
  mws_handle :: memory_write_handle
  mws_name :: name

definition namespaced_state_new :: "stores \<Rightarrow> namespaced_state" where
  "namespaced_state_new S = \<lparr>ns_stores = S, writer_open = False\<rparr>"

definition memory_new :: memory_db where
  "memory_new = (\<lambda>_. None)"

text \<open>\<open>collect\<close> into a \<open>BTreeMap\<close> keeps the last value of a repeated key.\<close>

definition collect_map :: "(name \<times> 'a) list \<Rightarrow> name \<Rightarrow> 'a option" where
  "collect_map xs = map_of (rev xs)"

section \<open>The writer gate\<close>

definition gate_acquire :: "namespaced_state \<Rightarrow> (std_error, namespaced_state) outcome" where
  "gate_acquire st = (if writer_open st then Hung else Ret (st\<lparr>writer_open := True\<rparr>))"

definition permit_drop :: "name \<Rightarrow> memory_db \<Rightarrow> memory_db" where
  "permit_drop ns db = (case db ns of None \<Rightarrow> db | Some st \<Rightarrow> db(ns \<mapsto> st\<lparr>writer_open := False\<rparr>))"

section \<open>The backend\<close>

definition memory_prepare :: "name \<Rightarrow> name list \<Rightarrow> memory_db \<Rightarrow> (std_error, memory_db) outcome" where
  "memory_prepare ns names db =
     (case db ns of
        Some st \<Rightarrow>
          (let current = ns_stores st;
               next_stores = collect_map (List.map (\<lambda>store.
                 (store, case current store of None \<Rightarrow> [] | Some kv \<Rightarrow> kv)) names)
           in Ret (db(ns \<mapsto> st\<lparr>ns_stores := next_stores\<rparr>)))
      | None \<Rightarrow>
          (let nstores = collect_map (List.map (\<lambda>store. (store, [])) names)
           in Ret (db(ns \<mapsto> namespaced_state_new nstores))))"

definition memory_read :: "name \<Rightarrow> memory_db \<Rightarrow> (std_error, stores) outcome" where
  "memory_read ns db = map_ret ns_stores (unwrap (db ns))"

definition memory_write ::
  "name \<Rightarrow> memory_db \<Rightarrow> (std_error, memory_write_handle \<times> memory_db) outcome" where
  "memory_write ns db =
     and_then (unwrap (db ns)) (\<lambda>st.
     and_then (gate_acquire st) (\<lambda>st.
     Ret (\<lparr>mwh_namespace = ns, mwh_staged = ns_stores st\<rparr>, db(ns \<mapsto> st))))"

definition memory_open :: "name \<Rightarrow> stores \<Rightarrow> (std_error, kv_store) outcome" where
  "memory_open n S = unwrap (S n)"

definition memory_get :: "bytes \<Rightarrow> kv_store \<Rightarrow> (std_error, bytes option) outcome" where
  "memory_get k kv = Ret (bt_get k kv)"

definition memory_scan :: "scan_range \<Rightarrow> direction \<Rightarrow> kv_store \<Rightarrow> (std_error, scan_results) outcome" where
  "memory_scan r d kv =
     and_then (unwrap (bt_range r kv)) (\<lambda>es.
       Ret (case d of
              LeftToRight \<Rightarrow> List.map (\<lambda>(key, val). Ret (key, val)) es
            | RightToLeft \<Rightarrow> List.map (\<lambda>(key, val). Ret (key, val)) (rev es)))"

definition memory_write_open ::
  "name \<Rightarrow> memory_write_handle \<Rightarrow> (std_error, memory_write_store) outcome" where
  "memory_write_open n tx =
     map_ret (\<lambda>_. \<lparr>mws_handle = tx, mws_name = n\<rparr>) (unwrap (mwh_staged tx n))"

text \<open>The store a mutable borrow points to, and writing through it.\<close>

definition borrowed :: "memory_write_store \<Rightarrow> kv_store" where
  "borrowed ws = the (mwh_staged (mws_handle ws) (mws_name ws))"

definition write_borrowed :: "kv_store \<Rightarrow> memory_write_store \<Rightarrow> memory_write_store" where
  "write_borrowed kv ws =
     ws\<lparr>mws_handle := (mws_handle ws)
          \<lparr>mwh_staged := (mwh_staged (mws_handle ws))(mws_name ws \<mapsto> kv)\<rparr>\<rparr>"

definition memory_set ::
  "bytes \<Rightarrow> bytes \<Rightarrow> memory_write_store \<Rightarrow> (std_error, memory_write_store) outcome" where
  "memory_set k v ws = Ret (write_borrowed (bt_insert k v (borrowed ws)) ws)"

definition memory_remove ::
  "bytes \<Rightarrow> memory_write_store \<Rightarrow> (std_error, memory_write_store) outcome" where
  "memory_remove k ws = Ret (write_borrowed (bt_remove k (borrowed ws)) ws)"

text \<open>Reading through the write handle, staged writes included.\<close>

definition memory_write_get :: "bytes \<Rightarrow> memory_write_store \<Rightarrow> (std_error, bytes option) outcome" where
  "memory_write_get k ws = Ret (bt_get k (borrowed ws))"

definition memory_write_scan ::
  "scan_range \<Rightarrow> direction \<Rightarrow> memory_write_store \<Rightarrow> (std_error, scan_results) outcome" where
  "memory_write_scan r d ws =
     and_then (unwrap (bt_range r (borrowed ws))) (\<lambda>es.
       Ret (case d of
              LeftToRight \<Rightarrow> List.map (\<lambda>(key, val). Ret (key, val)) es
            | RightToLeft \<Rightarrow> List.map (\<lambda>(key, val). Ret (key, val)) (rev es)))"

definition memory_drop :: "memory_write_handle \<Rightarrow> memory_db \<Rightarrow> memory_db" where
  "memory_drop tx db = permit_drop (mwh_namespace tx) db"

definition memory_commit ::
  "memory_write_handle \<Rightarrow> memory_db \<Rightarrow> (std_error, unit) outcome \<times> memory_db" where
  "memory_commit tx db =
     (let ns = mwh_namespace tx;
          new_stores = mwh_staged tx;
          db = (case db ns of None \<Rightarrow> db | Some st \<Rightarrow> db(ns \<mapsto> st\<lparr>ns_stores := new_stores\<rparr>))
      in (Ret (), permit_drop ns db))"

definition memory_ms ::
  "(memory_db, stores, kv_store, memory_write_handle, memory_write_store) multistore" where
  "memory_ms = \<lparr>
     ms_prepare = memory_prepare, ms_read = memory_read, ms_write = memory_write,
     rh_open = memory_open, rs_get = memory_get, rs_scan = memory_scan,
     wh_open = memory_write_open,
     ws_get = memory_write_get,
     ws_set = memory_set, ws_remove = memory_remove,
     ws_scan = memory_write_scan,
     ws_close = mws_handle, ms_drop = memory_drop, ms_commit = memory_commit\<rparr>"

lemma memory_ms_simps [simp]:
  "ms_prepare memory_ms = memory_prepare" "ms_read memory_ms = memory_read"
  "ms_write memory_ms = memory_write" "rh_open memory_ms = memory_open"
  "rs_get memory_ms = memory_get" "rs_scan memory_ms = memory_scan"
  "wh_open memory_ms = memory_write_open" "ws_get memory_ms k ws = memory_get k (borrowed ws)"
  "ws_set memory_ms = memory_set" "ws_remove memory_ms = memory_remove"
  "ws_scan memory_ms r d ws = memory_scan r d (borrowed ws)" "ws_close memory_ms = mws_handle"
  "ms_drop memory_ms = memory_drop" "ms_commit memory_ms = memory_commit"
  by (simp_all add: memory_ms_def memory_get_def memory_scan_def memory_write_get_def memory_write_scan_def)

section \<open>Invariant and abstraction\<close>

definition memory_stores_ok :: "memory_db \<Rightarrow> bool" where
  "memory_stores_ok db \<longleftrightarrow> (\<forall>ns st. db ns = Some st \<longrightarrow> stores_ok (ns_stores st))"

definition memory_abs :: "memory_db \<Rightarrow> ref_db" where
  "memory_abs db = (\<lambda>ns. map_option ns_stores (db ns))"

text \<open>Nobody writes; and exactly one namespace has a writer.\<close>

definition memory_inv :: "memory_db \<Rightarrow> bool" where
  "memory_inv db \<longleftrightarrow> memory_stores_ok db \<and> (\<forall>ns st. db ns = Some st \<longrightarrow> \<not> writer_open st)"

definition memory_writing :: "name \<Rightarrow> memory_db \<Rightarrow> bool" where
  "memory_writing ns db \<longleftrightarrow> memory_stores_ok db \<and> (\<exists>st. db ns = Some st \<and> writer_open st) \<and>
     (\<forall>m st. m \<noteq> ns \<longrightarrow> db m = Some st \<longrightarrow> \<not> writer_open st)"

definition memory_wh_abs :: "memory_write_handle \<Rightarrow> ref_write_handle" where
  "memory_wh_abs tx = (mwh_namespace tx, mwh_staged tx)"

definition memory_ws_abs :: "memory_write_store \<Rightarrow> ref_write_store" where
  "memory_ws_abs ws = (mwh_namespace (mws_handle ws), mwh_staged (mws_handle ws), mws_name ws)"

definition memory_ws_ok :: "memory_write_store \<Rightarrow> bool" where
  "memory_ws_ok ws \<longleftrightarrow> ref_ws_ok (memory_ws_abs ws)"

section \<open>The backend satisfies the contract\<close>

lemma collect_map_tabulate:
  "collect_map (List.map (\<lambda>n. (n, f n)) names) = (\<lambda>n. if n \<in> set names then Some (f n) else None)"
  by (induction names) (auto simp: collect_map_def map_add_def split: option.splits)

lemma memory_prepare_eq:
  "memory_prepare ns names db = Ret (db(ns \<mapsto>
     (case db ns of None \<Rightarrow> namespaced_state_new (prepared_stores names (\<lambda>_. None))
      | Some st \<Rightarrow> st\<lparr>ns_stores := prepared_stores names (ns_stores st)\<rparr>)))"
  by (auto simp: memory_prepare_def Let_def collect_map_tabulate prepared_stores_def
      split: option.splits)

lemma borrowed_abs: "memory_ws_ok ws \<Longrightarrow> ref_opened (memory_ws_abs ws) = borrowed ws"
  by (auto simp: memory_ws_ok_def memory_ws_abs_def ref_ws_ok_def borrowed_def)

lemma write_borrowed_abs:
  "memory_ws_ok ws \<Longrightarrow>
   memory_ws_abs (write_borrowed (f (borrowed ws)) ws) = ref_update f (memory_ws_abs ws)"
  by (simp add: borrowed_abs [symmetric]) (simp add: write_borrowed_def memory_ws_abs_def)

lemma memory_scan_ref: "memory_scan r d kv = ref_scan r d kv"
  by (auto simp: memory_scan_def ref_scan_def ordered_def bt_range_def split: direction.splits)

lemma memory_inv_prepared:
  "memory_inv db \<Longrightarrow> memory_inv (db(ns \<mapsto> (case db ns of
     None \<Rightarrow> namespaced_state_new (prepared_stores names (\<lambda>_. None))
   | Some st \<Rightarrow> st\<lparr>ns_stores := prepared_stores names (ns_stores st)\<rparr>)))"
  by (auto simp: memory_inv_def memory_stores_ok_def namespaced_state_new_def stores_ok_def
      prepared_stores_def split: option.splits if_splits)

lemma memory_prepare_refines:
  "memory_inv db \<Longrightarrow>
   refines (\<lambda>_. False) memory_inv memory_abs (memory_prepare ns names db) (ref_prepare ns names (memory_abs db))"
  using memory_inv_prepared [of db ns names]
  by (auto simp: memory_prepare_eq ref_prepare_def memory_abs_def namespaced_state_new_def
      intro!: refine_intros ext split: option.splits)

lemma memory_abs_ok: "memory_inv db \<Longrightarrow> db_ok (memory_abs db)"
  by (auto simp: memory_inv_def memory_abs_def memory_stores_ok_def db_ok_def)

interpretation mem: volatile_multistore "\<lambda>_. False" memory_ms memory_inv memory_abs memory_writing
  mwh_namespace "\<lambda>S. S" "\<lambda>kv. kv" "\<lambda>tx. stores_ok (mwh_staged tx)" memory_wh_abs memory_ws_ok memory_ws_abs
proof unfold_locales
  fix db ns names assume inv: "memory_inv db"
  then show "refines (\<lambda>_. False) memory_inv memory_abs (ms_prepare memory_ms ns names db)
               (ref_prepare ns names (memory_abs db))"
    by (simp add: memory_prepare_refines)
  show "(\<exists>e. ms_prepare memory_ms ns names db = Fail e \<and> False) \<or>
      (\<exists>db'. ms_prepare memory_ms ns names db = Ret db' \<and> memory_inv db' \<and>
             prepared ns names (memory_abs db) (memory_abs db'))"
    using memory_prepare_refines [OF inv, of ns names] prepared_ref [OF memory_abs_ok [OF inv], of ns names]
    by (auto simp: memory_prepare_eq refines_def ref_prepare_eq)
next
  fix db ns assume "memory_inv db"
  show "refines (\<lambda>_. False) (\<lambda>_. True) (\<lambda>S. S) (ms_read memory_ms ns db) (ref_read ns (memory_abs db))"
    by (cases "db ns") (simp_all add: memory_read_def ref_read_def memory_abs_def refines_def)
next
  fix db ns assume "memory_inv db"
  then show "refines (\<lambda>_. False)
        (\<lambda>(tx, db'). stores_ok (mwh_staged tx) \<and> memory_writing (mwh_namespace tx) db')
        (\<lambda>(tx, db'). (memory_wh_abs tx, memory_abs db'))
        (ms_write memory_ms ns db) (ref_write ns (memory_abs db))"
    by (cases "db ns") (auto simp: memory_write_def ref_write_def memory_abs_def refines_def
        gate_acquire_def memory_inv_def memory_writing_def memory_wh_abs_def memory_stores_ok_def)
next
  fix n and tx :: memory_write_handle assume "stores_ok (mwh_staged tx)"
  then show "refines (\<lambda>_. False)
        (\<lambda>ws. memory_ws_ok ws \<and> mwh_namespace (ws_close memory_ms ws) = mwh_namespace tx) memory_ws_abs
        (wh_open memory_ms n tx) (ref_wopen n (memory_wh_abs tx))"
    by (cases "mwh_staged tx n") (auto simp: memory_write_open_def ref_wopen_def memory_wh_abs_def
        refines_def memory_ws_ok_def memory_ws_abs_def ref_ws_ok_def)
next
  fix ws k v assume ok: "memory_ws_ok ws"
  have "memory_ws_ok (write_borrowed (f (borrowed ws)) ws)"
    if "\<And>kv. bt_ok kv \<Longrightarrow> bt_ok (f kv)" for f
    using ok that by (simp add: memory_ws_ok_def write_borrowed_abs ref_ws_ok_update)
  then show "refines (\<lambda>_. False)
        (\<lambda>ws'. memory_ws_ok ws' \<and> mwh_namespace (ws_close memory_ms ws') = mwh_namespace (ws_close memory_ms ws))
        memory_ws_abs (ws_set memory_ms k v ws) (Ret (ref_update (bt_insert k v) (memory_ws_abs ws)))"
    and "refines (\<lambda>_. False)
        (\<lambda>ws'. memory_ws_ok ws' \<and> mwh_namespace (ws_close memory_ms ws') = mwh_namespace (ws_close memory_ms ws))
        memory_ws_abs (ws_remove memory_ms k ws) (Ret (ref_update (bt_remove k) (memory_ws_abs ws)))"
    using ok by (auto simp: memory_set_def memory_remove_def write_borrowed_abs intro!: refine_intros)
      (simp_all add: write_borrowed_def)
next
  fix ws assume "memory_ws_ok ws"
  then show "stores_ok (mwh_staged (ws_close memory_ms ws)) \<and>
             memory_wh_abs (ws_close memory_ms ws) = ref_close (memory_ws_abs ws)"
    by (auto simp: memory_ws_ok_def memory_ws_abs_def memory_wh_abs_def ref_ws_ok_def)
next
  fix db and tx :: memory_write_handle assume "memory_writing (mwh_namespace tx) db"
  then show "memory_inv (ms_drop memory_ms tx db) \<and>
             memory_abs (ms_drop memory_ms tx db) = memory_abs db"
    by (auto simp: memory_drop_def permit_drop_def memory_writing_def memory_inv_def
        memory_abs_def memory_stores_ok_def split: if_splits)
next
  fix db res db' and tx :: memory_write_handle
  assume "memory_writing (mwh_namespace tx) db" "stores_ok (mwh_staged tx)"
    "ms_commit memory_ms tx db = (res, db')"
  then show "memory_inv db' \<and>
      (res = Ret () \<and> memory_abs db' = (memory_abs db)(fst (memory_wh_abs tx) \<mapsto> snd (memory_wh_abs tx)) \<or>
       (\<exists>e. res = Fail e \<and> False \<and> memory_abs db' = memory_abs db))"
    by (auto simp: memory_commit_def permit_drop_def memory_writing_def memory_inv_def
        memory_abs_def memory_wh_abs_def memory_stores_ok_def Let_def split: if_splits)
qed (auto simp: memory_abs_ok memory_open_def ref_open_def memory_get_def ref_get_def memory_scan_ref borrowed_abs
    intro: refine_intros ref_scan_refines)

end
