(* ===== verification/Scan.thy ===== *)
theory Scan
  imports Collection_Spec Memory
begin

text \<open>
  Scans: the builders of \<open>src/scan.rs\<close>, the cursors and iterators of \<open>src/iter.rs\<close>, and the two
  methods of a collection that start a scan. A chain of builder calls is a value of
  \<open>scan\<close>, one constructor per builder type; \<open>compile\<close> turns it into byte bounds and a
  direction, and \<open>scan_iter\<close> opens the stores. An iterator is its remaining backend results and,
  for an index, the primary store; \<open>collect_index\<close> and \<open>collect_collection\<close> run it to its end.
\<close>

section \<open>Cursors and entries\<close>

datatype cursor = NoCursor | CursorKey bytes

definition cursor_from_key :: "'k key \<Rightarrow> 'k \<Rightarrow> cursor" where
  "cursor_from_key K k = CursorKey (encode K k)"

fun cursor_into_key_vec :: "cursor \<Rightarrow> bytes option" where
  "cursor_into_key_vec NoCursor = None"
| "cursor_into_key_vec (CursorKey k) = Some k"

definition index_cursor :: "('r, 'pk) item \<Rightarrow> ('r, 'ik, 'pk, 'sk) index_type \<Rightarrow> 'r \<Rightarrow> cursor" where
  "index_cursor R X r =
     (let pk = item_key R r in
      cursor_from_key (store_key_key (kind X)) (store_key (kind X) (index_key X r) pk))"

record 'r scan_entry =
  entry_record :: 'r
  entry_cursor :: cursor

section \<open>Iterators\<close>

text \<open>The debug text of a byte slice, for the error of a dangling index entry.\<close>

fun decimal :: "nat \<Rightarrow> string" where
  "decimal n = (if n < 10 then [char_of (48 + n)] else decimal (n div 10) @ [char_of (48 + n mod 10)])"

fun debug_elements :: "bytes \<Rightarrow> string" where
  "debug_elements [] = ''''"
| "debug_elements [b] = decimal (unat b)"
| "debug_elements (b # bs) = decimal (unat b) @ '', '' @ debug_elements bs"

definition debug_bytes :: "bytes \<Rightarrow> string" where
  "debug_bytes bs = ''['' @ debug_elements bs @ '']''"

definition index_fetch ::
  "('db, 'rh, 'rs, 'wh, 'ws) multistore \<Rightarrow> ('r, 'pk) item \<Rightarrow> 'rs \<Rightarrow> (std_error, entry) outcome \<Rightarrow>
   (error, 'r scan_entry) outcome" where
  "index_fetch I R primary res =
     and_then (map_err error_backend res) (\<lambda>entry.
     and_then (map_err error_backend (rs_get I (snd entry) primary)) (\<lambda>found.
     case found of
       None \<Rightarrow> Fail (Unexpected (''primary key from index not found: '' @ debug_bytes (snd entry)))
     | Some record_bytes \<Rightarrow>
         and_then (map_err error_codec (from_bytes R record_bytes)) (\<lambda>r.
         Ret \<lparr>entry_record = r, entry_cursor = CursorKey (fst entry)\<rparr>)))"

definition collection_fetch ::
  "('r, 'pk) item \<Rightarrow> (std_error, entry) outcome \<Rightarrow> (error, 'r scan_entry) outcome" where
  "collection_fetch R res =
     and_then (map_err error_backend res) (\<lambda>entry.
     and_then (map_err error_codec (from_bytes R (snd entry))) (\<lambda>r.
     Ret \<lparr>entry_record = r, entry_cursor = CursorKey (fst entry)\<rparr>))"

text \<open>\<open>Iterator::next\<close>: the item, if any, and the iterator after it.\<close>

fun index_next ::
  "('db, 'rh, 'rs, 'wh, 'ws) multistore \<Rightarrow> ('r, 'pk) item \<Rightarrow> scan_results \<times> 'rs \<Rightarrow>
   ((error, 'r scan_entry) outcome \<times> scan_results \<times> 'rs) option" where
  "index_next I R ([], primary) = None"
| "index_next I R (res # rest, primary) = Some (index_fetch I R primary res, rest, primary)"

fun collection_next ::
  "('r, 'pk) item \<Rightarrow> scan_results \<Rightarrow> ((error, 'r scan_entry) outcome \<times> scan_results) option" where
  "collection_next R [] = None"
| "collection_next R (res # rest) = Some (collection_fetch R res, rest)"

text \<open>A loop over the iterator.\<close>

fun iterator_size :: "scan_results \<times> 'rs \<Rightarrow> nat" where
  "iterator_size (rest, primary) = length rest"

function collect_index ::
  "('db, 'rh, 'rs, 'wh, 'ws) multistore \<Rightarrow> ('r, 'pk) item \<Rightarrow> scan_results \<times> 'rs \<Rightarrow>
   (error, 'r scan_entry) outcome list" where
  "collect_index I R it =
     (case index_next I R it of None \<Rightarrow> [] | Some (x, it') \<Rightarrow> x # collect_index I R it')"
  by auto
termination
proof (relation "measure (\<lambda>(I, R, it). iterator_size it)", goal_cases)
  case (2 I R it p x it')
  then show ?case by (cases "(I, R, it)" rule: index_next.cases) auto
qed simp

function collect_collection ::
  "('r, 'pk) item \<Rightarrow> scan_results \<Rightarrow> (error, 'r scan_entry) outcome list" where
  "collect_collection R it =
     (case collection_next R it of None \<Rightarrow> [] | Some (x, it') \<Rightarrow> x # collect_collection R it')"
  by auto
termination
proof (relation "measure (\<lambda>(R, it). length it)", goal_cases)
  case (2 R it p x it')
  then show ?case by (cases it) auto
qed simp

declare collect_index.simps [simp del] collect_collection.simps [simp del] decimal.simps [simp del]

lemma collect_index_eq: "collect_index I R (rest, primary) = List.map (index_fetch I R primary) rest"
  by (induction rest) (simp_all add: collect_index.simps [of I R "([], primary)"]
      collect_index.simps [of I R "(_ # _, primary)"])

lemma collect_collection_eq: "collect_collection R rest = List.map (collection_fetch R) rest"
  by (induction rest) (simp_all add: collect_collection.simps [of R "[]"]
      collect_collection.simps [of R "_ # _"])

section \<open>Builders\<close>

text \<open>
  An executor is the read handle and the names of the stores it opens. A chain has at most
  one prefix, of type \<open>'p\<close>.
\<close>

datatype 'rh executor =
    IndexExecutor (index_store: name) (collection_name: name) (read_handle: 'rh)
  | CollectionExecutor (collection_name: name) (read_handle: 'rh)

datatype ('rh, 'p) scan =
    FullScan "'rh executor"
  | PrefixedScan 'p "('rh, 'p) scan"
  | RangeScan scan_range "('rh, 'p) scan"
  | DirectedScan direction "('rh, 'p) scan"
  | AfterScan cursor "('rh, 'p) scan"

definition index_scan_new :: "name \<Rightarrow> 'rh \<Rightarrow> name \<Rightarrow> ('rh, 'p) scan" where
  "index_scan_new index_nm rh coll_nm = FullScan (IndexExecutor index_nm coll_nm rh)"

definition collection_scan_new :: "'rh \<Rightarrow> name \<Rightarrow> ('rh, 'p) scan" where
  "collection_scan_new rh coll_nm = FullScan (CollectionExecutor coll_nm rh)"

definition scan_prefix :: "'p \<Rightarrow> ('rh, 'p) scan \<Rightarrow> ('rh, 'p) scan" where
  "scan_prefix p sc = PrefixedScan p sc"

definition scan_in_range ::
  "encoder \<Rightarrow> 'k key \<Rightarrow> 'k bound \<times> 'k bound \<Rightarrow> ('rh, 'p) scan \<Rightarrow> ('rh, 'p) scan" where
  "scan_in_range E K r sc = RangeScan (encode_range E K r) sc"

text \<open>\<open>PrefixedScan::range\<close>, over the suffix of the key.\<close>

definition scan_in_prefixed_range ::
  "encoder \<Rightarrow> 'k key \<Rightarrow> ('p, 's, 'k) prefixing \<Rightarrow> 'p \<Rightarrow> 's bound \<times> 's bound \<Rightarrow> ('rh, 'p) scan \<Rightarrow>
   ('rh, 'p) scan" where
  "scan_in_prefixed_range E K X p r sc =
     RangeScan (encode_prefixed_range E K X p r) (PrefixedScan p sc)"

definition scan_direction :: "direction \<Rightarrow> ('rh, 'p) scan \<Rightarrow> ('rh, 'p) scan" where
  "scan_direction d sc = DirectedScan d sc"

definition scan_after :: "cursor \<Rightarrow> ('rh, 'p) scan \<Rightarrow> ('rh, 'p) scan" where
  "scan_after c sc = AfterScan c sc"

section \<open>Compiling and opening a scan\<close>

record 'rh compiled_scan =
  cs_executor :: "'rh executor"
  cs_range :: scan_range
  cs_direction :: direction

text \<open>\<open>compile\<close> of each builder, on what its inner builder compiles to.\<close>

definition compile_full :: "'rh executor \<Rightarrow> (error, 'rh compiled_scan) outcome" where
  [simp]: "compile_full ex =
     Ret \<lparr>cs_executor = ex, cs_range = (Unbounded, Unbounded), cs_direction = LeftToRight\<rparr>"

definition compile_prefixed ::
  "('p, 's, 'k) prefixing \<Rightarrow> 'p \<Rightarrow> (error, 'rh compiled_scan) outcome \<Rightarrow>
   (error, 'rh compiled_scan) outcome" where
  [simp]: "compile_prefixed X p inner =
     and_then inner (\<lambda>c. Ret (c\<lparr>cs_range := encode_prefix_range X p\<rparr>))"

definition compile_ranged ::
  "scan_range \<Rightarrow> (error, 'rh compiled_scan) outcome \<Rightarrow> (error, 'rh compiled_scan) outcome" where
  [simp]: "compile_ranged r inner = and_then inner (\<lambda>c. Ret (c\<lparr>cs_range := r\<rparr>))"

definition compile_directed ::
  "direction \<Rightarrow> (error, 'rh compiled_scan) outcome \<Rightarrow> (error, 'rh compiled_scan) outcome" where
  [simp]: "compile_directed d inner = and_then inner (\<lambda>c. Ret (c\<lparr>cs_direction := d\<rparr>))"

definition compile_cursor ::
  "cursor \<Rightarrow> (error, 'rh compiled_scan) outcome \<Rightarrow> (error, 'rh compiled_scan) outcome" where
  [simp]: "compile_cursor cur inner =
     and_then inner (\<lambda>c.
       case cursor_into_key_vec cur of
         None \<Rightarrow> Ret c
       | Some key \<Rightarrow>
           if \<not> contains (<) (cs_range c) key then Fail CursorOutOfBounds
           else (case cs_direction c of
                   LeftToRight \<Rightarrow> Ret (c\<lparr>cs_range := (Excluded key, snd (cs_range c))\<rparr>)
                 | RightToLeft \<Rightarrow> Ret (c\<lparr>cs_range := (fst (cs_range c), Excluded key)\<rparr>)))"

fun compile ::
  "('p, 's, 'k) prefixing \<Rightarrow> ('rh, 'p) scan \<Rightarrow> (error, 'rh compiled_scan) outcome" where
  "compile X (FullScan ex) = compile_full ex"
| "compile X (PrefixedScan p inner) = compile_prefixed X p (compile X inner)"
| "compile X (RangeScan r inner) = compile_ranged r (compile X inner)"
| "compile X (DirectedScan d inner) = compile_directed d (compile X inner)"
| "compile X (AfterScan cur inner) = compile_cursor cur (compile X inner)"

text \<open>The iterator an executor opens; a collection iterator has no primary store.\<close>

datatype 'rs scan_iterator = IndexIterator scan_results 'rs | CollectionIterator scan_results

definition index_executor_open ::
  "('db, 'rh, 'rs, 'wh, 'ws) multistore \<Rightarrow> name \<Rightarrow> name \<Rightarrow> 'rh \<Rightarrow> scan_bound \<Rightarrow> scan_bound \<Rightarrow> direction \<Rightarrow>
   (error, 'rs scan_iterator) outcome" where
  [simp]: "index_executor_open I index_nm coll_nm rh start_bound end_bound d =
     and_then (map_err error_backend (rh_open I index_nm rh)) (\<lambda>index.
     and_then (map_err error_backend (rs_scan I (start_bound, end_bound) d index)) (\<lambda>inner.
     and_then (map_err error_backend (rh_open I coll_nm rh)) (\<lambda>primary.
     Ret (IndexIterator inner primary))))"

definition collection_executor_open ::
  "('db, 'rh, 'rs, 'wh, 'ws) multistore \<Rightarrow> name \<Rightarrow> 'rh \<Rightarrow> scan_bound \<Rightarrow> scan_bound \<Rightarrow> direction \<Rightarrow>
   (error, 'rs scan_iterator) outcome" where
  [simp]: "collection_executor_open I coll_nm rh start_bound end_bound d =
     and_then (map_err error_backend (rh_open I coll_nm rh)) (\<lambda>store.
     and_then (map_err error_backend (rs_scan I (start_bound, end_bound) d store)) (\<lambda>inner.
     Ret (CollectionIterator inner)))"

fun executor_open ::
  "('db, 'rh, 'rs, 'wh, 'ws) multistore \<Rightarrow> 'rh executor \<Rightarrow> scan_bound \<Rightarrow> scan_bound \<Rightarrow> direction \<Rightarrow>
   (error, 'rs scan_iterator) outcome" where
  "executor_open I (IndexExecutor index_nm coll_nm rh) start_bound end_bound d =
     index_executor_open I index_nm coll_nm rh start_bound end_bound d"
| "executor_open I (CollectionExecutor coll_nm rh) start_bound end_bound d =
     collection_executor_open I coll_nm rh start_bound end_bound d"

definition compiled_iter ::
  "('db, 'rh, 'rs, 'wh, 'ws) multistore \<Rightarrow> 'rh compiled_scan \<Rightarrow> (error, 'rs scan_iterator) outcome" where
  "compiled_iter I c =
     executor_open I (cs_executor c) (fst (cs_range c)) (snd (cs_range c)) (cs_direction c)"

definition scan_iter ::
  "('db, 'rh, 'rs, 'wh, 'ws) multistore \<Rightarrow> ('p, 's, 'k) prefixing \<Rightarrow> ('rh, 'p) scan \<Rightarrow>
   (error, 'rs scan_iterator) outcome" where
  "scan_iter I X sc = and_then (compile X sc) (compiled_iter I)"

fun scan_collect ::
  "('db, 'rh, 'rs, 'wh, 'ws) multistore \<Rightarrow> ('r, 'pk) item \<Rightarrow> 'rs scan_iterator \<Rightarrow>
   (error, 'r scan_entry) outcome list" where
  "scan_collect I R (IndexIterator inner primary) = collect_index I R (inner, primary)"
| "scan_collect I R (CollectionIterator inner) = collect_collection R inner"

section \<open>Starting a scan, and lookup by a unique key\<close>

definition collection_index_scan ::
  "('db, 'rh, 'rs, 'wh, 'ws) multistore \<Rightarrow> name \<Rightarrow> ('r, 'ik, 'pk, 'sk) index_type \<Rightarrow> 'db \<Rightarrow>
   (error, ('rh, 'p) scan) outcome" where
  "collection_index_scan I nm X db =
     and_then (map_err error_backend (ms_read I nm db)) (\<lambda>rh.
     Ret (index_scan_new (index_name X) rh MAIN_STORE))"

definition collection_scan ::
  "('db, 'rh, 'rs, 'wh, 'ws) multistore \<Rightarrow> name \<Rightarrow> 'db \<Rightarrow> (error, ('rh, 'p) scan) outcome" where
  "collection_scan I nm db =
     and_then (map_err error_backend (ms_read I nm db)) (\<lambda>rh.
     Ret (collection_scan_new rh MAIN_STORE))"

definition index_get ::
  "('db, 'rh, 'rs, 'wh, 'ws) multistore \<Rightarrow> ('r, 'pk) item \<Rightarrow> 'ik key \<Rightarrow> name \<Rightarrow> name \<Rightarrow> 'rh \<Rightarrow> 'ik \<Rightarrow>
   (error, 'r option) outcome" where
  "index_get I R K index_nm coll_nm rh k =
     and_then (map_err error_backend (rh_open I index_nm rh)) (\<lambda>index_store.
     and_then (map_err error_backend (rs_get I (encode K k) index_store)) (\<lambda>primary_key.
     case primary_key of
       None \<Rightarrow> Ret None
     | Some pk \<Rightarrow>
         and_then (map_err error_backend (rh_open I coll_nm rh)) (\<lambda>primary_store.
         and_then (map_err error_backend (rs_get I pk primary_store)) (decode_stored R))))"

end
