(* ===== verification/Builders.thy ===== *)
theory Builders
  imports Scan
begin

text \<open>
  The methods that chain the scan builders of \<open>src/scan.rs\<close>. Each builder type has the methods
  of its impl block and no other; a chain of calls is a list of \<open>builder_call\<close>, and a call that
  the type of the builder does not have is \<open>None\<close>: such a program does not compile. The lemmas
  show what a chain that compiles asks of the backend, whatever the order of its calls.
\<close>

section \<open>Methods\<close>

datatype ('p, 's, 'k) builder_call =
    CallPrefix 'p
  | CallRange "'k bound \<times> 'k bound"
  | CallSuffixRange "'s bound \<times> 's bound"
  | CallDirection direction
  | CallAfter cursor

fun index_scan_call ::
  "encoder \<Rightarrow> 'k key \<Rightarrow> ('p, 's, 'k) builder_call \<Rightarrow> ('rh, 'p) scan \<Rightarrow> ('rh, 'p) scan option" where
  "index_scan_call E K (CallPrefix p) sc = Some (scan_prefix p sc)"
| "index_scan_call E K (CallRange r) sc = Some (scan_in_range E K r sc)"
| "index_scan_call E K (CallSuffixRange r) sc = None"
| "index_scan_call E K (CallDirection d) sc = Some (scan_direction d sc)"
| "index_scan_call E K (CallAfter c) sc = Some (scan_after c sc)"

fun collection_scan_call ::
  "'k key \<Rightarrow> ('p, 's, 'k) builder_call \<Rightarrow> ('rh, 'p) scan \<Rightarrow> ('rh, 'p) scan option" where
  "collection_scan_call K (CallRange r) sc = Some (scan_in_range ExactEncoder K r sc)"
| "collection_scan_call K (CallDirection d) sc = Some (scan_direction d sc)"
| "collection_scan_call K (CallAfter c) sc = Some (scan_after c sc)"
| "collection_scan_call K _ sc = None"

fun prefixed_scan_call ::
  "encoder \<Rightarrow> 'k key \<Rightarrow> ('p, 's, 'k) prefixing \<Rightarrow> 'p \<Rightarrow> ('p, 's, 'k) builder_call \<Rightarrow> ('rh, 'p) scan \<Rightarrow>
   ('rh, 'p) scan option" where
  "prefixed_scan_call E K X p (CallSuffixRange r) inner = Some (scan_in_prefixed_range E K X p r inner)"
| "prefixed_scan_call E K X p (CallDirection d) inner = Some (scan_direction d (PrefixedScan p inner))"
| "prefixed_scan_call E K X p (CallAfter c) inner = Some (scan_after c (PrefixedScan p inner))"
| "prefixed_scan_call E K X p _ inner = None"

fun range_scan_call :: "('p, 's, 'k) builder_call \<Rightarrow> ('rh, 'p) scan \<Rightarrow> ('rh, 'p) scan option" where
  "range_scan_call (CallDirection d) sc = Some (scan_direction d sc)"
| "range_scan_call (CallAfter c) sc = Some (scan_after c sc)"
| "range_scan_call _ sc = None"

fun directed_scan_call :: "('p, 's, 'k) builder_call \<Rightarrow> ('rh, 'p) scan \<Rightarrow> ('rh, 'p) scan option" where
  "directed_scan_call (CallAfter c) sc = Some (scan_after c sc)"
| "directed_scan_call _ sc = None"

text \<open>The method is looked up by the type of the builder.\<close>

fun scan_call ::
  "encoder \<Rightarrow> 'k key \<Rightarrow> ('p, 's, 'k) prefixing \<Rightarrow> ('p, 's, 'k) builder_call \<Rightarrow> ('rh, 'p) scan \<Rightarrow>
   ('rh, 'p) scan option" where
  "scan_call E K X call (FullScan ex) =
     (case ex of
        IndexExecutor index_nm coll_nm rh \<Rightarrow> index_scan_call E K call (FullScan ex)
      | CollectionExecutor coll_nm rh \<Rightarrow> collection_scan_call K call (FullScan ex))"
| "scan_call E K X call (PrefixedScan p inner) = prefixed_scan_call E K X p call inner"
| "scan_call E K X call (RangeScan r inner) = range_scan_call call (RangeScan r inner)"
| "scan_call E K X call (DirectedScan d inner) = directed_scan_call call (DirectedScan d inner)"
| "scan_call E K X call (AfterScan c inner) = None"

fun scan_calls ::
  "encoder \<Rightarrow> 'k key \<Rightarrow> ('p, 's, 'k) prefixing \<Rightarrow> ('p, 's, 'k) builder_call list \<Rightarrow> ('rh, 'p) scan \<Rightarrow>
   ('rh, 'p) scan option" where
  "scan_calls E K X [] sc = Some sc"
| "scan_calls E K X (call # calls) sc =
     Option.bind (scan_call E K X call sc) (scan_calls E K X calls)"

section \<open>What a chain asks for\<close>

text \<open>The bytes a chain selects, before its cursor; \<open>pre\<close> is the prefix the builder has.\<close>

fun selected ::
  "encoder \<Rightarrow> 'k key \<Rightarrow> ('p, 's, 'k) prefixing \<Rightarrow> 'p option \<Rightarrow> scan_range \<Rightarrow> ('p, 's, 'k) builder_call list \<Rightarrow>
   scan_range" where
  "selected E K X pre rng [] = rng"
| "selected E K X pre rng (CallPrefix p # calls) = selected E K X (Some p) (encode_prefix_range X p) calls"
| "selected E K X pre rng (CallRange r # calls) = selected E K X None (encode_range E K r) calls"
| "selected E K X pre rng (CallSuffixRange r # calls) =
     selected E K X None (case pre of None \<Rightarrow> rng | Some p \<Rightarrow> encode_prefixed_range E K X p r) calls"
| "selected E K X pre rng (_ # calls) = selected E K X None rng calls"

fun chosen_direction :: "direction \<Rightarrow> ('p, 's, 'k) builder_call list \<Rightarrow> direction" where
  "chosen_direction d [] = d"
| "chosen_direction d (CallDirection d' # calls) = chosen_direction d' calls"
| "chosen_direction d (_ # calls) = chosen_direction d calls"

fun chosen_cursor :: "('p, 's, 'k) builder_call list \<Rightarrow> cursor" where
  "chosen_cursor [] = NoCursor"
| "chosen_cursor (CallAfter c # calls) = c"
| "chosen_cursor (_ # calls) = chosen_cursor calls"

fun prefix_of :: "('rh, 'p) scan \<Rightarrow> 'p option" where
  "prefix_of (PrefixedScan p inner) = Some p"
| "prefix_of _ = None"

text \<open>The encoder of the scan: a collection scan has the exact one.\<close>

definition encoder_of :: "'rh executor \<Rightarrow> encoder \<Rightarrow> encoder" where
  "encoder_of ex E = (case ex of IndexExecutor _ _ _ \<Rightarrow> E | CollectionExecutor _ _ \<Rightarrow> ExactEncoder)"

text \<open>Nothing can be called on a builder with a cursor.\<close>

lemma scan_calls_after: "scan_calls E K X calls (AfterScan c sc) = Some sc' \<longleftrightarrow> calls = [] \<and> sc' = AfterScan c sc"
  by (cases calls) auto

lemma compile_no_cursor: "compile_cursor NoCursor (Ret c) = Ret c"
  by simp

lemmas builder_defs = scan_prefix_def scan_in_range_def scan_in_prefixed_range_def scan_direction_def
  scan_after_def encoder_of_def

lemma chain_from:
  assumes "scan_calls E K X calls sc = Some sc'"
    and "compile X sc = Ret \<lparr>cs_executor = ex, cs_range = rng, cs_direction = d\<rparr>"
    and "\<And>c inner. sc \<noteq> AfterScan c inner" and "\<And>ex'. sc = FullScan ex' \<Longrightarrow> encoder_of ex' E = E"
  shows "compile X sc' = compile_cursor (chosen_cursor calls)
           (Ret \<lparr>cs_executor = ex, cs_range = selected E K X (prefix_of sc) rng calls,
                 cs_direction = chosen_direction d calls\<rparr>)"
  using assms
proof (induction calls arbitrary: sc rng d)
  case (Cons call calls)
  then obtain sc1 where sc1: "scan_call E K X call sc = Some sc1" "scan_calls E K X calls sc1 = Some sc'"
    by (auto simp: bind_eq_Some_conv)
  show ?case
  proof (cases call)
    case (CallAfter c)
    then have "sc1 = AfterScan c sc"
      using sc1(1) by (cases sc) (auto simp: builder_defs split: executor.splits)
    then show ?thesis
      using sc1(2) CallAfter Cons.prems(2) by (simp add: scan_calls_after)
  next
    case (CallDirection e)
    then have "sc1 = DirectedScan e sc"
      using sc1(1) Cons.prems(3) by (cases sc) (auto simp: builder_defs split: executor.splits)
    then show ?thesis
      using Cons.IH [OF sc1(2)] CallDirection Cons.prems(2) by simp
  next
    case (CallPrefix p)
    then have "sc1 = PrefixedScan p sc"
      using sc1(1) by (cases sc) (auto simp: builder_defs split: executor.splits)
    then show ?thesis
      using Cons.IH [OF sc1(2)] CallPrefix Cons.prems(2) by simp
  next
    case (CallRange r)
    then have "sc1 = RangeScan (encode_range E K r) sc"
      using sc1(1) Cons.prems(4) by (cases sc) (auto simp: builder_defs split: executor.splits)
    then show ?thesis
      using Cons.IH [OF sc1(2)] CallRange Cons.prems(2) by simp
  next
    case (CallSuffixRange r)
    then obtain p where "prefix_of sc = Some p" "sc1 = RangeScan (encode_prefixed_range E K X p r) sc"
      using sc1(1) by (cases sc) (auto simp: builder_defs split: executor.splits)
    then show ?thesis
      using Cons.IH [OF sc1(2)] CallSuffixRange Cons.prems(2) by simp
  qed
qed simp

text \<open>A cursor only narrows the range.\<close>

lemma compile_cursor_narrows:
  assumes "compile_cursor cur (Ret c0) = Ret c" and "contains (<) (cs_range c) key"
  shows "contains (<) (cs_range c0) key"
proof (cases cur)
  case (CursorKey k)
  obtain s e where r: "cs_range c0 = (s, e)" by (cases "cs_range c0")
  then have "contains (<) (s, e) k"
    using assms(1) CursorKey by (auto split: if_splits)
  then have "start_ok (<) s x" if "k < x" for x
    using that by (cases s) auto
  moreover have "end_ok (<) e x" if "x < k" for x
    using that \<open>contains (<) (s, e) k\<close> by (cases e) auto
  ultimately show ?thesis
    using assms CursorKey r by (cases "cs_direction c0") (auto split: if_splits)
qed (use assms in simp)

section \<open>Property\<close>

text \<open>C33: Whatever chain of builder methods a program that compiles calls on an index scan or on a
  collection scan, the scan runs on the bytes of the last prefix or range, in the last direction,
  with the one cursor applied to that range at the end: no call undoes an earlier one of another
  kind, and with the cursor the scan stays inside the range that was selected.\<close>

lemma builder_chain_compiles:
  assumes "scan_calls E K X calls (FullScan ex) = Some sc" and "encoder_of ex E = E"
  shows "compile X sc = compile_cursor (chosen_cursor calls)
           (Ret \<lparr>cs_executor = ex, cs_range = selected E K X None (Unbounded, Unbounded) calls,
                 cs_direction = chosen_direction LeftToRight calls\<rparr>) \<and>
         (\<forall>c key. compile X sc = Ret c \<and> contains (<) (cs_range c) key \<longrightarrow>
            contains (<) (selected E K X None (Unbounded, Unbounded) calls) key)"
proof -
  let ?sel = "selected E K X None (Unbounded, Unbounded) calls"
  have c: "compile X sc = compile_cursor (chosen_cursor calls)
      (Ret \<lparr>cs_executor = ex, cs_range = ?sel, cs_direction = chosen_direction LeftToRight calls\<rparr>)"
    using chain_from [OF assms(1), where ex = ex] assms(2) by simp
  then have "contains (<) ?sel key" if "compile X sc = Ret c" "contains (<) (cs_range c) key" for c key
    using that compile_cursor_narrows [OF _ that(2)] by force
  with c show ?thesis by blast
qed

lemma builder_chain_compiles_witness:
  "\<exists>sc. scan_calls PrefixEncoder (tuple2_key u8_key u8_key) (prefix2 u8_key u8_key)
          [CallPrefix 3, CallSuffixRange (Included 1, Unbounded), CallDirection RightToLeft,
           CallAfter (CursorKey [0x03, 0x07, 0x09])] (FullScan (IndexExecutor ''by_board'' ''__main'' ())) = Some sc \<and>
        compile (prefix2 u8_key u8_key) sc =
          Ret \<lparr>cs_executor = IndexExecutor ''by_board'' ''__main'' (),
               cs_range = (Included [0x03, 0x01], Excluded [0x03, 0x07, 0x09]), cs_direction = RightToLeft\<rparr>"
proof -
  let ?K = "tuple2_key u8_key u8_key" and ?X = "prefix2 u8_key u8_key"
  let ?calls = "[CallPrefix 3, CallSuffixRange (Included 1, Unbounded), CallDirection RightToLeft,
                 CallAfter (CursorKey [0x03, 0x07, 0x09])]"
  let ?ex = "IndexExecutor ''by_board'' ''__main'' ()"
  obtain sc where sc: "scan_calls PrefixEncoder ?K ?X ?calls (FullScan ?ex) = Some sc"
    by (simp add: builder_defs)
  have sel: "selected PrefixEncoder ?K ?X None (Unbounded, Unbounded) ?calls = (Included [0x03, 0x01], Excluded [0x04])"
    by (simp add: encode_prefixed_range_def encode_prefix_range_def encode_prefix_def Let_def prefix2_def
        tuple2_key_def u8_key_def unsigned_key_def size_of_def prefix_end_def)
  show ?thesis
    using builder_chain_compiles [OF sc, THEN conjunct1] sc
    by (intro exI [of _ sc]) (simp add: sel encoder_of_def del: selected.simps scan_calls.simps)
qed

end
