(* ===== verification/Gate.thy ===== *)
theory Gate
  imports Memory
begin

text \<open>
  The writer gate of \<open>src/backend/memory.rs\<close> with its threads: \<open>WriterGate\<close> is a mutex around a
  flag and a condition variable, \<open>write\<close> acquires it before it copies the published stores, and
  the permit of a write handle gives it back when the handle is dropped, after \<open>commit\<close> or
  without one. A step is one access to the shared state, so that every interleaving of the
  threads is a run of \<open>gate_step\<close>: \<open>wait\<close> frees the mutex and sleeps at once, may wake for no
  reason, and takes the mutex again before it returns; \<open>notify_one\<close> wakes one sleeper, any.
  The journal is not in the code: it records the edits of the committed transactions.
  \<open>prepare\<close> does not go through the gate; what that costs is the last section.
\<close>

section \<open>Threads\<close>

type_synonym thread = nat

datatype edit = SetEdit name bytes bytes | RemoveEdit name bytes

fun apply_edit :: "edit \<Rightarrow> stores \<Rightarrow> stores" where
  "apply_edit (SetEdit n k v) S = S(n \<mapsto> bt_insert k v (the (S n)))"
| "apply_edit (RemoveEdit n k) S = S(n \<mapsto> bt_remove k (the (S n)))"

fun edited_store :: "edit \<Rightarrow> name" where
  "edited_store (SetEdit n k v) = n"
| "edited_store (RemoveEdit n k) = n"

text \<open>
  Where a thread is: outside a transaction; in \<open>acquire\<close>, before the lock, at the test of the
  loop, asleep in \<open>wait\<close>, woken and before the lock again, past the loop; with the permit and
  no copy yet; with a write handle, its staged stores and the edits made on them; in the drop
  of the permit, before the lock, before the flag is cleared, before the notification, before
  the unlock.
\<close>

datatype pc =
    Outside | Locking | Testing | Waiting | Woken | Opened | Permitted
  | Writing "edit list" stores
  | Dropping | Clearing | Notifying | Unlocking

record threads =
  shared :: namespaced_state
  mutex :: "thread option"
  at_pc :: "thread \<Rightarrow> pc"
  journal :: "edit list list"

definition move :: "thread \<Rightarrow> pc \<Rightarrow> threads \<Rightarrow> threads" where
  "move t p s = s\<lparr>at_pc := (at_pc s)(t := p)\<rparr>"

definition set_open :: "bool \<Rightarrow> threads \<Rightarrow> threads" where
  "set_open b s = s\<lparr>shared := (shared s)\<lparr>writer_open := b\<rparr>\<rparr>"

definition publish :: "edit list \<Rightarrow> stores \<Rightarrow> threads \<Rightarrow> threads" where
  "publish es S s = s\<lparr>shared := (shared s)\<lparr>ns_stores := S\<rparr>, journal := journal s @ [es]\<rparr>"

definition threads_new :: "stores \<Rightarrow> threads" where
  "threads_new S =
     \<lparr>shared = namespaced_state_new S, mutex = None, at_pc = (\<lambda>_. Outside), journal = []\<rparr>"

lemma threads_simps [simp]:
  "at_pc (move t p s) = (at_pc s)(t := p)" "shared (move t p s) = shared s"
  "mutex (move t p s) = mutex s" "journal (move t p s) = journal s"
  "at_pc (set_open b s) = at_pc s" "shared (set_open b s) = (shared s)\<lparr>writer_open := b\<rparr>"
  "mutex (set_open b s) = mutex s" "journal (set_open b s) = journal s"
  "at_pc (publish es S s) = at_pc s" "shared (publish es S s) = (shared s)\<lparr>ns_stores := S\<rparr>"
  "mutex (publish es S s) = mutex s" "journal (publish es S s) = journal s @ [es]"
  by (simp_all add: move_def set_open_def publish_def)

section \<open>Steps\<close>

text \<open>The steps of the code of the gate and of \<open>write\<close>, which no caller decides.\<close>

inductive gate_step :: "thread \<Rightarrow> threads \<Rightarrow> threads \<Rightarrow> bool" where
  lock: "at_pc s t \<in> {Locking, Woken} \<Longrightarrow> mutex s = None \<Longrightarrow>
    gate_step t s (move t Testing (s\<lparr>mutex := Some t\<rparr>))"
| sleep: "at_pc s t = Testing \<Longrightarrow> writer_open (shared s) \<Longrightarrow>
    gate_step t s (move t Waiting (s\<lparr>mutex := None\<rparr>))"
| take: "at_pc s t = Testing \<Longrightarrow> \<not> writer_open (shared s) \<Longrightarrow>
    gate_step t s (move t Opened (set_open True s))"
| leave: "at_pc s t = Opened \<Longrightarrow> gate_step t s (move t Permitted (s\<lparr>mutex := None\<rparr>))"
| copy: "at_pc s t = Permitted \<Longrightarrow>
    gate_step t s (move t (Writing [] (ns_stores (shared s))) s)"
| relock: "at_pc s t = Dropping \<Longrightarrow> mutex s = None \<Longrightarrow>
    gate_step t s (move t Clearing (s\<lparr>mutex := Some t\<rparr>))"
| clear: "at_pc s t = Clearing \<Longrightarrow> gate_step t s (move t Notifying (set_open False s))"
| notify: "at_pc s t = Notifying \<Longrightarrow> at_pc s u = Waiting \<Longrightarrow>
    gate_step t s (move u Woken (move t Unlocking s))"
| notify_none: "at_pc s t = Notifying \<Longrightarrow> \<forall>u. at_pc s u \<noteq> Waiting \<Longrightarrow>
    gate_step t s (move t Unlocking s)"
| unlock: "at_pc s t = Unlocking \<Longrightarrow> gate_step t s (move t Outside (s\<lparr>mutex := None\<rparr>))"

text \<open>
  What the callers decide: to call \<open>write\<close>, to edit a staged store, to commit or to drop the
  handle; and a wake-up without a notification.
\<close>

inductive client_step :: "thread \<Rightarrow> threads \<Rightarrow> threads \<Rightarrow> bool" where
  call: "at_pc s t = Outside \<Longrightarrow> client_step t s (move t Locking s)"
| edit: "at_pc s t = Writing es S \<Longrightarrow> S (edited_store e) \<noteq> None \<Longrightarrow>
    client_step t s (move t (Writing (es @ [e]) (apply_edit e S)) s)"
| commit: "at_pc s t = Writing es S \<Longrightarrow> client_step t s (move t Dropping (publish es S s))"
| drop_handle: "at_pc s t = Writing es S \<Longrightarrow> client_step t s (move t Dropping s)"
| wake_spuriously: "at_pc s t = Waiting \<Longrightarrow> client_step t s (move t Woken s)"

inductive gate_reachable :: "stores \<Rightarrow> threads \<Rightarrow> bool" for S where
  start: "gate_reachable S (threads_new S)"
| gate: "gate_reachable S s \<Longrightarrow> gate_step t s s' \<Longrightarrow> gate_reachable S s'"
| client: "gate_reachable S s \<Longrightarrow> client_step t s s' \<Longrightarrow> gate_reachable S s'"

section \<open>Invariant\<close>

definition holds_mutex :: "pc \<Rightarrow> bool" where
  "holds_mutex p \<longleftrightarrow> p \<in> {Testing, Opened, Clearing, Notifying, Unlocking}"

fun owns_gate :: "pc \<Rightarrow> bool" where
  "owns_gate (Writing es S) = True"
| "owns_gate p = (p \<in> {Opened, Permitted, Dropping, Clearing})"

definition will_test :: "pc \<Rightarrow> bool" where
  "will_test p \<longleftrightarrow> p \<in> {Testing, Woken, Notifying}"

definition replay :: "edit list list \<Rightarrow> stores \<Rightarrow> stores" where
  "replay js = fold (fold apply_edit) js"

text \<open>The threads at a place of the kind \<open>Q\<close>: none, or the one that \<open>m\<close> names.\<close>

definition marks :: "(pc \<Rightarrow> bool) \<Rightarrow> (thread \<Rightarrow> pc) \<Rightarrow> thread option \<Rightarrow> bool" where
  "marks Q f m \<longleftrightarrow> (\<forall>t. Q (f t) \<longleftrightarrow> m = Some t)"

definition mutex_inv :: "threads \<Rightarrow> bool" where
  "mutex_inv s \<longleftrightarrow> marks holds_mutex (at_pc s) (mutex s)"

definition one_at :: "(pc \<Rightarrow> bool) \<Rightarrow> (thread \<Rightarrow> pc) \<Rightarrow> bool \<Rightarrow> bool" where
  "one_at Q f b \<longleftrightarrow> (\<exists>m. marks Q f m \<and> (b \<longleftrightarrow> m \<noteq> None))"

definition owner_inv :: "threads \<Rightarrow> bool" where
  "owner_inv s \<longleftrightarrow> one_at owns_gate (at_pc s) (writer_open (shared s))"

definition wakeup_inv :: "threads \<Rightarrow> bool" where
  "wakeup_inv s \<longleftrightarrow>
     (\<forall>t. \<not> writer_open (shared s) \<and> at_pc s t = Waiting \<longrightarrow> (\<exists>u. will_test (at_pc s u)))"

definition journal_inv :: "stores \<Rightarrow> threads \<Rightarrow> bool" where
  "journal_inv S s \<longleftrightarrow>
     ns_stores (shared s) = replay (journal s) S \<and>
     (\<forall>t es T. at_pc s t = Writing es T \<longrightarrow> T = fold apply_edit es (ns_stores (shared s)))"

section \<open>Preservation\<close>

inductive_cases gate_stepE: "gate_step t s s'"
inductive_cases client_stepE: "client_step t s s'"

lemma owns_iff: "owns_gate p \<longleftrightarrow> p \<in> {Opened, Permitted, Dropping, Clearing} \<or> (\<exists>es S. p = Writing es S)"
  by (cases p) auto

lemma marks_move:
  "marks Q f m \<Longrightarrow>
   m' = m \<and> Q p = Q (f t) \<or> m = None \<and> m' = Some t \<and> Q p \<or> m' = None \<and> Q (f t) \<and> \<not> Q p \<Longrightarrow>
   marks Q (f(t := p)) m'"
  by (auto simp: marks_def)

lemma one_at_move:
  "one_at Q f b \<Longrightarrow>
   b' = b \<and> Q p = Q (f t) \<or> \<not> b \<and> b' \<and> Q p \<or> \<not> b' \<and> Q (f t) \<and> \<not> Q p \<Longrightarrow>
   one_at Q (f(t := p)) b'"
  unfolding one_at_def by (metis marks_move option.distinct(1))

lemma one_at_unique: "one_at Q f b \<Longrightarrow> Q (f t) \<Longrightarrow> Q (f u) \<Longrightarrow> t = u"
  by (auto simp: marks_def one_at_def)

lemma one_at_flag: "one_at Q f b \<Longrightarrow> b \<longleftrightarrow> (\<exists>t. Q (f t))"
  by (auto simp: marks_def one_at_def)

lemma marks_unique: "marks Q f m \<Longrightarrow> Q (f t) \<Longrightarrow> Q (f u) \<Longrightarrow> t = u"
  by (auto simp: marks_def)

lemma holds_mutex_simps [simp]:
  "holds_mutex Testing" "holds_mutex Opened" "holds_mutex Clearing" "holds_mutex Notifying"
  "holds_mutex Unlocking" "\<not> holds_mutex Outside" "\<not> holds_mutex Locking" "\<not> holds_mutex Waiting"
  "\<not> holds_mutex Woken" "\<not> holds_mutex Permitted" "\<not> holds_mutex (Writing es S)"
  "\<not> holds_mutex Dropping"
  by (simp_all add: holds_mutex_def)

lemma mutex_inv_gate: "gate_step t s s' \<Longrightarrow> mutex_inv s \<Longrightarrow> mutex_inv s'"
proof (induction rule: gate_step.induct)
  case (notify s t u)
  then show ?case
    unfolding mutex_inv_def by (simp, intro marks_move [where m = "mutex s"]) auto
qed (auto simp: mutex_inv_def elim!: marks_move)

lemma mutex_inv_client: "client_step t s s' \<Longrightarrow> mutex_inv s \<Longrightarrow> mutex_inv s'"
  unfolding mutex_inv_def by (erule client_stepE) (auto elim!: marks_move)

lemma owner_inv_gate: "gate_step t s s' \<Longrightarrow> owner_inv s \<Longrightarrow> owner_inv s'"
proof (induction rule: gate_step.induct)
  case (notify s t u)
  then show ?case
    unfolding owner_inv_def
    by (simp, intro one_at_move [where b = "writer_open (shared s)"]) auto
qed (auto simp: owner_inv_def elim!: one_at_move)

lemma owner_inv_client: "client_step t s s' \<Longrightarrow> owner_inv s \<Longrightarrow> owner_inv s'"
  unfolding owner_inv_def by (erule client_stepE) (auto elim!: one_at_move)

lemma replay_snoc: "replay (js @ [es]) S = fold apply_edit es (replay js S)"
  by (simp add: replay_def)

lemma will_test_simps [simp]:
  "will_test Testing" "will_test Woken" "will_test Notifying"
  by (simp_all add: will_test_def)

text \<open>A step that keeps the sleepers and leaves a thread that will test the flag.\<close>

lemma wakeup_inv_move:
  "wakeup_inv s \<Longrightarrow> at_pc s' = at_pc s \<Longrightarrow> (writer_open (shared s) \<Longrightarrow> writer_open (shared s')) \<Longrightarrow>
   p \<noteq> Waiting \<Longrightarrow> will_test (at_pc s t) \<longrightarrow> will_test p \<Longrightarrow> wakeup_inv (move t p s')"
  unfolding wakeup_inv_def by simp metis

lemma wakeup_inv_open: "writer_open (shared s) \<Longrightarrow> wakeup_inv s"
  by (simp add: wakeup_inv_def)

lemma wakeup_inv_tester: "will_test (at_pc s t) \<Longrightarrow> wakeup_inv s"
  by (auto simp: wakeup_inv_def)

lemma wakeup_inv_gate: "gate_step t s s' \<Longrightarrow> wakeup_inv s \<Longrightarrow> wakeup_inv s'"
proof (induction rule: gate_step.induct)
  case (notify s t u)
  then show ?case by (intro wakeup_inv_tester [where t = u]) simp
next
  case (notify_none s t)
  then show ?case by (auto simp: wakeup_inv_def split: if_splits)
next
  case (lock s t)
  then show ?case by (intro wakeup_inv_tester [where t = t]) simp
next
  case (clear s t)
  then show ?case by (intro wakeup_inv_tester [where t = t]) simp
next
  case (take s t)
  then show ?case by (intro wakeup_inv_open) simp
next
  case (sleep s t)
  then show ?case by (intro wakeup_inv_open) simp
qed (auto simp: will_test_def elim!: wakeup_inv_move)

lemma wakeup_inv_client: "client_step t s s' \<Longrightarrow> wakeup_inv s \<Longrightarrow> wakeup_inv s'"
  by (erule client_stepE) (auto simp: will_test_def elim!: wakeup_inv_move)

text \<open>A thread that publishes is the only one with staged stores.\<close>

lemma journal_inv_gate: "gate_step t s s' \<Longrightarrow> journal_inv S s \<Longrightarrow> journal_inv S s'"
  by (erule gate_stepE) (auto simp: journal_inv_def split: if_splits)

lemma journal_inv_client:
  assumes "client_step t s s'" and "owner_inv s" and "journal_inv S s"
  shows "journal_inv S s'"
  using assms
proof (induction rule: client_step.induct)
  case (commit s t es T)
  then have "at_pc s u \<noteq> Writing fs U" if "u \<noteq> t" for u fs U
    using that one_at_unique [of owns_gate "at_pc s" "writer_open (shared s)" t u]
    by (auto simp: owner_inv_def)
  with commit show ?case by (auto simp: journal_inv_def replay_snoc)
qed (auto simp: journal_inv_def split: if_splits)

section \<open>Reachable states\<close>

lemma gate_reachable_inv:
  "gate_reachable S s \<Longrightarrow> mutex_inv s \<and> owner_inv s \<and> wakeup_inv s \<and> journal_inv S s"
proof (induction rule: gate_reachable.induct)
  case start
  then show ?case
    by (auto simp: threads_new_def namespaced_state_new_def mutex_inv_def owner_inv_def wakeup_inv_def
        journal_inv_def one_at_def marks_def replay_def)
next
  case (gate s t s')
  then show ?case
    by (blast intro: mutex_inv_gate owner_inv_gate wakeup_inv_gate journal_inv_gate)
next
  case (client s t s')
  then show ?case
    by (blast intro: mutex_inv_client owner_inv_client wakeup_inv_client journal_inv_client)
qed

lemmas reachable_mutex = gate_reachable_inv [THEN conjunct1]
  and reachable_owner = gate_reachable_inv [THEN conjunct2, THEN conjunct1]
  and reachable_wakeup = gate_reachable_inv [THEN conjunct2, THEN conjunct2, THEN conjunct1]
  and reachable_journal = gate_reachable_inv [THEN conjunct2, THEN conjunct2, THEN conjunct2]

section \<open>Progress\<close>

text \<open>
  A bound on the steps the gate can make before a caller decides something: a notification
  costs more than the wake-up it causes.
\<close>

fun rank :: "pc \<Rightarrow> nat" where
  "rank Outside = 0" | "rank (Writing es S) = 0" | "rank Waiting = 0" | "rank Permitted = 1"
| "rank Unlocking = 1" | "rank Opened = 2" | "rank Testing = 3" | "rank Woken = 4"
| "rank Locking = 4" | "rank Notifying = 6" | "rank Clearing = 7" | "rank Dropping = 8"

definition work :: "nat \<Rightarrow> threads \<Rightarrow> nat" where
  "work n s = (\<Sum>t<n. rank (at_pc s t))"

definition callers_below :: "nat \<Rightarrow> threads \<Rightarrow> bool" where
  "callers_below n s \<longleftrightarrow> (\<forall>t\<ge>n. at_pc s t = Outside)"

text \<open>Inside \<open>acquire\<close> or past it, with no write handle yet.\<close>

definition acquiring :: "pc \<Rightarrow> bool" where
  "acquiring p \<longleftrightarrow> p \<in> {Locking, Testing, Waiting, Woken, Opened, Permitted}"

definition has_handle :: "pc \<Rightarrow> bool" where
  "has_handle p \<longleftrightarrow> (\<exists>es S. p = Writing es S)"

text \<open>However the steps of the gate are scheduled, a thread gets a write handle.\<close>

inductive hands_over :: "threads \<Rightarrow> bool" where
  now: "has_handle (at_pc s t) \<Longrightarrow> hands_over s"
| later: "\<exists>t s'. gate_step t s s' \<Longrightarrow> (\<And>t s'. gate_step t s s' \<Longrightarrow> hands_over s') \<Longrightarrow> hands_over s"

lemma work_move:
  "at_pc s' = at_pc s \<Longrightarrow> t < n \<Longrightarrow> work n (move t p s') + rank (at_pc s t) = work n s + rank p"
  by (simp add: work_def sum.remove [of "{..<n}" t])

lemma callers_below_at: "callers_below n s \<Longrightarrow> at_pc s t \<noteq> Outside \<Longrightarrow> t < n"
  by (metis callers_below_def not_less)

lemma work_less:
  "at_pc s' = at_pc s \<Longrightarrow> callers_below n s \<Longrightarrow> rank p < rank (at_pc s t) \<Longrightarrow>
   work n (move t p s') < work n s"
  using work_move [of s' s t n p] callers_below_at [of n s t] by (cases "at_pc s t") auto

lemma gate_step_work: "gate_step t s s' \<Longrightarrow> callers_below n s \<Longrightarrow> work n s' < work n s"
proof (induction rule: gate_step.induct)
  case (notify s t u)
  then have "t < n" "u < n" "u \<noteq> t"
    by (auto intro: callers_below_at)
  then show ?case
    using notify work_move [of s s t n Unlocking]
      work_move [of "move t Unlocking s" "move t Unlocking s" u n Woken]
    by simp
qed (auto intro!: work_less)

lemma gate_step_callers: "gate_step t s s' \<Longrightarrow> callers_below n s \<Longrightarrow> callers_below n s'"
  by (erule gate_stepE) (auto simp: callers_below_def)

lemma gate_step_acquiring:
  "gate_step t s s' \<Longrightarrow> acquiring (at_pc s u) \<Longrightarrow> acquiring (at_pc s' u) \<or> has_handle (at_pc s' u)"
  by (erule gate_stepE) (auto simp: acquiring_def has_handle_def)

text \<open>When the gate cannot move, every thread is outside, asleep or writing.\<close>

lemma gate_stuck:
  assumes "mutex_inv s" and stuck: "\<not> (\<exists>t s'. gate_step t s s')"
  shows "at_pc s t \<in> {Outside, Waiting} \<or> has_handle (at_pc s t)"
proof -
  have free: "\<not> holds_mutex (at_pc s u) \<and> at_pc s u \<noteq> Permitted" for u
    using stuck gate_step.intros [of s u] unfolding holds_mutex_def by blast
  then have "mutex s = None"
    using assms(1) by (auto simp: mutex_inv_def marks_def)
  then show ?thesis
    using stuck free [of t] lock [of s t] relock [of s t]
    by (cases "at_pc s t") (auto simp: has_handle_def)
qed

lemma gate_moves:
  assumes inv: "mutex_inv s" "owner_inv s" "wakeup_inv s" and "acquiring (at_pc s t)"
    and "\<And>u. \<not> has_handle (at_pc s u)"
  shows "\<exists>t s'. gate_step t s s'"
proof (rule ccontr)
  assume stuck: "\<not> ?thesis"
  then have quiet: "at_pc s u \<in> {Outside, Waiting}" for u
    using gate_stuck [OF inv(1) stuck] assms(5) by blast
  have "\<not> owns_gate (at_pc s u)" for u
    using quiet [of u] by (auto simp: owns_iff)
  then have "\<not> writer_open (shared s)"
    using inv(2) by (auto simp: owner_inv_def dest: one_at_flag)
  moreover have "at_pc s t = Waiting"
    using quiet [of t] assms(4) by (auto simp: acquiring_def)
  ultimately obtain u where "will_test (at_pc s u)"
    using inv(3) by (auto simp: wakeup_inv_def)
  then show False
    using quiet [of u] by (auto simp: will_test_def)
qed

lemma hands_over_acquiring:
  "gate_reachable S s \<Longrightarrow> callers_below n s \<Longrightarrow> acquiring (at_pc s t) \<or> has_handle (at_pc s t) \<Longrightarrow> hands_over s"
proof (induction "work n s" arbitrary: s rule: less_induct)
  case less
  show ?case
  proof (cases "\<exists>u. has_handle (at_pc s u)")
    case True
    then show ?thesis by (blast intro: hands_over.now)
  next
    case False
    then have t: "acquiring (at_pc s t)"
      using less.prems by blast
    have "\<exists>t s'. gate_step t s s'"
      using False t gate_reachable_inv [OF less.prems(1)] by (blast intro: gate_moves)
    moreover have "hands_over s'" if "gate_step u s s'" for u s'
      using less.hyps [of s'] that less.prems t gate_step_acquiring [OF that t]
      by (blast intro: gate_step_work gate_step_callers gate_reachable.gate)
    ultimately show ?thesis
      by (rule hands_over.later)
  qed
qed

section \<open>The gate run by one thread\<close>

text \<open>Steps of the gate by the thread \<open>t\<close> alone.\<close>

definition alone :: "thread \<Rightarrow> threads \<Rightarrow> threads \<Rightarrow> bool" where
  "alone t = (gate_step t)\<^sup>*\<^sup>*"

lemma alone_refl: "alone t s s"
  by (simp add: alone_def)

lemma alone_step: "alone t s s' \<Longrightarrow> gate_step t s' s'' \<Longrightarrow> alone t s s''"
  by (simp add: alone_def)

lemma alone_lock:
  "at_pc s t = Locking \<Longrightarrow> mutex s = None \<Longrightarrow> alone t s (move t Testing (s\<lparr>mutex := Some t\<rparr>))"
  by (rule alone_step [OF alone_refl]) (simp add: gate_step.lock)

text \<open>
  What the sequential model calls \<open>gate_acquire\<close>: a thread that finds the flag clear gets the
  permit, and one that finds it set falls asleep.
\<close>

lemma acquire_alone:
  assumes "at_pc s t = Locking" and "mutex s = None" and "gate_acquire (shared s) = Ret st"
  shows "\<exists>s'. alone t s s' \<and> at_pc s' t = Permitted \<and> shared s' = st \<and> mutex s' = None"
proof -
  let ?s1 = "move t Testing (s\<lparr>mutex := Some t\<rparr>)"
  let ?s2 = "move t Opened (set_open True ?s1)"
  let ?s3 = "move t Permitted (?s2\<lparr>mutex := None\<rparr>)"
  have clear: "\<not> writer_open (shared s)" and st: "st = (shared s)\<lparr>writer_open := True\<rparr>"
    using assms(3) by (auto simp: gate_acquire_def split: if_splits)
  have "alone t s ?s1"
    using assms by (intro alone_lock)
  moreover have "gate_step t ?s1 ?s2"
    using clear by (intro gate_step.take) simp_all
  moreover have "gate_step t ?s2 ?s3"
    by (intro gate_step.leave) simp
  ultimately have "alone t s ?s3"
    by (blast intro: alone_step)
  then show ?thesis
    using st by (intro exI [of _ ?s3]) simp
qed

lemma acquire_hung_alone:
  assumes "at_pc s t = Locking" and "mutex s = None" and "gate_acquire (shared s) = Hung"
  shows "\<exists>s'. alone t s s' \<and> at_pc s' t = Waiting \<and> shared s' = shared s \<and> mutex s' = None"
proof -
  let ?s1 = "move t Testing (s\<lparr>mutex := Some t\<rparr>)"
  let ?s2 = "move t Waiting (?s1\<lparr>mutex := None\<rparr>)"
  have "writer_open (shared s)"
    using assms(3) by (auto simp: gate_acquire_def split: if_splits)
  then have "gate_step t ?s1 ?s2"
    by (intro gate_step.sleep) simp_all
  then have "alone t s ?s2"
    using assms by (blast intro: alone_step alone_lock)
  then show ?thesis
    by (intro exI [of _ ?s2]) simp
qed

section \<open>Some reachable states\<close>

lemma reach_writing:
  assumes "gate_reachable S s" and "at_pc s t = Outside" and "mutex s = None"
    and "\<not> writer_open (shared s)"
  shows "gate_reachable S (move t (Writing [] (ns_stores (shared s))) (set_open True s))"
proof -
  let ?s1 = "move t Locking s"
  let ?s2 = "move t Testing (?s1\<lparr>mutex := Some t\<rparr>)"
  let ?s3 = "move t Opened (set_open True ?s2)"
  let ?s4 = "move t Permitted (?s3\<lparr>mutex := None\<rparr>)"
  let ?s5 = "move t (Writing [] (ns_stores (shared s))) ?s4"
  have "client_step t s ?s1" "gate_step t ?s1 ?s2" "gate_step t ?s2 ?s3" "gate_step t ?s3 ?s4"
    using assms by (auto intro!: client_step.call gate_step.lock gate_step.take gate_step.leave)
  moreover have "gate_step t ?s4 ?s5"
    using gate_step.copy [of ?s4 t] by simp
  ultimately have "gate_reachable S ?s5"
    by (rule gate_reachable.gate [OF gate_reachable.gate [OF gate_reachable.gate
          [OF gate_reachable.gate [OF gate_reachable.client [OF assms(1)]]]]])
  then show ?thesis
    using assms(3) by (cases s) (simp add: move_def set_open_def)
qed

lemma reach_waiting:
  assumes "gate_reachable S s" and "at_pc s t = Outside" and "mutex s = None"
    and "writer_open (shared s)"
  shows "gate_reachable S (move t Waiting s)"
proof -
  let ?s1 = "move t Locking s"
  let ?s2 = "move t Testing (?s1\<lparr>mutex := Some t\<rparr>)"
  let ?s3 = "move t Waiting (?s2\<lparr>mutex := None\<rparr>)"
  have "client_step t s ?s1" "gate_step t ?s1 ?s2" "gate_step t ?s2 ?s3"
    using assms by (auto intro!: client_step.call gate_step.lock gate_step.sleep)
  then have "gate_reachable S ?s3"
    by (rule gate_reachable.gate [OF gate_reachable.gate [OF gate_reachable.client [OF assms(1)]]])
  then show ?thesis
    using assms(3) by (cases s) (simp add: move_def)
qed

text \<open>Thread 0 has committed an edit, while thread 1 waits.\<close>

definition one_store :: stores where
  "one_store = [''__main'' \<mapsto> []]"

definition main_set :: edit where
  "main_set = SetEdit ''__main'' [0x01] [0x02]"

definition contended :: threads where
  "contended =
     \<lparr>shared = \<lparr>ns_stores = [''__main'' \<mapsto> [([0x01], [0x02])]], writer_open = True\<rparr>, mutex = None,
      at_pc = (\<lambda>_. Outside)(0 := Dropping, 1 := Waiting), journal = [[main_set]]\<rparr>"

lemma contended_reachable: "gate_reachable one_store contended"
proof -
  let ?s1 = "move 0 (Writing [] one_store) (set_open True (threads_new one_store))"
  let ?s2 = "move 0 (Writing [main_set] (apply_edit main_set one_store)) ?s1"
  let ?s3 = "move 1 Waiting ?s2"
  let ?s4 = "move 0 Dropping (publish [main_set] (apply_edit main_set one_store) ?s3)"
  have new: "at_pc (threads_new one_store) = (\<lambda>_. Outside)" "mutex (threads_new one_store) = None"
    "shared (threads_new one_store) = \<lparr>ns_stores = one_store, writer_open = False\<rparr>"
    by (simp_all add: threads_new_def namespaced_state_new_def)
  have "gate_reachable one_store ?s1"
    using reach_writing [OF gate_reachable.start [of one_store], of 0] new by simp
  moreover have "client_step 0 ?s1 ?s2"
    using client_step.edit [of ?s1 0 "[]" one_store main_set]
    by (simp add: one_store_def main_set_def)
  ultimately have "gate_reachable one_store ?s2"
    by (rule gate_reachable.client)
  then have "gate_reachable one_store ?s3"
    using new by (intro reach_waiting) simp_all
  moreover have "client_step 0 ?s3 ?s4"
    by (intro client_step.commit) simp
  ultimately have "gate_reachable one_store ?s4"
    by (rule gate_reachable.client)
  moreover have "?s4 = contended"
    by (simp add: contended_def threads_new_def namespaced_state_new_def move_def set_open_def
        publish_def one_store_def main_set_def fun_eq_iff)
  ultimately show ?thesis by simp
qed

section \<open>Properties\<close>

text \<open>In every interleaving of the threads, at most one of them is past the gate, and while
  one has a write handle the flag of the gate is set and no other thread has a handle.\<close>

lemma gate_mutual_exclusion:
  assumes "gate_reachable S s" and "owns_gate (at_pc s t)"
  shows "writer_open (shared s) \<and> (\<forall>u. u \<noteq> t \<longrightarrow> \<not> owns_gate (at_pc s u))"
  using reachable_owner [OF assms(1)] assms(2)
  by (auto simp: owner_inv_def dest: one_at_unique one_at_flag)

lemma gate_mutual_exclusion_witness:
  "writer_open (shared contended) \<and> \<not> owns_gate (at_pc contended 1)"
  using gate_mutual_exclusion [OF contended_reachable, of 0] by (simp add: contended_def)

text \<open>No update is lost. In every interleaving, the published stores are what the committed
  transactions give when they run one after the other in the order of their commits, and the
  staged stores of a write handle are its own edits applied to the stores that are published
  now, not to older ones. A handle that was dropped leaves no trace.\<close>

lemma gate_serialises:
  assumes "gate_reachable S s"
  shows "ns_stores (shared s) = replay (journal s) S \<and>
         (\<forall>t es T. at_pc s t = Writing es T \<longrightarrow> T = replay (journal s @ [es]) S)"
  using reachable_journal [OF assms] by (auto simp: journal_inv_def replay_snoc)

lemma gate_serialises_witness:
  "ns_stores (shared contended) = replay (journal contended) one_store"
  using gate_serialises [OF contended_reachable] by blast

text \<open>The gate never loses a wake-up and never deadlocks. When a thread is inside \<open>write\<close>, the
  steps of the gate alone, in whatever order they are scheduled and with no spurious wake-up,
  end in a state where some thread has a write handle; \<open>notify_one\<close> may wake any sleeper.\<close>

lemma gate_hands_over:
  assumes "gate_reachable S s" and "callers_below n s" and "acquiring (at_pc s t)"
  shows "hands_over s"
  using hands_over_acquiring assms by blast

lemma gate_hands_over_witness: "hands_over contended"
  by (rule gate_hands_over [OF contended_reachable, of 2 1])
    (simp_all add: contended_def callers_below_def acquiring_def)

text \<open>The sequential model of the gate is the code run by one thread: when the mutex is free,
  the steps of \<open>acquire\<close> lead to the state that \<open>gate_acquire\<close> returns and to the permit, and to
  sleep with the shared state unchanged when \<open>gate_acquire\<close> hangs.\<close>

lemma gate_acquire_correct:
  assumes "at_pc s t = Locking" and "mutex s = None"
  shows "(\<exists>s'. alone t s s' \<and> mutex s' = None \<and>
           (case gate_acquire (shared s) of
              Ret st \<Rightarrow> at_pc s' t = Permitted \<and> shared s' = st
            | _ \<Rightarrow> at_pc s' t = Waiting \<and> shared s' = shared s))"
  using acquire_alone [OF assms] acquire_hung_alone [OF assms]
  by (cases "writer_open (shared s)") (fastforce simp: gate_acquire_def)+

lemma gate_acquire_correct_witness:
  "\<exists>s'. alone 0 (move 0 Locking (threads_new one_store)) s' \<and> at_pc s' 0 = Permitted"
  using gate_acquire_correct [of "move 0 Locking (threads_new one_store)" 0]
  by (auto simp: threads_new_def namespaced_state_new_def gate_acquire_def move_def)

text \<open>\<open>prepare\<close> does not wait for the gate: a store that it adds to the namespace while a write
  handle is open is gone once the handle commits, and opening it panics.\<close>

lemma commit_forgets_prepared:
  assumes "memory_write ns db = Ret (tx, db1)" and "memory_prepare ns names db1 = Ret db2"
    and "memory_commit tx db2 = (res, db3)" and "memory_abs db ns = Some S" and "S n = None"
  shows "res = Ret () \<and> and_then (memory_read ns db3) (memory_open n) = Panicked \<and>
         (n \<in> set names \<longrightarrow> and_then (memory_read ns db2) (memory_open n) = Ret [])"
proof -
  obtain st where st: "db ns = Some st" "ns_stores st = S" "\<not> writer_open st"
    using assms(1,4) by (auto simp: memory_write_def memory_abs_def gate_acquire_def split: if_splits)
  then have tx: "tx = \<lparr>mwh_namespace = ns, mwh_staged = S\<rparr>" "db1 = db(ns \<mapsto> st\<lparr>writer_open := True\<rparr>)"
    using assms(1) by (auto simp: memory_write_def gate_acquire_def)
  then have "db2 = db1(ns \<mapsto> st\<lparr>writer_open := True, ns_stores := prepared_stores names S\<rparr>)"
    using assms(2) st by (auto simp: memory_prepare_eq)
  then show ?thesis
    using assms(3,5) tx
    by (auto simp: memory_commit_def memory_read_def memory_open_def permit_drop_def Let_def
        prepared_stores_def)
qed

lemma commit_forgets_prepared_witness:
  "\<exists>tx db1 db2 db3.
     memory_write ''tasks'' [''tasks'' \<mapsto> namespaced_state_new one_store] = Ret (tx, db1) \<and>
     memory_prepare ''tasks'' [''__main'', ''by_slot''] db1 = Ret db2 \<and>
     memory_commit tx db2 = (Ret (), db3) \<and>
     and_then (memory_read ''tasks'' db3) (memory_open ''by_slot'') = Panicked"
proof -
  let ?db = "[''tasks'' \<mapsto> namespaced_state_new one_store]"
  obtain tx db1 where w: "memory_write ''tasks'' ?db = Ret (tx, db1)"
    by (simp add: memory_write_def gate_acquire_def namespaced_state_new_def)
  obtain db2 where p: "memory_prepare ''tasks'' [''__main'', ''by_slot''] db1 = Ret db2"
    by (simp add: memory_prepare_eq)
  obtain res db3 where c: "memory_commit tx db2 = (res, db3)"
    by fastforce
  show ?thesis
    using commit_forgets_prepared [OF w p c, of one_store "''by_slot''"] w p c
    by (auto simp: memory_abs_def namespaced_state_new_def one_store_def)
qed

end
