(* ===== verification/Locks.thy ===== *)
theory Locks
  imports Gate
begin

text \<open>
  All calls of the in-memory backend at once: \<open>prepare\<close>, \<open>read\<close> and \<open>write\<close> of
  \<open>src/backend/memory.rs\<close> take the \<open>RwLock\<close> around the map of namespaces, \<open>prepare\<close> for writing
  and the others for reading; \<open>read\<close> and \<open>write\<close> hold it until they return, and \<open>write\<close> waits for
  the writer gate meanwhile. The system is the threads at the gate of one namespace and, for
  each thread, the call it is in. \<open>std::sync::RwLock\<close> leaves open whether a reader may overtake a
  waiting writer; the steps have a policy for it as a parameter. The inner \<open>RwLock\<close> around the
  published stores is held for one access each time, which is one step. The read handles that
  were given out, and how often \<open>prepare\<close> was called, are recorded for the statements.
\<close>

section \<open>Calls\<close>

text \<open>
  The call a thread is in: none; \<open>read\<close> or \<open>write\<close> before the lock of the map; with its read
  guard; \<open>prepare\<close> before the lock, with the write guard, and with the next stores computed and
  not published yet.
\<close>

datatype call =
    Idle | ReadWait | ReadHeld | WriteWait | InWrite
  | PrepareWait "name list" | PrepareHeld "name list" | PrepareNext stores

fun guards_map :: "call \<Rightarrow> bool" where
  "guards_map ReadHeld = True" | "guards_map InWrite = True" | "guards_map c = False"

fun owns_map :: "call \<Rightarrow> bool" where
  "owns_map (PrepareHeld names) = True" | "owns_map (PrepareNext S) = True" | "owns_map c = False"

fun wants_map :: "call \<Rightarrow> bool" where
  "wants_map (PrepareWait names) = True" | "wants_map c = False"

record system =
  gate :: threads
  doing :: "thread \<Rightarrow> call"
  read_handles :: "stores list"
  prepare_calls :: nat

definition system_new :: "stores \<Rightarrow> system" where
  "system_new S = \<lparr>gate = threads_new S, doing = (\<lambda>_. Idle), read_handles = [], prepare_calls = 0\<rparr>"

definition goes :: "thread \<Rightarrow> call \<Rightarrow> system \<Rightarrow> system" where
  "goes t c s = s\<lparr>doing := (doing s)(t := c)\<rparr>"

definition open_read :: "system \<Rightarrow> system" where
  "open_read s = s\<lparr>read_handles := read_handles s @ [ns_stores (shared (gate s))]\<rparr>"

text \<open>The stores that \<open>prepare\<close> makes of the current ones.\<close>

definition next_stores :: "name list \<Rightarrow> stores \<Rightarrow> stores" where
  "next_stores names current =
     collect_map (List.map (\<lambda>store. (store, case current store of None \<Rightarrow> [] | Some kv \<Rightarrow> kv)) names)"

definition replace_stores :: "stores \<Rightarrow> threads \<Rightarrow> threads" where
  "replace_stores S g = g\<lparr>shared := (shared g)\<lparr>ns_stores := S\<rparr>\<rparr>"

text \<open>\<open>RwLock\<close>: any number of readers or one writer; the policy \<open>pol\<close> for waiting writers.\<close>

definition may_read :: "(system \<Rightarrow> bool) \<Rightarrow> system \<Rightarrow> bool" where
  "may_read pol s \<longleftrightarrow> (\<forall>u. \<not> owns_map (doing s u)) \<and> ((\<forall>u. \<not> wants_map (doing s u)) \<or> pol s)"

definition may_write :: "system \<Rightarrow> bool" where
  "may_write s \<longleftrightarrow> (\<forall>u. \<not> owns_map (doing s u) \<and> \<not> guards_map (doing s u))"

section \<open>Steps\<close>

inductive system_step :: "(system \<Rightarrow> bool) \<Rightarrow> thread \<Rightarrow> system \<Rightarrow> system \<Rightarrow> bool" for pol where
  read_lock: "doing s t = ReadWait \<Longrightarrow> may_read pol s \<Longrightarrow> system_step pol t s (goes t ReadHeld s)"
| read_return: "doing s t = ReadHeld \<Longrightarrow> system_step pol t s (goes t Idle (open_read s))"
| write_lock: "doing s t = WriteWait \<Longrightarrow> may_read pol s \<Longrightarrow>
    system_step pol t s (goes t InWrite (s\<lparr>gate := move t Locking (gate s)\<rparr>))"
| at_gate: "gate_step t (gate s) g \<Longrightarrow> system_step pol t s (s\<lparr>gate := g\<rparr>)"
| write_return: "doing s t = InWrite \<Longrightarrow> has_handle (at_pc (gate s) t) \<Longrightarrow>
    system_step pol t s (goes t Idle s)"
| prepare_lock: "doing s t = PrepareWait names \<Longrightarrow> may_write s \<Longrightarrow>
    system_step pol t s (goes t (PrepareHeld names) s)"
| prepare_current: "doing s t = PrepareHeld names \<Longrightarrow>
    system_step pol t s (goes t (PrepareNext (next_stores names (ns_stores (shared (gate s))))) s)"
| prepare_return: "doing s t = PrepareNext S \<Longrightarrow>
    system_step pol t s (goes t Idle (s\<lparr>gate := replace_stores S (gate s)\<rparr>))"

text \<open>
  What callers decide: to call, with a write handle or without, and what to do with the handle;
  and a spurious wake-up.
\<close>

inductive caller_step :: "thread \<Rightarrow> system \<Rightarrow> system \<Rightarrow> bool" where
  call_read: "doing s t = Idle \<Longrightarrow> at_pc (gate s) t = Outside \<or> has_handle (at_pc (gate s) t) \<Longrightarrow>
    caller_step t s (goes t ReadWait s)"
| call_prepare: "doing s t = Idle \<Longrightarrow> at_pc (gate s) t = Outside \<or> has_handle (at_pc (gate s) t) \<Longrightarrow>
    caller_step t s (goes t (PrepareWait names) (s\<lparr>prepare_calls := Suc (prepare_calls s)\<rparr>))"
| call_write: "doing s t = Idle \<Longrightarrow> at_pc (gate s) t = Outside \<Longrightarrow> caller_step t s (goes t WriteWait s)"
| use_handle: "doing s t = Idle \<Longrightarrow> has_handle (at_pc (gate s) t) \<Longrightarrow> client_step t (gate s) g \<Longrightarrow>
    caller_step t s (s\<lparr>gate := g\<rparr>)"
| wake: "at_pc (gate s) t = Waiting \<Longrightarrow> client_step t (gate s) g \<Longrightarrow> caller_step t s (s\<lparr>gate := g\<rparr>)"

inductive system_reachable :: "(system \<Rightarrow> bool) \<Rightarrow> stores \<Rightarrow> system \<Rightarrow> bool" for pol S where
  start: "system_reachable pol S (system_new S)"
| system: "system_reachable pol S s \<Longrightarrow> system_step pol t s s' \<Longrightarrow> system_reachable pol S s'"
| caller: "system_reachable pol S s \<Longrightarrow> caller_step t s s' \<Longrightarrow> system_reachable pol S s'"

lemma system_simps [simp]:
  "gate (goes t c s) = gate s" "doing (goes t c s) = (doing s)(t := c)"
  "read_handles (goes t c s) = read_handles s" "prepare_calls (goes t c s) = prepare_calls s"
  "gate (open_read s) = gate s" "doing (open_read s) = doing s"
  "read_handles (open_read s) = read_handles s @ [ns_stores (shared (gate s))]"
  "prepare_calls (open_read s) = prepare_calls s"
  "at_pc (replace_stores S g) = at_pc g" "mutex (replace_stores S g) = mutex g"
  "shared (replace_stores S g) = (shared g)\<lparr>ns_stores := S\<rparr>" "journal (replace_stores S g) = journal g"
  by (simp_all add: goes_def open_read_def replace_stores_def)

lemma next_stores_eq: "next_stores names S = prepared_stores names S"
  by (simp add: next_stores_def collect_map_tabulate prepared_stores_def)

section \<open>Invariants\<close>

inductive_cases system_stepE: "system_step pol t s s'"
inductive_cases caller_stepE: "caller_step t s s'"

definition gate_inv :: "threads \<Rightarrow> bool" where
  "gate_inv g \<longleftrightarrow> mutex_inv g \<and> owner_inv g \<and> wakeup_inv g"

lemma gate_inv_step: "gate_step t g g' \<Longrightarrow> gate_inv g \<Longrightarrow> gate_inv g'"
  unfolding gate_inv_def by (blast intro: mutex_inv_gate owner_inv_gate wakeup_inv_gate)

lemma gate_inv_client: "client_step t g g' \<Longrightarrow> gate_inv g \<Longrightarrow> gate_inv g'"
  unfolding gate_inv_def by (blast intro: mutex_inv_client owner_inv_client wakeup_inv_client)

lemma gate_inv_call:
  "at_pc g t = Outside \<Longrightarrow> gate_inv g \<Longrightarrow> gate_inv (move t Locking g)"
  by (rule gate_inv_client [OF client_step.call])

lemma gate_inv_replace: "gate_inv g \<Longrightarrow> gate_inv (replace_stores S g)"
  by (simp add: gate_inv_def mutex_inv_def owner_inv_def wakeup_inv_def)

text \<open>Where a thread is at the gate, by the call it is in.\<close>

fun call_at :: "call \<Rightarrow> pc \<Rightarrow> bool" where
  "call_at Idle p \<longleftrightarrow> \<not> acquiring p"
| "call_at InWrite p \<longleftrightarrow> acquiring p \<or> has_handle p"
| "call_at WriteWait p \<longleftrightarrow> p = Outside"
| "call_at c p \<longleftrightarrow> p = Outside \<or> has_handle p"

definition call_inv :: "system \<Rightarrow> bool" where
  "call_inv s \<longleftrightarrow> (\<forall>t. call_at (doing s t) (at_pc (gate s) t))"

definition map_inv :: "system \<Rightarrow> bool" where
  "map_inv s \<longleftrightarrow> (\<forall>t u. owns_map (doing s t) \<and> u \<noteq> t \<longrightarrow>
     \<not> owns_map (doing s u) \<and> \<not> guards_map (doing s u))"

lemma map_inv_goes:
  assumes "map_inv s" "doing s' = doing s"
    and "owns_map c \<Longrightarrow> owns_map (doing s t) \<or> may_write s"
    and "guards_map c \<Longrightarrow> guards_map (doing s t) \<or> (\<forall>u. \<not> owns_map (doing s u))"
  shows "map_inv (goes t c s')"
proof -
  have "\<not> (owns_map c \<and> guards_map c)" by (cases c) auto
  then show ?thesis
    using assms unfolding map_inv_def may_write_def by (auto split: if_splits) metis+
qed

lemma map_inv_step: "system_step pol t s s' \<Longrightarrow> map_inv s \<Longrightarrow> map_inv s'"
proof (induction rule: system_step.induct)
  case (at_gate t s g)
  then show ?case by (simp add: map_inv_def)
qed (erule map_inv_goes; simp add: may_read_def)+

lemma map_inv_caller: "caller_step t s s' \<Longrightarrow> map_inv s \<Longrightarrow> map_inv s'"
proof (induction rule: caller_step.induct)
  case (use_handle s t g)
  then show ?case by (simp add: map_inv_def)
next
  case (wake s t g)
  then show ?case by (simp add: map_inv_def)
qed (erule map_inv_goes; simp)+

text \<open>A gate step moves its own thread, and wakes a sleeper.\<close>

lemma gate_step_call_at:
  "gate_step t g g' \<Longrightarrow> call_at c (at_pc g u) \<Longrightarrow> call_at c (at_pc g' u)"
  by (erule gate_stepE; cases c) (auto simp: acquiring_def has_handle_def split: if_splits)

lemma client_step_call_at:
  "client_step t g g' \<Longrightarrow> at_pc g t \<noteq> Outside \<Longrightarrow> (u = t \<Longrightarrow> c = Idle \<or> at_pc g t = Waiting) \<Longrightarrow>
   call_at c (at_pc g u) \<Longrightarrow> call_at c (at_pc g' u)"
  by (erule client_stepE; cases c) (auto simp: acquiring_def has_handle_def split: if_splits)

lemma call_inv_goes:
  "call_inv s \<Longrightarrow> doing s' = doing s \<Longrightarrow> gate s' = gate s \<Longrightarrow> call_at c (at_pc (gate s) t) \<Longrightarrow>
   call_inv (goes t c s')"
  by (simp add: call_inv_def)

lemma call_invD: "call_inv s \<Longrightarrow> doing s t = c \<Longrightarrow> call_at c (at_pc (gate s) t)"
  by (auto simp: call_inv_def)

lemma call_inv_step: "system_step pol t s s' \<Longrightarrow> call_inv s \<Longrightarrow> call_inv s'"
proof (induction rule: system_step.induct)
  case (at_gate t s g)
  then show ?case by (auto simp: call_inv_def intro: gate_step_call_at)
next
  case (write_lock s t)
  then show ?case by (auto simp: call_inv_def acquiring_def)
next
  case (prepare_return s t S)
  then show ?case using call_invD [of s t] by (auto simp: call_inv_def acquiring_def has_handle_def)
qed (frule call_invD, assumption, erule call_inv_goes; auto simp: acquiring_def has_handle_def)+

lemma call_inv_caller: "caller_step t s s' \<Longrightarrow> call_inv s \<Longrightarrow> call_inv s'"
proof (induction rule: caller_step.induct)
  case (use_handle s t g)
  then show ?case
    by (auto simp: call_inv_def has_handle_def intro: client_step_call_at [of t "gate s"])
next
  case (wake s t g)
  then show ?case
    by (auto simp: call_inv_def intro: client_step_call_at [of t "gate s"])
qed (erule call_inv_goes; auto simp: has_handle_def)+

definition system_inv :: "system \<Rightarrow> bool" where
  "system_inv s \<longleftrightarrow> gate_inv (gate s) \<and> call_inv s \<and> map_inv s"

lemma gate_inv_system_step: "system_step pol t s s' \<Longrightarrow> call_inv s \<Longrightarrow> gate_inv (gate s) \<Longrightarrow> gate_inv (gate s')"
proof (induction rule: system_step.induct)
  case (write_lock s t)
  then show ?case using call_invD [of s t WriteWait] by (simp add: gate_inv_call)
qed (auto intro: gate_inv_step gate_inv_replace)

lemma gate_inv_caller_step: "caller_step t s s' \<Longrightarrow> gate_inv (gate s) \<Longrightarrow> gate_inv (gate s')"
  by (erule caller_stepE) (auto intro: gate_inv_client)

lemma system_reachable_inv: "system_reachable pol S s \<Longrightarrow> system_inv s"
proof (induction rule: system_reachable.induct)
  case start
  have "gate_inv (threads_new S)"
    using gate_reachable_inv [OF gate_reachable.start] by (simp add: gate_inv_def)
  then show ?case
    by (simp add: system_inv_def system_new_def call_inv_def map_inv_def threads_new_def acquiring_def)
next
  case (system s t s')
  then show ?case
    unfolding system_inv_def by (blast intro: gate_inv_system_step call_inv_step map_inv_step)
next
  case (caller s t s')
  then show ?case
    unfolding system_inv_def by (blast intro: gate_inv_caller_step call_inv_caller map_inv_caller)
qed

section \<open>Progress\<close>

fun call_rank :: "call \<Rightarrow> nat" where
  "call_rank Idle = 0" | "call_rank ReadWait = 2" | "call_rank ReadHeld = 1" | "call_rank WriteWait = 6"
| "call_rank InWrite = 1" | "call_rank (PrepareWait names) = 3" | "call_rank (PrepareHeld names) = 2"
| "call_rank (PrepareNext S) = 1"

definition system_work :: "nat \<Rightarrow> system \<Rightarrow> nat" where
  "system_work n s = work n (gate s) + (\<Sum>t<n. call_rank (doing s t))"

definition system_below :: "nat \<Rightarrow> system \<Rightarrow> bool" where
  "system_below n s \<longleftrightarrow> callers_below n (gate s) \<and> (\<forall>t\<ge>n. doing s t = Idle)"

text \<open>No thread that has a write handle is inside another call.\<close>

definition holders_free :: "system \<Rightarrow> bool" where
  "holders_free s \<longleftrightarrow> (\<forall>t. has_handle (at_pc (gate s) t) \<longrightarrow> doing s t \<in> {Idle, InWrite})"

text \<open>
  However the steps of the backend are scheduled, either some thread comes to have a write handle
  in its hands, which it may use, or all calls return.
\<close>

inductive settles :: "(system \<Rightarrow> bool) \<Rightarrow> system \<Rightarrow> bool" for pol where
  handed: "doing s t = Idle \<Longrightarrow> has_handle (at_pc (gate s) t) \<Longrightarrow> settles pol s"
| quiet: "\<forall>t. doing s t = Idle \<Longrightarrow> settles pol s"
| moves: "\<exists>t s'. system_step pol t s s' \<Longrightarrow> (\<And>t s'. system_step pol t s s' \<Longrightarrow> settles pol s') \<Longrightarrow> settles pol s"

lemma call_work_goes:
  "doing s' = doing s \<Longrightarrow> t < n \<Longrightarrow>
   (\<Sum>u<n. call_rank (doing (goes t c s') u)) + call_rank (doing s t) =
   (\<Sum>u<n. call_rank (doing s u)) + call_rank c"
  by (simp add: sum.remove [of "{..<n}" t])

lemma system_below_at: "system_below n s \<Longrightarrow> doing s t \<noteq> Idle \<Longrightarrow> t < n"
  by (metis system_below_def not_less)

lemma system_work_goes:
  assumes "doing s' = doing s" "system_below n s" "doing s t \<noteq> Idle"
    and "work n (gate s') + call_rank c < work n (gate s) + call_rank (doing s t)"
  shows "system_work n (goes t c s') < system_work n s"
  using call_work_goes [OF assms(1) system_below_at [OF assms(2,3)], of c] assms(4)
  by (simp add: system_work_def)

lemma system_step_work:
  "system_step pol t s s' \<Longrightarrow> call_inv s \<Longrightarrow> system_below n s \<Longrightarrow> system_work n s' < system_work n s"
proof (induction rule: system_step.induct)
  case (at_gate t s g)
  then show ?case
    using gate_step_work [of t "gate s" g n] by (simp add: system_work_def system_below_def)
next
  case (write_lock s t)
  then have "t < n" "at_pc (gate s) t = Outside"
    using system_below_at [of n s t] call_invD [of s t WriteWait] by simp_all
  then have "work n (move t Locking (gate s)) = work n (gate s) + 4"
    using work_move [of "gate s" "gate s" t n Locking] by simp
  then show ?case
    using write_lock by (intro system_work_goes) simp_all
next
  case (prepare_return s t S)
  then show ?case by (intro system_work_goes) (simp_all add: work_def)
qed (rule system_work_goes; simp)+

lemma system_step_below: "system_step pol t s s' \<Longrightarrow> system_below n s \<Longrightarrow> system_below n s'"
proof (induction rule: system_step.induct)
  case (at_gate t s g)
  then show ?case by (auto simp: system_below_def intro: gate_step_callers)
next
  case (write_lock s t)
  then show ?case using system_below_at [of n s t] by (auto simp: system_below_def callers_below_def)
qed (auto simp: system_below_def callers_below_def)

lemma gate_step_handle:
  "gate_step t g g' \<Longrightarrow> has_handle (at_pc g' u) \<Longrightarrow> has_handle (at_pc g u) \<or> acquiring (at_pc g u)"
  by (erule gate_stepE) (auto simp: acquiring_def has_handle_def split: if_splits)

lemma acquiring_in_write: "call_inv s \<Longrightarrow> acquiring (at_pc (gate s) t) \<Longrightarrow> doing s t = InWrite"
  using call_invD [of s t "doing s t"]
  by (cases "doing s t") (auto simp: acquiring_def has_handle_def)

lemma holders_free_step:
  "system_step pol t s s' \<Longrightarrow> call_inv s \<Longrightarrow> holders_free s \<Longrightarrow> holders_free s'"
  unfolding holders_free_def
  by (erule system_stepE)
    (auto simp: has_handle_def [of Locking] dest!: gate_step_handle intro: acquiring_in_write)

text \<open>When no thread has a handle to use and some call has not returned, some step is enabled.\<close>

lemma system_moves:
  assumes inv: "system_inv s" and free: "holders_free s"
    and none: "\<And>t. has_handle (at_pc (gate s) t) \<Longrightarrow> doing s t \<noteq> Idle" and busy: "doing s t \<noteq> Idle"
  shows "\<exists>t s'. system_step pol t s s'"
proof (rule ccontr)
  assume "\<not> ?thesis"
  then have stuck: "\<not> system_step pol u s s'" for u s' by blast
  have no_handle: "\<not> has_handle (at_pc (gate s) u)" for u
    using stuck write_return [of s u pol] none [of u] free by (auto simp: holders_free_def)
  have no_acquirer: "\<not> acquiring (at_pc (gate s) u)" for u
    using gate_moves [of "gate s" u] no_handle inv stuck at_gate [of _ s _ pol]
    by (auto simp: system_inv_def gate_inv_def)
  have "doing s u \<noteq> InWrite" for u
    using inv no_handle no_acquirer by (auto simp: system_inv_def dest: call_invD)
  moreover have "doing s u \<noteq> ReadHeld" "doing s u \<noteq> PrepareHeld names" "doing s u \<noteq> PrepareNext S" for u names S
    using stuck read_return [of s u pol] prepare_current [of s u names pol] prepare_return [of s u S pol] by auto
  ultimately have free_map: "\<not> guards_map (doing s u)" "\<not> owns_map (doing s u)" for u
    by (cases "doing s u"; auto)+
  then have no_wants: "\<not> wants_map (doing s u)" for u
    using stuck prepare_lock [of s u _ pol] by (cases "doing s u") (auto simp: may_write_def)
  then have "may_read pol s"
    using free_map by (simp add: may_read_def)
  then have "doing s t \<noteq> ReadWait" "doing s t \<noteq> WriteWait"
    using stuck read_lock [of s t pol] write_lock [of s t pol] by auto
  then show False using busy free_map [of t] no_wants [of t] by (cases "doing s t") auto
qed

lemma system_settles:
  "system_inv s \<Longrightarrow> system_below n s \<Longrightarrow> holders_free s \<Longrightarrow> settles pol s"
proof (induction "system_work n s" arbitrary: s rule: less_induct)
  case less
  show ?case
  proof (cases "(\<exists>t. has_handle (at_pc (gate s) t) \<and> doing s t = Idle) \<or> (\<forall>t. doing s t = Idle)")
    case True
    then show ?thesis by (blast intro: settles.handed settles.quiet)
  next
    case False
    have "\<exists>t s'. system_step pol t s s'"
      using system_moves [OF less.prems(1,3)] False by blast
    moreover have "settles pol s'" if step: "system_step pol t s s'" for t s'
    proof (rule less.hyps)
      show "system_work n s' < system_work n s" "system_below n s'" "holders_free s'"
        using step less.prems by (auto simp: system_inv_def intro: system_step_work system_step_below holders_free_step)
      show "system_inv s'"
        using step less.prems(1) unfolding system_inv_def
        by (blast intro: gate_inv_system_step call_inv_step map_inv_step)
    qed
    ultimately show ?thesis by (rule settles.moves)
  qed
qed

section \<open>Snapshots\<close>

fun in_prepare :: "call \<Rightarrow> bool" where
  "in_prepare (PrepareWait names) = True" | "in_prepare (PrepareHeld names) = True"
| "in_prepare (PrepareNext S) = True" | "in_prepare c = False"

text \<open>
  The read handles, in the order they were opened, are the stores after ever longer prefixes of
  the journal.
\<close>

definition prefixes_read :: "edit list list \<Rightarrow> stores \<Rightarrow> stores list \<Rightarrow> bool" where
  "prefixes_read js S hs \<longleftrightarrow>
     (\<exists>ks. sorted ks \<and> (\<forall>k \<in> set ks. k \<le> length js) \<and> hs = List.map (\<lambda>k. replay (take k js) S) ks)"

lemma prefixes_read_Nil: "prefixes_read js S []"
  by (auto simp: prefixes_read_def)

lemma prefixes_read_journal:
  assumes "prefixes_read js S hs"
  shows "prefixes_read (js @ [es]) S hs"
proof -
  obtain ks where "sorted ks" "\<forall>k \<in> set ks. k \<le> length js" "hs = List.map (\<lambda>k. replay (take k js) S) ks"
    using assms by (auto simp: prefixes_read_def)
  then show ?thesis unfolding prefixes_read_def by (intro exI [of _ ks]) auto
qed

lemma prefixes_read_open:
  assumes "prefixes_read js S hs"
  shows "prefixes_read js S (hs @ [replay js S])"
proof -
  obtain ks where "sorted ks" "\<forall>k \<in> set ks. k \<le> length js" "hs = List.map (\<lambda>k. replay (take k js) S) ks"
    using assms by (auto simp: prefixes_read_def)
  then show ?thesis
    unfolding prefixes_read_def by (intro exI [of _ "ks @ [length js]"]) (auto simp: sorted_append)
qed

definition snapshot_inv :: "stores \<Rightarrow> system \<Rightarrow> bool" where
  "snapshot_inv S s \<longleftrightarrow> (\<forall>t. \<not> in_prepare (doing s t)) \<and> journal_inv S (gate s) \<and>
     prefixes_read (journal (gate s)) S (read_handles s)"

lemma gate_step_journal: "gate_step t g g' \<Longrightarrow> journal g' = journal g"
  by (erule gate_stepE) auto

lemma client_step_journal: "client_step t g g' \<Longrightarrow> journal g' = journal g \<or> (\<exists>es. journal g' = journal g @ [es])"
  by (erule client_stepE) auto

lemma snapshot_inv_client:
  "client_step t (gate s) g \<Longrightarrow> owner_inv (gate s) \<Longrightarrow> snapshot_inv S s \<Longrightarrow> snapshot_inv S (s\<lparr>gate := g\<rparr>)"
  using client_step_journal [of t "gate s" g]
  by (auto simp: snapshot_inv_def intro: journal_inv_client prefixes_read_journal)

lemma snapshot_inv_goes:
  "snapshot_inv S s \<Longrightarrow> \<not> in_prepare c \<Longrightarrow> snapshot_inv S (goes t c s)"
  by (simp add: snapshot_inv_def)

lemma snapshot_inv_step:
  "system_step pol t s s' \<Longrightarrow> system_inv s \<Longrightarrow> snapshot_inv S s \<Longrightarrow> snapshot_inv S s'"
proof (induction rule: system_step.induct)
  case (read_return s t)
  then have "ns_stores (shared (gate s)) = replay (journal (gate s)) S"
    by (simp add: snapshot_inv_def journal_inv_def)
  with read_return show ?case by (simp add: snapshot_inv_def prefixes_read_open)
next
  case (write_lock s t)
  then have "client_step t (gate s) (move t Locking (gate s))"
    using call_invD [of s t WriteWait] by (simp add: system_inv_def client_step.call)
  then show ?case
    using write_lock by (intro snapshot_inv_goes snapshot_inv_client) (simp_all add: system_inv_def gate_inv_def)
next
  case (at_gate t s g)
  then show ?case by (simp add: snapshot_inv_def journal_inv_gate gate_step_journal)
next
  case (prepare_lock s t names)
  then show ?case by (metis in_prepare.simps(1) snapshot_inv_def)
next
  case (prepare_current s t names)
  then show ?case by (metis in_prepare.simps(2) snapshot_inv_def)
next
  case (prepare_return s t S')
  then show ?case by (metis in_prepare.simps(3) snapshot_inv_def)
qed (simp_all add: snapshot_inv_goes)

lemma snapshot_inv_caller:
  "caller_step t s s' \<Longrightarrow> prepare_calls s' = 0 \<Longrightarrow> system_inv s \<Longrightarrow> snapshot_inv S s \<Longrightarrow> snapshot_inv S s'"
  by (erule caller_stepE)
    (auto simp: snapshot_inv_goes system_inv_def gate_inv_def intro: snapshot_inv_client)

lemma prepare_calls_step: "system_step pol t s s' \<Longrightarrow> prepare_calls s' = prepare_calls s"
  by (erule system_stepE) auto

lemma prepare_calls_caller: "caller_step t s s' \<Longrightarrow> prepare_calls s \<le> prepare_calls s'"
  by (erule caller_stepE) auto

lemma system_reachable_snapshots:
  "system_reachable pol S s \<Longrightarrow> prepare_calls s = 0 \<Longrightarrow> snapshot_inv S s"
proof (induction rule: system_reachable.induct)
  case start
  then show ?case
    using reachable_journal [OF gate_reachable.start [of S]]
    by (simp add: snapshot_inv_def system_new_def prefixes_read_Nil)
next
  case (system s t s')
  then show ?case
    using prepare_calls_step [of pol t s s'] by (auto intro: snapshot_inv_step system_reachable_inv)
next
  case (caller s t s')
  then show ?case
    using prepare_calls_caller [of t s s'] by (auto intro: snapshot_inv_caller system_reachable_inv)
qed

section \<open>A call of \<open>prepare\<close> beside a writer\<close>

text \<open>
  A thread that has a write handle and calls \<open>prepare\<close>, while another thread waits for the gate in
  \<open>write\<close>: the first waits for the guard of the second, and the second for the handle of the first.
\<close>

definition embraced :: "thread \<Rightarrow> thread \<Rightarrow> system \<Rightarrow> bool" where
  "embraced t u s \<longleftrightarrow> has_handle (at_pc (gate s) t) \<and> (\<exists>names. doing s t = PrepareWait names) \<and>
     doing s u = InWrite \<and> at_pc (gate s) u \<in> {Locking, Testing, Waiting, Woken}"

definition any_step :: "(system \<Rightarrow> bool) \<Rightarrow> system \<Rightarrow> system \<Rightarrow> bool" where
  "any_step pol s s' \<longleftrightarrow> (\<exists>t. system_step pol t s s' \<or> caller_step t s s')"

lemma gate_step_others:
  "gate_step v g g' \<Longrightarrow> owner_inv g \<Longrightarrow> has_handle (at_pc g t) \<Longrightarrow> at_pc g u \<in> {Locking, Testing, Waiting, Woken} \<Longrightarrow>
   has_handle (at_pc g' t) \<and> at_pc g' u \<in> {Locking, Testing, Waiting, Woken}"
proof -
  assume step: "gate_step v g g'" and own: "owner_inv g" and t: "has_handle (at_pc g t)"
    and u: "at_pc g u \<in> {Locking, Testing, Waiting, Woken}"
  have open_flag: "writer_open (shared g)"
    using own t one_at_flag [of owns_gate "at_pc g" "writer_open (shared g)"]
    by (metis has_handle_def owner_inv_def owns_gate.simps(1))
  have "at_pc g v \<notin> {Opened, Permitted, Dropping, Clearing}" if "v \<noteq> t" for v
    using own t that one_at_unique [of owns_gate "at_pc g" "writer_open (shared g)" t v]
    by (auto simp: owner_inv_def has_handle_def)
  then show ?thesis
    using step t u open_flag
    by (elim gate_stepE) (auto simp: has_handle_def split: if_splits)
qed

lemma embraced_step:
  assumes "system_step pol v s s'" "system_inv s" "embraced t u s"
  shows "embraced t u s' \<and> doing s' t = doing s t"
  using assms
proof (induction rule: system_step.induct)
  case (at_gate v s g)
  then show ?case
    using gate_step_others [of v "gate s" g t u] by (auto simp: embraced_def system_inv_def gate_inv_def)
next
  case (write_lock s v)
  then show ?case using call_invD [of s v WriteWait] by (auto simp: embraced_def system_inv_def has_handle_def)
next
  case (prepare_lock s v names)
  have "guards_map (doing s u)" using prepare_lock by (auto simp: embraced_def)
  then show ?case using prepare_lock by (auto simp: may_write_def)
qed (auto simp: embraced_def has_handle_def)

lemma embraced_caller:
  assumes "caller_step v s s'" "system_inv s" "embraced t u s"
  shows "embraced t u s' \<and> doing s' t = doing s t"
  using assms
proof (induction rule: caller_step.induct)
  case (use_handle s v g)
  then have "v \<noteq> t" "v \<noteq> u" by (auto simp: embraced_def)
  then show ?case
    using use_handle by (auto simp: embraced_def has_handle_def elim!: client_stepE split: if_splits)
next
  case (wake s v g)
  then show ?case
    by (auto simp: embraced_def has_handle_def elim!: client_stepE split: if_splits)
qed (auto simp: embraced_def)

lemma embraced_forever:
  assumes "(any_step pol)\<^sup>*\<^sup>* s s'" "system_reachable pol S s" "embraced t u s"
  shows "system_reachable pol S s' \<and> embraced t u s' \<and> doing s' t = doing s t"
  using assms(1)
proof (induction rule: rtranclp_induct)
  case base
  then show ?case using assms by simp
next
  case (step s1 s2)
  then have inv: "system_inv s1" by (blast intro: system_reachable_inv)
  obtain v where "system_step pol v s1 s2 \<or> caller_step v s1 s2" using step.hyps(2) by (auto simp: any_step_def)
  then show ?case
    using step.IH embraced_step [OF _ inv] embraced_caller [OF _ inv]
      system_reachable.system system_reachable.caller by metis
qed

section \<open>Runs\<close>

text \<open>A thread outside that calls \<open>write\<close> while the map and the gate are free comes to the handle.\<close>

lemma reach_gate:
  "system_reachable pol S (s\<lparr>gate := g\<rparr>) \<Longrightarrow> gate_step t g g' \<Longrightarrow> system_reachable pol S (s\<lparr>gate := g'\<rparr>)"
  using system_reachable.system [of pol S "s\<lparr>gate := g\<rparr>"] system_step.at_gate [of t "s\<lparr>gate := g\<rparr>" g' pol] by auto

lemma goes_back: "doing s t = c \<Longrightarrow> goes t c (goes t c' s) = s"
  by (simp add: goes_def fun_upd_idem)

text \<open>Steps of one thread that is not reading.\<close>

definition steps_of :: "(system \<Rightarrow> bool) \<Rightarrow> thread \<Rightarrow> system \<Rightarrow> system \<Rightarrow> bool" where
  "steps_of pol t = (\<lambda>a b. system_step pol t a b \<and> doing a t \<noteq> ReadHeld)\<^sup>*\<^sup>*"

lemma steps_of_refl: "steps_of pol t s s"
  by (simp add: steps_of_def)

lemma steps_of_step:
  "steps_of pol t s a \<Longrightarrow> system_step pol t a b \<Longrightarrow> doing a t \<noteq> ReadHeld \<Longrightarrow> steps_of pol t s b"
  by (simp add: steps_of_def rtranclp.rtrancl_into_rtrancl)

lemma steps_of_gate:
  "steps_of pol t s (a\<lparr>gate := g\<rparr>) \<Longrightarrow> gate_step t g g' \<Longrightarrow> doing a t \<noteq> ReadHeld \<Longrightarrow>
   steps_of pol t s (a\<lparr>gate := g'\<rparr>)"
  using steps_of_step [of pol t s "a\<lparr>gate := g\<rparr>"] system_step.at_gate [of t "a\<lparr>gate := g\<rparr>" g' pol] by auto

lemma steps_of_reach: "steps_of pol t s s' \<Longrightarrow> system_reachable pol S s \<Longrightarrow> system_reachable pol S s'"
  unfolding steps_of_def by (induction rule: rtranclp_induct) (auto intro: system_reachable.system)

lemma write_runs:
  assumes t: "doing s t = Idle" "at_pc (gate s) t = Outside"
    and map: "\<forall>u. \<not> owns_map (doing s u) \<and> \<not> wants_map (doing s u)"
    and gate_free: "mutex (gate s) = None" "\<not> writer_open (shared (gate s))"
  shows "steps_of pol t (goes t WriteWait s)
           (s\<lparr>gate := move t (Writing [] (ns_stores (shared (gate s)))) (set_open True (gate s))\<rparr>)"
proof -
  let ?g1 = "move t Locking (gate s)"
  let ?g2 = "move t Testing (?g1\<lparr>mutex := Some t\<rparr>)"
  let ?g3 = "move t Opened (set_open True ?g2)"
  let ?g4 = "move t Permitted (?g3\<lparr>mutex := None\<rparr>)"
  let ?g5 = "move t (Writing [] (ns_stores (shared (gate s)))) ?g4"
  let ?s0 = "goes t WriteWait s"
  let ?s1 = "goes t InWrite ?s0"
  have "system_step pol t ?s0 (goes t InWrite (?s0\<lparr>gate := move t Locking (gate ?s0)\<rparr>))"
    by (intro system_step.write_lock) (use map in \<open>simp_all add: may_read_def\<close>)
  then have "steps_of pol t ?s0 (goes t InWrite (?s0\<lparr>gate := move t Locking (gate ?s0)\<rparr>))"
    by (intro steps_of_step [OF steps_of_refl]) simp_all
  then have "steps_of pol t ?s0 (?s1\<lparr>gate := ?g1\<rparr>)" by (cases s) (simp add: goes_def)
  moreover have "gate_step t ?g1 ?g2" "gate_step t ?g2 ?g3" "gate_step t ?g3 ?g4"
    using gate_free by (auto intro!: gate_step.lock gate_step.take gate_step.leave)
  moreover have "gate_step t ?g4 ?g5" using gate_step.copy [of ?g4 t] by simp
  moreover have "doing ?s1 t \<noteq> ReadHeld" by simp
  ultimately have "steps_of pol t ?s0 (?s1\<lparr>gate := ?g5\<rparr>)" by (blast intro: steps_of_gate)
  then have "steps_of pol t ?s0 (goes t Idle (?s1\<lparr>gate := ?g5\<rparr>))"
    by (rule steps_of_step, intro system_step.write_return) (simp_all add: has_handle_def)
  moreover have "goes t Idle (?s1\<lparr>gate := ?g5\<rparr>) =
      s\<lparr>gate := move t (Writing [] (ns_stores (shared (gate s)))) (set_open True (gate s))\<rparr>"
    using t(1) gate_free(1) by (cases s) (simp add: goes_def move_def set_open_def fun_upd_idem)
  ultimately show ?thesis by simp
qed

lemma reach_handle:
  assumes "system_reachable pol S s" "doing s t = Idle" "at_pc (gate s) t = Outside"
    and "\<forall>u. \<not> owns_map (doing s u) \<and> \<not> wants_map (doing s u)"
    and "mutex (gate s) = None" "\<not> writer_open (shared (gate s))"
  shows "system_reachable pol S
           (s\<lparr>gate := move t (Writing [] (ns_stores (shared (gate s)))) (set_open True (gate s))\<rparr>)"
  by (rule steps_of_reach [OF write_runs [OF assms(2-6)]])
    (use assms(1-3) in \<open>blast intro: system_reachable.caller caller_step.call_write\<close>)

text \<open>A thread that calls \<open>write\<close> while another has the handle sleeps, with the map locked for reading.\<close>

lemma reach_sleeping:
  assumes s: "system_reachable pol S s" and t: "doing s t = Idle" "at_pc (gate s) t = Outside"
    and map: "\<forall>u. \<not> owns_map (doing s u) \<and> \<not> wants_map (doing s u)"
    and taken: "mutex (gate s) = None" "writer_open (shared (gate s))"
  shows "system_reachable pol S (goes t InWrite (s\<lparr>gate := move t Waiting (gate s)\<rparr>))"
proof -
  let ?g1 = "move t Locking (gate s)"
  let ?g2 = "move t Testing (?g1\<lparr>mutex := Some t\<rparr>)"
  let ?g3 = "move t Waiting (?g2\<lparr>mutex := None\<rparr>)"
  let ?s0 = "goes t WriteWait s"
  let ?s1 = "goes t InWrite ?s0"
  have "system_reachable pol S ?s0"
    using s t by (blast intro: system_reachable.caller caller_step.call_write)
  then have "system_reachable pol S (goes t InWrite (?s0\<lparr>gate := move t Locking (gate ?s0)\<rparr>))"
    by (rule system_reachable.system [where t = t], intro system_step.write_lock)
      (use map in \<open>simp_all add: may_read_def\<close>)
  then have "system_reachable pol S (?s1\<lparr>gate := ?g1\<rparr>)" by (cases s) (simp add: goes_def)
  moreover have "gate_step t ?g1 ?g2" "gate_step t ?g2 ?g3"
    using taken by (auto intro!: gate_step.lock gate_step.sleep)
  ultimately have "system_reachable pol S (?s1\<lparr>gate := ?g3\<rparr>)" by (blast intro: reach_gate)
  moreover have "?s1\<lparr>gate := ?g3\<rparr> = goes t InWrite (s\<lparr>gate := move t Waiting (gate s)\<rparr>)"
    using taken(1) by (cases s) (simp add: goes_def move_def)
  ultimately show ?thesis by simp
qed

text \<open>A handle that is being dropped, with nobody asleep, is dropped.\<close>

lemma reach_released:
  assumes s: "system_reachable pol S s" and t: "at_pc (gate s) t = Dropping"
    and "mutex (gate s) = None" "\<forall>u. at_pc (gate s) u \<noteq> Waiting"
  shows "system_reachable pol S (s\<lparr>gate := move t Outside (set_open False (gate s))\<rparr>)"
proof -
  let ?g1 = "move t Clearing ((gate s)\<lparr>mutex := Some t\<rparr>)"
  let ?g2 = "move t Notifying (set_open False ?g1)"
  let ?g3 = "move t Unlocking ?g2"
  let ?g4 = "move t Outside (?g3\<lparr>mutex := None\<rparr>)"
  have "gate_step t (gate s) ?g1" "gate_step t ?g1 ?g2" "gate_step t ?g2 ?g3" "gate_step t ?g3 ?g4"
    using assms
    by (auto intro!: gate_step.relock gate_step.clear gate_step.notify_none gate_step.unlock split: if_splits)
  moreover have "system_reachable pol S (s\<lparr>gate := gate s\<rparr>)" using s by simp
  ultimately have "system_reachable pol S (s\<lparr>gate := ?g4\<rparr>)" by (blast intro: reach_gate)
  moreover have "?g4 = move t Outside (set_open False (gate s))"
    using assms(3) by (cases "gate s") (simp add: move_def set_open_def)
  ultimately show ?thesis by simp
qed

lemma reach_read:
  assumes s: "system_reachable pol S s" and t: "doing s t = Idle" "at_pc (gate s) t = Outside"
    and map: "\<forall>u. \<not> owns_map (doing s u) \<and> \<not> wants_map (doing s u)"
  shows "system_reachable pol S (open_read s)"
proof -
  let ?s1 = "goes t ReadWait s" and ?s2 = "goes t ReadHeld (goes t ReadWait s)"
  have "caller_step t s ?s1" using t by (blast intro: caller_step.call_read)
  moreover have "system_step pol t ?s1 ?s2"
    using map by (intro system_step.read_lock) (simp_all add: may_read_def)
  moreover have "system_step pol t ?s2 (goes t Idle (open_read ?s2))"
    by (intro system_step.read_return) simp
  ultimately have "system_reachable pol S (goes t Idle (open_read ?s2))"
    using s by (blast intro: system_reachable.caller system_reachable.system)
  moreover have "goes t Idle (open_read ?s2) = open_read s"
    using t(1) by (cases s) (simp add: goes_def open_read_def fun_upd_idem)
  ultimately show ?thesis by simp
qed

lemma reach_use:
  "system_reachable pol S s \<Longrightarrow> doing s t = Idle \<Longrightarrow> at_pc (gate s) t = Writing es T \<Longrightarrow>
   client_step t (gate s) g \<Longrightarrow> system_reachable pol S (s\<lparr>gate := g\<rparr>)"
  by (rule system_reachable.caller, assumption, rule caller_step.use_handle) (auto simp: has_handle_def)

lemma reach_prepare:
  "system_reachable pol S s \<Longrightarrow> doing s t = Idle \<Longrightarrow> at_pc (gate s) t = Outside \<or> has_handle (at_pc (gate s) t) \<Longrightarrow>
   system_reachable pol S (goes t (PrepareWait names) (s\<lparr>prepare_calls := Suc (prepare_calls s)\<rparr>))"
  by (rule system_reachable.caller, assumption, rule caller_step.call_prepare)

text \<open>The first transaction of a fresh namespace, with one edit made.\<close>

definition editing :: "edit \<Rightarrow> stores \<Rightarrow> system" where
  "editing e S = (system_new S)
     \<lparr>gate := move 0 (Writing [e] (apply_edit e S)) (set_open True (threads_new S))\<rparr>"

lemma system_new_simps [simp]:
  "gate (system_new S) = threads_new S" "doing (system_new S) = (\<lambda>_. Idle)"
  "read_handles (system_new S) = []" "prepare_calls (system_new S) = 0"
  by (simp_all add: system_new_def)

lemma threads_new_simps [simp]:
  "at_pc (threads_new S) = (\<lambda>_. Outside)" "mutex (threads_new S) = None"
  "ns_stores (shared (threads_new S)) = S" "\<not> writer_open (shared (threads_new S))"
  "journal (threads_new S) = []"
  by (simp_all add: threads_new_def namespaced_state_new_def)

lemma editing_simps [simp]:
  "doing (editing e S) = (\<lambda>_. Idle)" "read_handles (editing e S) = []" "prepare_calls (editing e S) = 0"
  "at_pc (gate (editing e S)) = (\<lambda>_. Outside)(0 := Writing [e] (apply_edit e S))"
  "mutex (gate (editing e S)) = None" "writer_open (shared (gate (editing e S)))"
  "ns_stores (shared (gate (editing e S))) = S" "journal (gate (editing e S)) = []"
  by (simp_all add: editing_def)

lemma editing_reachable:
  assumes "S (edited_store e) \<noteq> None"
  shows "system_reachable pol S (editing e S)"
proof -
  let ?s = "(system_new S)\<lparr>gate := move 0 (Writing [] S) (set_open True (threads_new S))\<rparr>"
  have "system_reachable pol S ?s"
    using reach_handle [OF system_reachable.start [of pol S], of 0] by simp
  moreover have "client_step 0 (gate ?s) (move 0 (Writing [e] (apply_edit e S)) (gate ?s))"
    using client_step.edit [of "gate ?s" 0 "[]" S e] assms by simp
  ultimately have "system_reachable pol S (?s\<lparr>gate := move 0 (Writing [e] (apply_edit e S)) (gate ?s)\<rparr>)"
    by (intro reach_use [where s = ?s and t = 0]) simp_all
  moreover have "?s\<lparr>gate := move 0 (Writing [e] (apply_edit e S)) (gate ?s)\<rparr> = editing e S"
    by (simp add: editing_def move_def)
  ultimately show ?thesis by (simp only:)
qed

text \<open>The commit of that edit.\<close>

definition committing :: "edit \<Rightarrow> stores \<Rightarrow> threads" where
  "committing e S = move 0 Dropping (publish [e] (apply_edit e S) (gate (editing e S)))"

lemma commit_step: "client_step 0 (gate (editing e S)) (committing e S)"
  unfolding committing_def by (rule client_step.commit) simp

lemma committing_simps [simp]:
  "at_pc (committing e S) = (\<lambda>_. Outside)(0 := Dropping)" "mutex (committing e S) = None"
  "writer_open (shared (committing e S))" "ns_stores (shared (committing e S)) = apply_edit e S"
  "journal (committing e S) = [[e]]"
  by (simp_all add: committing_def)

lemma main_set_there: "one_store (edited_store main_set) \<noteq> None"
  by (simp add: one_store_def main_set_def)

section \<open>Properties\<close>

text \<open>C34: A commit can be lost. \<open>prepare\<close> reads the published stores and replaces them later, without
  the writer gate: a transaction that commits in between returns \<open>Ok\<close>, and its edits are gone
  when \<open>prepare\<close> returns. It takes one writer and a \<open>prepare\<close> that names the stores there are;
  afterwards every call has returned and the published stores are those before the commit.\<close>

lemma prepare_loses_commit:
  assumes "S (edited_store e) \<noteq> None" and names: "\<And>n. n \<in> set names \<longleftrightarrow> S n \<noteq> None"
  shows "\<exists>s. system_reachable pol S s \<and> journal (gate s) = [[e]] \<and> ns_stores (shared (gate s)) = S \<and>
           (\<forall>t. doing s t = Idle \<and> at_pc (gate s) t = Outside)"
proof -
  let ?s1 = "goes 1 (PrepareWait names) ((editing e S)\<lparr>prepare_calls := Suc 0\<rparr>)"
  let ?s2 = "goes 1 (PrepareHeld names) ?s1"
  let ?s3 = "goes 1 (PrepareNext (next_stores names S)) ?s2"
  let ?s4 = "?s3\<lparr>gate := committing e S\<rparr>"
  let ?s5 = "goes 1 Idle (?s4\<lparr>gate := replace_stores (next_stores names S) (committing e S)\<rparr>)"
  let ?s6 = "?s5\<lparr>gate := move 0 Outside (set_open False (gate ?s5))\<rparr>"
  have same: "next_stores names S = S"
    using names by (auto simp: next_stores_eq prepared_stores_def split: option.splits)
  have "system_reachable pol S ?s1"
    using reach_prepare [OF editing_reachable, of S e 1 pol names] assms(1) by simp
  moreover have "system_step pol 1 ?s1 ?s2"
    by (intro system_step.prepare_lock) (simp_all add: may_write_def)
  moreover have "system_step pol 1 ?s2 ?s3"
    using system_step.prepare_current [of ?s2 1 names pol] by simp
  ultimately have "system_reachable pol S ?s3"
    by (blast intro: system_reachable.system)
  then have "system_reachable pol S ?s4"
    using commit_step by (intro reach_use [where s = ?s3 and t = 0]) simp_all
  moreover have "system_step pol 1 ?s4 ?s5"
    using system_step.prepare_return [of ?s4 1 "next_stores names S" pol] by simp
  ultimately have "system_reachable pol S ?s5"
    by (blast intro: system_reachable.system)
  then have "system_reachable pol S ?s6"
    by (intro reach_released [where s = ?s5]) simp_all
  then show ?thesis
    by (intro exI [of _ ?s6]) (simp add: same)
qed

lemma prepare_loses_commit_witness:
  "\<exists>s. system_reachable (\<lambda>_. True) one_store s \<and> journal (gate s) = [[main_set]] \<and>
       ns_stores (shared (gate s)) ''__main'' = Some [] \<and> apply_edit main_set one_store ''__main'' = Some [([0x01], [0x02])]"
proof -
  have "n \<in> set [''__main''] \<longleftrightarrow> one_store n \<noteq> None" for n
    by (simp add: one_store_def)
  from prepare_loses_commit [OF main_set_there this, of "\<lambda>_. True"] obtain s where
    "system_reachable (\<lambda>_. True) one_store s" "journal (gate s) = [[main_set]]"
    "ns_stores (shared (gate s)) = one_store"
    by blast
  then show ?thesis
    by (intro exI [of _ s]) (simp, simp add: one_store_def main_set_def)
qed

text \<open>\<open>prepare\<close> can hang for ever. \<open>write\<close> waits for the writer gate while it holds the map of
  namespaces locked for reading. If a thread that has a write handle calls \<open>prepare\<close> while
  another thread waits in \<open>write\<close>, then in every continuation, whatever all threads do, neither
  call ever returns.\<close>

lemma prepare_hangs:
  assumes "system_reachable pol S s"
    and "has_handle (at_pc (gate s) t)" "doing s t = PrepareWait names"
    and "doing s u = InWrite" "at_pc (gate s) u \<in> {Locking, Testing, Waiting, Woken}"
    and "(any_step pol)\<^sup>*\<^sup>* s s'"
  shows "doing s' t = PrepareWait names \<and> doing s' u = InWrite \<and> \<not> has_handle (at_pc (gate s') u)"
proof -
  have "embraced t u s" using assms(2-5) by (auto simp: embraced_def)
  show ?thesis
    using embraced_forever [OF assms(6,1) \<open>embraced t u s\<close>] assms(3)
    by (auto simp: embraced_def has_handle_def)
qed

text \<open>Thread 0 has edited a store, thread 1 sleeps in \<open>write\<close>.\<close>

definition crowded :: system where
  "crowded = goes 1 InWrite ((editing main_set one_store)
     \<lparr>gate := move 1 Waiting (gate (editing main_set one_store))\<rparr>)"

lemma crowded_simps [simp]:
  "doing crowded = (\<lambda>_. Idle)(1 := InWrite)"
  "gate crowded = move 1 Waiting (gate (editing main_set one_store))" "prepare_calls crowded = 0"
  by (simp_all add: crowded_def)

lemma crowded_reachable: "system_reachable pol one_store crowded"
  unfolding crowded_def
  using reach_sleeping [OF editing_reachable, of one_store main_set 1 pol] main_set_there by simp

lemma prepare_hangs_witness:
  "\<exists>s. system_reachable (\<lambda>_. True) one_store s \<and>
     {s'. (any_step (\<lambda>_. True))\<^sup>*\<^sup>* s s'} \<subseteq>
     {s'. doing s' 0 = PrepareWait [''__main''] \<and> doing s' 1 = InWrite \<and> \<not> has_handle (at_pc (gate s') 1)}"
proof -
  let ?s = "goes 0 (PrepareWait [''__main'']) (crowded\<lparr>prepare_calls := Suc (prepare_calls crowded)\<rparr>)"
  have reach: "system_reachable (\<lambda>_. True) one_store ?s"
    by (rule reach_prepare [OF crowded_reachable]) (simp_all add: has_handle_def)
  have "doing s' 0 = PrepareWait [''__main''] \<and> doing s' 1 = InWrite \<and> \<not> has_handle (at_pc (gate s') 1)"
    if "(any_step (\<lambda>_. True))\<^sup>*\<^sup>* ?s s'" for s'
    by (rule prepare_hangs [OF reach _ _ _ _ that]) (simp_all add: has_handle_def)
  with reach show ?thesis by blast
qed

text \<open>C28: The backend does not block otherwise. As long as no thread that has a write handle is inside
  another call, the steps of the backend alone, in any order and under any policy of the
  \<open>RwLock\<close>, come to a state where a thread has a write handle in its hands or every call of
  \<open>read\<close>, \<open>write\<close> and \<open>prepare\<close> has returned.\<close>

lemma calls_settle:
  assumes "system_reachable pol S s" and "system_below n s" and "holders_free s"
  shows "settles pol s"
  using system_settles [OF system_reachable_inv [OF assms(1)] assms(2,3)] .

text \<open>Thread 0 drops its handle, thread 1 sleeps in \<open>write\<close>, and thread 2 calls \<open>prepare\<close>.\<close>

lemma calls_settle_witness:
  "\<exists>s. system_reachable (\<lambda>_. False) one_store s \<and> doing s 1 = InWrite \<and>
     doing s 2 = PrepareWait [''__main''] \<and> \<not> (\<exists>t. has_handle (at_pc (gate s) t)) \<and> settles (\<lambda>_. False) s"
proof -
  let ?g = "gate crowded"
  let ?s1 = "crowded\<lparr>gate := move 0 Dropping (publish [main_set] (apply_edit main_set one_store) ?g)\<rparr>"
  let ?s2 = "goes 2 (PrepareWait [''__main'']) (?s1\<lparr>prepare_calls := Suc (prepare_calls ?s1)\<rparr>)"
  have "client_step 0 ?g (move 0 Dropping (publish [main_set] (apply_edit main_set one_store) ?g))"
    by (rule client_step.commit) simp
  then have "system_reachable (\<lambda>_. False) one_store ?s1"
    by (intro reach_use [where t = 0, OF crowded_reachable]) simp_all
  then have reach: "system_reachable (\<lambda>_. False) one_store ?s2"
    by (rule reach_prepare) simp_all
  moreover have "settles (\<lambda>_. False) ?s2"
    by (rule calls_settle [OF reach, of 3])
      (auto simp: system_below_def callers_below_def holders_free_def has_handle_def)
  ultimately show ?thesis
    by (intro exI [of _ ?s2]) (simp add: has_handle_def)
qed

text \<open>Snapshot isolation. In every interleaving of readers and writers in which nobody calls \<open>prepare\<close>,
  the published stores are the committed transactions one after the other; the staged stores of
  a write handle are its own edits on top of all of them, so no update is lost; and every read
  handle that was opened sees the stores after some prefix of them, whole transactions only, and
  never an older state than the handles opened before it.\<close>

lemma snapshot_isolation:
  assumes "system_reachable pol S s" and "prepare_calls s = 0"
  shows "ns_stores (shared (gate s)) = replay (journal (gate s)) S \<and>
         (\<forall>t es T. at_pc (gate s) t = Writing es T \<longrightarrow> T = replay (journal (gate s) @ [es]) S) \<and>
         (\<exists>ks. sorted ks \<and> set ks \<subseteq> {..length (journal (gate s))} \<and>
            read_handles s = List.map (\<lambda>k. replay (take k (journal (gate s))) S) ks)"
  using system_reachable_snapshots [OF assms]
  by (auto simp: snapshot_inv_def journal_inv_def prefixes_read_def subset_iff replay_snoc)

text \<open>Thread 1 reads while the transaction is open and again after its commit.\<close>

lemma snapshot_isolation_witness:
  "\<exists>s ks. system_reachable (\<lambda>_. True) one_store s \<and>
     read_handles s = [one_store, apply_edit main_set one_store] \<and>
     sorted ks \<and> read_handles s = List.map (\<lambda>k. replay (take k (journal (gate s))) one_store) ks"
proof -
  let ?s1 = "open_read (editing main_set one_store)"
  let ?s2 = "?s1\<lparr>gate := committing main_set one_store\<rparr>"
  have s1: "system_reachable (\<lambda>_. True) one_store ?s1"
    using main_set_there by (intro reach_read [where t = 1] editing_reachable) simp_all
  have "system_reachable (\<lambda>_. True) one_store ?s2"
    using commit_step by (intro reach_use [where t = 0, OF s1]) simp_all
  then have reach: "system_reachable (\<lambda>_. True) one_store (open_read ?s2)"
    by (intro reach_read [where t = 1]) simp_all
  show ?thesis
    using snapshot_isolation [OF reach] reach by (intro exI [of _ "open_read ?s2"]) auto
qed

end
