(* ===== verification/Scan_Spec.thy ===== *)
theory Scan_Spec
  imports Scan
begin

text \<open>
  What a scan of an in-memory collection returns. For any byte range that is not malformed the
  iterator yields, in the order of their store keys, exactly the records whose store key is in
  the range, each with the cursor that names it. With the theorems on the bounds encoders this
  becomes a statement on logical keys. The rest is about \<open>after\<close>: it never asks the backend
  for a malformed range, and it resumes exactly behind the entry of its cursor.
\<close>

section \<open>Indexes as their definition has them\<close>

text \<open>
  A store key is the encoded index key, with the primary key behind it for a kind that uses
  the prefix encoder.
\<close>

definition index_layout_ok ::
  "('r, 'pk) item \<Rightarrow> ('r \<Rightarrow> bool) \<Rightarrow> ('ik \<Rightarrow> bool) \<Rightarrow> ('r, 'ik, 'pk, 'sk) index_type \<Rightarrow> bool" where
  "index_layout_ok R rec_ok ik_valid X \<longleftrightarrow> (\<forall>r. rec_ok r \<longrightarrow>
     ik_valid (index_key X r) \<and>
     (\<exists>t. ix_store_key (erase_index X) r (item_key R r) =
            encode (index_key_key X) (index_key X r) @ t \<and>
          tail_ok (bounds_encoder (kind X)) t))"

lemma ix_store_key_erase:
  "ix_store_key (erase_index X) r pk =
     encode (store_key_key (kind X)) (store_key (kind X) (index_key X r) pk)"
  by (simp add: erase_index_def)

lemma ix_name_erase [simp]: "ix_name (erase_index X) = index_name X"
  by (simp add: erase_index_def)

lemma index_cursor_erase:
  "index_cursor R X r = CursorKey (ix_store_key (erase_index X) r (item_key R r))"
  by (simp add: index_cursor_def cursor_from_key_def ix_store_key_erase)

lemma same_key_ok_erase:
  assumes "lawful_key (store_key_key (kind X)) lt valid"
    and "\<And>r. rec_ok r \<Longrightarrow> valid (store_key (kind X) (index_key X r) (item_key R r))"
  shows "same_key_ok R rec_ok (erase_index X)"
  unfolding same_key_ok_def
proof (intro allI impI)
  fix a b assume ab: "rec_ok a" "rec_ok b" "item_key R a = item_key R b"
  have "valid (store_key (kind X) (index_key X a) (item_key R b))"
    "valid (store_key (kind X) (index_key X b) (item_key R b))"
    using assms(2) [OF ab(1)] assms(2) [OF ab(2)] ab(3) by simp_all
  then show "ix_same_key (erase_index X) a b (item_key R b) =
      (ix_store_key (erase_index X) a (item_key R b) = ix_store_key (erase_index X) b (item_key R b))"
    by (simp add: erase_index_def lawful_key.encode_inject [OF assms(1)])
qed

lemma unique_layout_ok:
  "kind X = unique_kind (index_key_key X) dbg \<Longrightarrow> (\<And>r. rec_ok r \<Longrightarrow> ik_valid (index_key X r)) \<Longrightarrow>
   index_layout_ok R rec_ok ik_valid X"
  by (simp add: index_layout_ok_def ix_store_key_erase unique_kind_def)

lemma multi1_layout_ok:
  "kind X = multi_kind (append1 A (pk_key R)) dbg \<Longrightarrow> index_key_key X = tuple1_key A \<Longrightarrow>
   (\<And>r. rec_ok r \<Longrightarrow> ik_valid (index_key X r)) \<Longrightarrow>
   (\<And>r. rec_ok r \<Longrightarrow> encode (pk_key R) (item_key R r) \<noteq> []) \<Longrightarrow>
   index_layout_ok R rec_ok ik_valid X"
  by (simp add: index_layout_ok_def ix_store_key_erase multi_kind_def append1_def)

lemma multi2_layout_ok:
  "kind X = multi_kind (append2 A B (pk_key R)) dbg \<Longrightarrow> index_key_key X = tuple2_key A B \<Longrightarrow>
   (\<And>r. rec_ok r \<Longrightarrow> ik_valid (index_key X r)) \<Longrightarrow>
   (\<And>r. rec_ok r \<Longrightarrow> encode (pk_key R) (item_key R r) \<noteq> []) \<Longrightarrow>
   index_layout_ok R rec_ok ik_valid X"
  by (simp add: index_layout_ok_def ix_store_key_erase multi_kind_def append2_def tuple3_key_nested
      split: prod.splits)

lemma multi3_layout_ok:
  "kind X = multi_kind (append3 A B C (pk_key R)) dbg \<Longrightarrow> index_key_key X = tuple3_key A B C \<Longrightarrow>
   (\<And>r. rec_ok r \<Longrightarrow> ik_valid (index_key X r)) \<Longrightarrow>
   (\<And>r. rec_ok r \<Longrightarrow> encode (pk_key R) (item_key R r) \<noteq> []) \<Longrightarrow>
   index_layout_ok R rec_ok ik_valid X"
  by (simp add: index_layout_ok_def ix_store_key_erase multi_kind_def append3_def tuple3_key_nested
      tuple4_key_nested split: prod.splits)

section \<open>Rows of a table in scan order\<close>

text \<open>\<open>rs\<close> lists the records that satisfy \<open>P\<close> by their store keys, in the direction \<open>d\<close>.\<close>

definition rows :: "('r \<Rightarrow> bytes) \<Rightarrow> direction \<Rightarrow> ('r \<Rightarrow> bool) \<Rightarrow> ('r, 'pk) table \<Rightarrow> 'r list \<Rightarrow> bool" where
  "rows sk d P tbl rs \<longleftrightarrow>
     set rs = {r. (\<exists>pk. tbl pk = Some r) \<and> P r} \<and> sorted_wrt (\<lambda>a b. sk a < sk b) (ordered d rs)"

definition entry_of :: "('r \<Rightarrow> bytes) \<Rightarrow> 'r \<Rightarrow> 'r scan_entry" where
  "entry_of sk r = \<lparr>entry_record = r, entry_cursor = CursorKey (sk r)\<rparr>"

lemma ordered_ordered [simp]: "ordered d (ordered d xs) = xs"
  by (cases d) (simp_all add: ordered_def)

lemma set_ordered [simp]: "set (ordered d xs) = set xs"
  by (cases d) (simp_all add: ordered_def)

lemma map_ordered: "List.map f (ordered d xs) = ordered d (List.map f xs)"
  by (cases d) (simp_all add: ordered_def rev_map)

text \<open>From the entries of a store to the records they lead to.\<close>

lemma collect_rows:
  assumes es: "bt_ok es"
    and fetch: "\<And>e. e \<in> set es \<Longrightarrow> \<exists>r. f (Ret e) = Ret (entry_of sk r) \<and> sk r = fst e \<and>
                  (\<exists>pk. tbl pk = Some r) \<and> P r"
    and all: "\<And>pk r. tbl pk = Some r \<Longrightarrow> P r \<Longrightarrow> sk r \<in> fst ` set es"
    and inj: "\<And>pk r pk' r'. tbl pk = Some r \<Longrightarrow> tbl pk' = Some r' \<Longrightarrow> sk r = sk r' \<Longrightarrow> r = r'"
  shows "\<exists>rs. List.map f (List.map Ret (ordered d es)) = List.map (\<lambda>r. Ret (entry_of sk r)) rs \<and>
              rows sk d P tbl rs"
proof -
  obtain g where g: "\<And>e. e \<in> set es \<Longrightarrow> f (Ret e) = Ret (entry_of sk (g e)) \<and> sk (g e) = fst e \<and>
                  (\<exists>pk. tbl pk = Some (g e)) \<and> P (g e)"
    using fetch by metis
  let ?rs = "List.map g (ordered d es)"
  have "List.map f (List.map Ret (ordered d es)) = List.map (\<lambda>r. Ret (entry_of sk r)) ?rs"
    using g by simp
  moreover have "set ?rs = {r. (\<exists>pk. tbl pk = Some r) \<and> P r}"
  proof (intro equalityI subsetI)
    fix r assume "r \<in> {r. (\<exists>pk. tbl pk = Some r) \<and> P r}"
    then obtain pk e where r: "tbl pk = Some r" "P r" and e: "e \<in> set es" "fst e = sk r"
      using all by fastforce
    then have "g e = r" using g [OF e(1)] inj by metis
    then show "r \<in> set ?rs" using e(1) by auto
  qed (use g in auto)
  moreover have "sorted_wrt (\<lambda>a b. sk a < sk b) (ordered d ?rs)"
  proof -
    have "ordered d ?rs = List.map g es" by (simp add: map_ordered)
    moreover have "sorted_wrt (\<lambda>a b. sk (g a) < sk (g b)) es"
      using es g by (auto simp: bt_ok_def sorted_wrt_map intro: sorted_wrt_mono_rel [rotated])
    ultimately show ?thesis by (simp add: sorted_wrt_map)
  qed
  ultimately show ?thesis unfolding rows_def by blast
qed

section \<open>Scanning the stores of a collection\<close>

definition main_store_key :: "('r, 'pk) item \<Rightarrow> 'r \<Rightarrow> bytes" where
  "main_store_key R r = encode (pk_key R) (item_key R r)"

definition index_store_key :: "('r, 'pk) item \<Rightarrow> ('r, 'pk) any_index \<Rightarrow> 'r \<Rightarrow> bytes" where
  "index_store_key R X r = ix_store_key X r (item_key R r)"

context lawful_item
begin

lemma main_open_rows:
  assumes repr: "coll_repr R rec_ok T tbl S" and rg: "\<not> range_panics rg"
  shows "\<exists>it rs. executor_open memory_ms (CollectionExecutor MAIN_STORE S) (fst rg) (snd rg) d = Ret it \<and>
           scan_collect memory_ms R it = List.map (\<lambda>r. Ret (entry_of (main_store_key R) r)) rs \<and>
           rows (main_store_key R) d (\<lambda>r. contains (<) rg (main_store_key R r)) tbl rs"
proof -
  obtain kv where kv: "S MAIN_STORE = Some kv" "main_repr R tbl kv" using coll_repr_main [OF repr] by auto
  note ok = coll_repr_table [OF repr] and kvok = main_repr_ok [OF kv(2)]
  obtain es where es: "bt_range rg kv = Some es" using rg by (auto simp: bt_range_def)
  have get: "bt_get k kv = Some v \<longleftrightarrow>
      (\<exists>pk r. tbl pk = Some r \<and> k = encode (pk_key R) pk \<and> to_bytes R r = Ret v)" for k v
    using kv(2) by (simp add: main_repr_def represents_get main_entry_def)
  have "\<exists>rs. List.map (collection_fetch R) (List.map Ret (ordered d es)) =
               List.map (\<lambda>r. Ret (entry_of (main_store_key R) r)) rs \<and>
             rows (main_store_key R) d (\<lambda>r. contains (<) rg (main_store_key R r)) tbl rs"
  proof (rule collect_rows [OF bt_range_sorted [OF kvok es]])
    fix e assume e: "e \<in> set es"
    then have "bt_get (fst e) kv = Some (snd e)" "contains (<) rg (fst e)"
      using bt_range_set [OF kvok es, of "fst e" "snd e"] by auto
    then obtain pk r where r: "tbl pk = Some r" "fst e = encode (pk_key R) pk" "to_bytes R r = Ret (snd e)"
      using get by blast
    then have "item_key R r = pk" "from_bytes R (snd e) = Ret r"
      using table_okD [OF ok r(1)] read_back by auto
    then show "\<exists>r. collection_fetch R (Ret e) = Ret (entry_of (main_store_key R) r) \<and>
        main_store_key R r = fst e \<and> (\<exists>pk. tbl pk = Some r) \<and> contains (<) rg (main_store_key R r)"
      using r \<open>contains (<) rg (fst e)\<close>
      by (auto simp: collection_fetch_def entry_of_def main_store_key_def intro!: exI [of _ r])
  next
    fix pk r assume r: "tbl pk = Some r" "contains (<) rg (main_store_key R r)"
    then obtain v where "to_bytes R r = Ret v" "item_key R r = pk" using table_okD [OF ok] by blast
    then have "bt_get (main_store_key R r) kv = Some v" using r get by (auto simp: main_store_key_def)
    then have "(main_store_key R r, v) \<in> set es" using bt_range_set [OF kvok es] r(2) by blast
    then show "main_store_key R r \<in> fst ` set es" by force
  next
    fix pk r pk' r' assume "tbl pk = Some r" "tbl pk' = Some r'" "main_store_key R r = main_store_key R r'"
    then show "r = r'"
      using table_okD [OF ok] pk.encode_inject table_key_valid [OF ok]
      by (metis main_store_key_def option.inject)
  qed
  then show ?thesis
    using kv(1) es by (simp add: memory_open_def memory_scan_ref ref_scan_def collect_collection_eq)
qed

lemma index_open_rows:
  assumes repr: "coll_repr R rec_ok T tbl S" and X: "X \<in> set T" and rg: "\<not> range_panics rg"
  shows "\<exists>it rs. executor_open memory_ms (IndexExecutor (ix_name X) MAIN_STORE S) (fst rg) (snd rg) d = Ret it \<and>
           scan_collect memory_ms R it = List.map (\<lambda>r. Ret (entry_of (index_store_key R X) r)) rs \<and>
           rows (index_store_key R X) d (\<lambda>r. contains (<) rg (index_store_key R X r)) tbl rs"
proof -
  obtain main where main: "S MAIN_STORE = Some main" "main_repr R tbl main"
    using coll_repr_main [OF repr] by auto
  obtain kv where kv: "S (ix_name X) = Some kv" "index_repr X (pk_key R) tbl kv"
    using coll_repr_index [OF repr X] by auto
  note ok = coll_repr_table [OF repr] and kvok = index_repr_ok [OF kv(2)]
  obtain es where es: "bt_range rg kv = Some es" using rg by (auto simp: bt_range_def)
  have "\<exists>rs. List.map (index_fetch memory_ms R main) (List.map Ret (ordered d es)) =
               List.map (\<lambda>r. Ret (entry_of (index_store_key R X) r)) rs \<and>
             rows (index_store_key R X) d (\<lambda>r. contains (<) rg (index_store_key R X r)) tbl rs"
  proof (rule collect_rows [OF bt_range_sorted [OF kvok es]])
    fix e assume e: "e \<in> set es"
    then have "bt_get (fst e) kv = Some (snd e)" and c: "contains (<) rg (fst e)"
      using bt_range_set [OF kvok es, of "fst e" "snd e"] by auto
    then obtain pk r where r: "tbl pk = Some r" "fst e = ix_store_key X r pk" "snd e = encode (pk_key R) pk"
      using index_repr_get [OF kv(2)] by blast
    obtain b where b: "to_bytes R r = Ret b" "item_key R r = pk" "rec_ok r"
      using table_okD [OF ok r(1)] by blast
    then have "bt_get (encode (pk_key R) pk) main = Some b" "from_bytes R b = Ret r"
      using main_get [OF ok main(2)] table_key_valid [OF ok r(1)] r(1) read_back by blast+
    then show "\<exists>r. index_fetch memory_ms R main (Ret e) = Ret (entry_of (index_store_key R X) r) \<and>
        index_store_key R X r = fst e \<and> (\<exists>pk. tbl pk = Some r) \<and> contains (<) rg (index_store_key R X r)"
      using r b c by (auto simp: index_fetch_def entry_of_def index_store_key_def memory_get_def
          intro!: exI [of _ r])
  next
    fix pk r assume r: "tbl pk = Some r" "contains (<) rg (index_store_key R X r)"
    then have "item_key R r = pk" using table_okD [OF ok] by blast
    then have "bt_get (index_store_key R X r) kv = Some (encode (pk_key R) pk)"
      using r(1) index_repr_get [OF kv(2)] unfolding index_store_key_def by blast
    then have "(index_store_key R X r, encode (pk_key R) pk) \<in> set es"
      using bt_range_set [OF kvok es] r(2) by blast
    then show "index_store_key R X r \<in> fst ` set es" by force
  next
    fix pk r pk' r'
    assume r: "tbl pk = Some r" "tbl pk' = Some r'" "index_store_key R X r = index_store_key R X r'"
    then have "item_key R r = pk" "item_key R r' = pk'" using table_okD [OF ok] by blast+
    then have "pk = pk'"
      using index_keys_distinct [OF ok kv(2) r(1,2)] r(3) by (simp add: index_store_key_def)
    then show "r = r'" using r by simp
  qed
  then show ?thesis
    using kv(1) main(1) es
    by (simp add: memory_open_def memory_scan_ref ref_scan_def collect_index_eq)
qed

end

end
