(* ===== verification/Scan_Results.thy ===== *)
theory Scan_Results
  imports Scan_Spec
begin

text \<open>
  Whole scan chains over a registered index: logical ranges, typed prefixes with a suffix
  range, cursors and pages, and the lookup by a unique key.
\<close>

section \<open>Rows are determined by their range\<close>

lemma rows_cong:
  "(\<And>pk r. tbl pk = Some r \<Longrightarrow> P r = Q r) \<Longrightarrow> rows sk d P tbl rs = rows sk d Q tbl rs"
  by (auto simp: rows_def)

lemma ordered_eq_iff: "ordered d xs = ordered d ys \<longleftrightarrow> xs = ys"
  by (cases d) (simp_all add: ordered_def)

lemma rows_unique:
  assumes "rows sk d P tbl rs" "rows sk d P tbl rs'"
  shows "rs = rs'"
proof -
  have sorted: "sorted_wrt (<) (List.map sk (ordered d rs))" "sorted_wrt (<) (List.map sk (ordered d rs'))"
    and same: "set (ordered d rs) = set (ordered d rs')"
    using assms by (simp_all add: rows_def sorted_wrt_map)
  have "inj_on sk (set (ordered d rs) \<union> set (ordered d rs'))"
    unfolding same [symmetric] using sorted(1) by (simp add: strict_sorted_iff distinct_map)
  then have "ordered d rs = ordered d rs'"
    using sorted same by (intro map_sorted_distinct_set_unique [of sk]) (auto simp: strict_sorted_iff)
  then show ?thesis by (simp add: ordered_eq_iff)
qed

lemma sorted_wrt_drop_set:
  assumes "sorted_wrt Q xs" "i < length xs" "\<And>x. \<not> Q x x" "\<And>x y. Q x y \<Longrightarrow> \<not> Q y x"
  shows "set (drop (Suc i) xs) = {x \<in> set xs. Q (xs ! i) x}"
proof -
  have xs: "xs = take i xs @ xs ! i # drop (Suc i) xs" using assms(2) by (rule id_take_nth_drop)
  have "sorted_wrt Q (take i xs @ xs ! i # drop (Suc i) xs)" using assms(1) xs by metis
  then have "\<forall>x \<in> set (take i xs). Q x (xs ! i)" "\<forall>x \<in> set (drop (Suc i) xs). Q (xs ! i) x"
    by (auto simp: sorted_wrt_append)
  then have "{x \<in> set (take i xs @ xs ! i # drop (Suc i) xs). Q (xs ! i) x} = set (drop (Suc i) xs)"
    using assms(3,4) by auto
  then show ?thesis using xs by metis
qed

text \<open>The order of a scan in its own direction.\<close>

fun runs_before :: "direction \<Rightarrow> bytes \<Rightarrow> bytes \<Rightarrow> bool" where
  "runs_before LeftToRight a b \<longleftrightarrow> a < b"
| "runs_before RightToLeft a b \<longleftrightarrow> b < a"

lemma sorted_ordered:
  "sorted_wrt (\<lambda>a b. sk a < sk b) (ordered d rs) \<longleftrightarrow> sorted_wrt (\<lambda>a b. runs_before d (sk a) (sk b)) rs"
  by (cases d) (simp_all add: ordered_def sorted_wrt_rev)

lemma rows_drop:
  assumes "rows sk d P tbl rs" "i < length rs"
  shows "rows sk d (\<lambda>r. P r \<and> runs_before d (sk (rs ! i)) (sk r)) tbl (drop (Suc i) rs)"
proof -
  have sorted: "sorted_wrt (\<lambda>a b. runs_before d (sk a) (sk b)) rs" and
    set_rs: "set rs = {r. (\<exists>pk. tbl pk = Some r) \<and> P r}"
    using assms(1) by (simp_all add: rows_def sorted_ordered)
  have "set (drop (Suc i) rs) = {r \<in> set rs. runs_before d (sk (rs ! i)) (sk r)}"
    by (rule sorted_wrt_drop_set [OF sorted assms(2)]) (cases d; simp)+
  then show ?thesis
    using set_rs sorted by (auto simp: rows_def sorted_ordered sorted_wrt_drop)
qed

section \<open>Chains compile to their last bounds and direction\<close>

fun after_range :: "direction \<Rightarrow> bytes \<Rightarrow> scan_range \<Rightarrow> scan_range" where
  "after_range LeftToRight key (s, e) = (Excluded key, e)"
| "after_range RightToLeft key (s, e) = (s, Excluded key)"

lemma compile_after:
  "compile X (AfterScan (CursorKey key) sc) =
     and_then (compile X sc) (\<lambda>c.
       if contains (<) (cs_range c) key
       then Ret (c\<lparr>cs_range := after_range (cs_direction c) key (cs_range c)\<rparr>)
       else Fail CursorOutOfBounds)"
proof (cases "compile X sc")
  case (Ret c)
  then show ?thesis by (cases "cs_direction c"; cases "cs_range c") simp_all
qed simp_all

lemma contains_after_range:
  "contains (<) rg key \<Longrightarrow>
   contains (<) (after_range d key rg) k \<longleftrightarrow> contains (<) rg k \<and> runs_before d key k"
  by (cases rg; cases d; cases "fst rg"; cases "snd rg") auto

lemma after_range_no_panic: "contains (<) rg key \<Longrightarrow> \<not> range_panics (after_range d key rg)"
  using contains_tighten_start [of "fst rg" "snd rg" key] contains_tighten_end [of "fst rg" "snd rg" key]
  by (cases rg; cases d) simp_all

lemma compile_after_none: "compile X (AfterScan NoCursor sc) = compile X sc"
  by simp

lemma compile_only_cursor_fails:
  "compile X sc = Fail e \<Longrightarrow> e = CursorOutOfBounds"
proof (induction sc)
  case (AfterScan cur sc)
  show ?case
  proof (cases cur)
    case NoCursor
    then show ?thesis using AfterScan by (cases "compile X sc") auto
  next
    case (CursorKey k)
    then show ?thesis
      using AfterScan by (cases "compile X sc") (auto simp: compile_after simp del: compile.simps split: if_splits)
  qed
next
  case (PrefixedScan p sc)
  then show ?case by (cases "compile X sc") auto
next
  case (RangeScan r sc)
  then show ?case by (cases "compile X sc") auto
next
  case (DirectedScan d sc)
  then show ?case by (cases "compile X sc") auto
qed simp

lemma compile_returns: "compile X sc \<noteq> Panicked \<and> compile X sc \<noteq> Hung"
proof (induction sc)
  case (AfterScan cur sc)
  then show ?case
    by (cases "compile X sc"; cases cur)
      (auto simp: compile_after compile_after_none split: if_splits simp del: compile.simps(5) compile_cursor_def)
next
  case (PrefixedScan p sc)
  then show ?case by (cases "compile X sc") auto
next
  case (RangeScan r sc)
  then show ?case by (cases "compile X sc") auto
next
  case (DirectedScan d sc)
  then show ?case by (cases "compile X sc") auto
qed simp

section \<open>Scans of an index on the in-memory backend\<close>

context lawful_item
begin

lemma index_scan_rows:
  assumes "coll_repr R rec_ok T tbl S" "X \<in> set T"
    and c: "compile Xp sc = Ret c" and ex: "cs_executor c = IndexExecutor (ix_name X) MAIN_STORE S"
    and rg: "\<not> range_panics (cs_range c)"
  shows "\<exists>it rs. scan_iter memory_ms Xp sc = Ret it \<and>
           scan_collect memory_ms R it = List.map (\<lambda>r. Ret (entry_of (index_store_key R X) r)) rs \<and>
           rows (index_store_key R X) (cs_direction c) (\<lambda>r. contains (<) (cs_range c) (index_store_key R X r)) tbl rs"
  using index_open_rows [OF assms(1,2) rg, of "cs_direction c"] c ex
  by (simp add: scan_iter_def compiled_iter_def)

lemma index_scan_panics:
  assumes "coll_repr R rec_ok T tbl S" "X \<in> set T"
    and "compile Xp sc = Ret c" "cs_executor c = IndexExecutor (ix_name X) MAIN_STORE S"
    and "range_panics (cs_range c)"
  shows "scan_iter memory_ms Xp sc = Panicked"
  using coll_repr_index [OF assms(1,2)] assms(3-5)
  by (auto simp: scan_iter_def compiled_iter_def memory_open_def memory_scan_def bt_range_def)

text \<open>The store key of a record of a typed index against a range of index keys.\<close>

lemma index_range_iff:
  assumes K: "lawful_key (index_key_key X) ltk ik_valid"
    and lay: "index_layout_ok R rec_ok ik_valid X" and r: "rec_ok r"
    and rg: "bound_valid ik_valid (fst rg)" "bound_valid ik_valid (snd rg)"
    and suc: "bounds_encoder (kind X) = PrefixEncoder \<Longrightarrow> start_has_successor (index_key_key X) (fst rg)"
  shows "contains (<) (encode_range (bounds_encoder (kind X)) (index_key_key X) rg)
           (index_store_key R (erase_index X) r) \<longleftrightarrow> contains ltk rg (index_key X r)"
proof -
  obtain t where "index_store_key R (erase_index X) r = encode (index_key_key X) (index_key X r) @ t"
      "tail_ok (bounds_encoder (kind X)) t" "ik_valid (index_key X r)"
    using lay r by (auto simp: index_layout_ok_def index_store_key_def)
  then show ?thesis using lawful_key.contains_encode_range [OF K rg _ _ suc] by simp
qed

lemma index_prefixed_range_iff:
  assumes K: "prefixable (index_key_key X) ltk ik_valid Xp ltp vp lts vs"
    and lay: "index_layout_ok R rec_ok ik_valid X" and r: "rec_ok r" and p: "vp p"
    and rg: "bound_valid vs (fst rg)" "bound_valid vs (snd rg)"
    and suc: "bounds_encoder (kind X) = PrefixEncoder \<Longrightarrow>
      start_has_successor (index_key_key X) (map_bound (compose Xp p) (fst rg))"
  shows "contains (<) (encode_prefixed_range (bounds_encoder (kind X)) (index_key_key X) Xp p rg)
           (index_store_key R (erase_index X) r) \<longleftrightarrow>
         (\<exists>s. vs s \<and> index_key X r = compose Xp p s \<and> contains lts rg s)"
proof -
  obtain t where "index_store_key R (erase_index X) r = encode (index_key_key X) (index_key X r) @ t"
      "tail_ok (bounds_encoder (kind X)) t" "ik_valid (index_key X r)"
    using lay r by (auto simp: index_layout_ok_def index_store_key_def)
  then show ?thesis using prefixable.contains_prefixed_range [OF K p _ rg _ suc] by simp
qed

lemma index_prefix_iff:
  assumes K: "prefixable (index_key_key X) ltk ik_valid Xp ltp vp lts vs"
    and lay: "index_layout_ok R rec_ok ik_valid X" and r: "rec_ok r" and p: "vp p"
  shows "contains (<) (encode_prefix_range Xp p) (index_store_key R (erase_index X) r) \<longleftrightarrow>
         (\<exists>s. vs s \<and> index_key X r = compose Xp p s)"
proof -
  obtain t where "index_store_key R (erase_index X) r = encode (index_key_key X) (index_key X r) @ t"
      "ik_valid (index_key X r)"
    using lay r by (auto simp: index_layout_ok_def index_store_key_def)
  then show ?thesis
    using prefixable.has_prefix_iff [OF K p, of "index_key X r" t]
    by (simp add: encode_prefix_range_def Let_def contains_prefix_range del: contains.simps)
qed

section \<open>Lookup by a unique key\<close>

lemma unique_get_eq:
  assumes repr: "coll_repr R rec_ok T tbl S" and X: "erase_index X \<in> set T"
    and K: "lawful_key (index_key_key X) ltk ik_valid" and k: "ik_valid k"
    and lay: "index_layout_ok R rec_ok ik_valid X" and uniq: "bounds_encoder (kind X) = ExactEncoder"
  shows "\<exists>found. index_get memory_ms R (index_key_key X) (index_name X) MAIN_STORE S k = Ret found \<and>
           (\<forall>r. found = Some r \<longleftrightarrow> (\<exists>pk. tbl pk = Some r) \<and> index_key X r = k)"
proof -
  obtain main where main: "S MAIN_STORE = Some main" "main_repr R tbl main"
    using coll_repr_main [OF repr] by auto
  obtain kv where kv: "S (index_name X) = Some kv" "index_repr (erase_index X) (pk_key R) tbl kv"
    using coll_repr_index [OF repr X] by auto
  note ok = coll_repr_table [OF repr]
  have sk: "ix_store_key (erase_index X) r pk = encode (index_key_key X) (index_key X r) \<and>
      ik_valid (index_key X r)" if "tbl pk = Some r" for pk r
    using lay uniq table_okD [OF ok that] by (force simp: index_layout_ok_def)
  have get: "bt_get (encode (index_key_key X) k) kv = Some v \<longleftrightarrow>
      (\<exists>pk r. tbl pk = Some r \<and> index_key X r = k \<and> v = encode (pk_key R) pk)" for v
    unfolding index_repr_get [OF kv(2)]
    using sk lawful_key.encode_inject [OF K k] by metis
  show ?thesis
  proof (cases "bt_get (encode (index_key_key X) k) kv")
    case None
    then have "\<nexists>pk r. tbl pk = Some r \<and> index_key X r = k" using get by (metis option.distinct(1))
    then show ?thesis
      using None kv(1) by (auto simp: index_get_def memory_open_def memory_get_def)
  next
    case (Some v)
    then obtain pk r where r: "tbl pk = Some r" "index_key X r = k" "v = encode (pk_key R) pk"
      using get by auto
    obtain b where b: "to_bytes R r = Ret b" "rec_ok r" using table_okD [OF ok r(1)] by blast
    then have "bt_get (encode (pk_key R) pk) main = Some b" "from_bytes R b = Ret r"
      using main_get [OF ok main(2)] table_key_valid [OF ok r(1)] r(1) read_back by blast+
    then have "index_get memory_ms R (index_key_key X) (index_name X) MAIN_STORE S k = Ret (Some r)"
      using Some kv(1) main(1) r(3) by (simp add: index_get_def memory_open_def memory_get_def)
    moreover have "r' = r" if "tbl pk' = Some r'" "index_key X r' = k" for pk' r'
    proof -
      have "pk' = pk"
        using index_keys_distinct [OF ok kv(2) that(1) r(1)] sk [OF that(1)] sk [OF r(1)] that(2) r(2)
        by simp
      then show ?thesis using that r by simp
    qed
    ultimately show ?thesis using r by blast
  qed
qed

end

section \<open>Multi indexes\<close>

text \<open>A store key that ends in the primary key belongs to one record only.\<close>

lemma index_conflict_none:
  assumes "\<And>r r' pk pk'. ix_store_key X r pk = ix_store_key X r' pk' \<Longrightarrow> rec_ok r \<Longrightarrow> rec_ok r' \<Longrightarrow>
             item_key R r = pk \<Longrightarrow> item_key R r' = pk' \<Longrightarrow> pk = pk'"
    and "table_ok R rec_ok tbl" "rec_ok new" "item_key R new = pk"
  shows "\<not> index_conflict X tbl pk new"
  using assms table_okD [OF assms(2)] unfolding index_conflict_def by metis

lemma multi_store_key_pk:
  assumes K: "lawful_key (tuple2_key A P) lt (both va vp)"
    and X: "kind X = multi_kind (append1 A P) dbg"
    and v: "va (tup1_0 (index_key X r))" "vp pk" "va (tup1_0 (index_key X r'))" "vp pk'"
    and same: "ix_store_key (erase_index X) r pk = ix_store_key (erase_index X) r' pk'"
  shows "pk = pk'"
proof -
  have "encode (tuple2_key A P) (tup1_0 (index_key X r), pk) = encode (tuple2_key A P) (tup1_0 (index_key X r'), pk')"
    using same by (simp add: ix_store_key_erase X multi_kind_def append1_def)
  then show ?thesis
    using lawful_key.encode_inject [OF K, of "(tup1_0 (index_key X r), pk)" "(tup1_0 (index_key X r'), pk')"] v
    by (simp add: both_def)
qed

end
