(* ===== verification/Memory_Collection.thy ===== *)
theory Memory_Collection
  imports Scan_Results
begin

text \<open>
  Collections on the in-memory backend, end to end. \<open>memory_holds\<close> says that a database with no
  writer holds a table of records in one namespace; the lemmas run the methods of the
  collection from such a database and land in another one. The backend adds no errors of its
  own, so the outcome is that of the specification.
\<close>

definition memory_holds ::
  "('r, 'pk) item \<Rightarrow> ('r \<Rightarrow> bool) \<Rightarrow> ('r, 'pk) registry \<Rightarrow> name \<Rightarrow> ('r, 'pk) table \<Rightarrow> memory_db \<Rightarrow> bool" where
  "memory_holds R rec_ok T nm tbl db \<longleftrightarrow>
     memory_inv db \<and> (\<exists>S. memory_abs db nm = Some S \<and> coll_repr R rec_ok T tbl S)"

text \<open>
  The outcome of a mutating method: on success a database that holds the new table, with the
  other namespaces untouched; on an error or a panic the database as it was.
\<close>

definition memory_result ::
  "('r, 'pk) item \<Rightarrow> ('r \<Rightarrow> bool) \<Rightarrow> ('r, 'pk) registry \<Rightarrow> name \<Rightarrow> memory_db \<Rightarrow>
   (error, ('r, 'pk) table) outcome \<Rightarrow> (error, unit) outcome \<times> memory_db \<Rightarrow> bool" where
  "memory_result R rec_ok T nm db spec x \<longleftrightarrow>
     (case spec of
        Ret tbl \<Rightarrow> fst x = Ret () \<and> memory_holds R rec_ok T nm tbl (snd x) \<and>
                     (\<forall>m. m \<noteq> nm \<longrightarrow> snd x m = db m)
      | Fail e \<Rightarrow> x = (Fail e, db)
      | Panicked \<Rightarrow> x = (Panicked, db)
      | Hung \<Rightarrow> fst x = Hung)"

lemma memory_inv_closed: "memory_inv db \<Longrightarrow> db ns = Some st \<Longrightarrow> \<not> writer_open st"
  by (auto simp: memory_inv_def)

text \<open>An idle database is determined by its published stores.\<close>

lemma memory_eq_at:
  assumes "memory_inv db" "memory_inv db'" "memory_abs db ns = memory_abs db' ns"
  shows "db ns = db' ns"
proof (cases "db ns")
  case None
  then show ?thesis using assms(3) by (simp add: memory_abs_def)
next
  case (Some st)
  then obtain st' where st': "db' ns = Some st'" "ns_stores st' = ns_stores st"
    using assms(3) by (cases "db' ns") (auto simp: memory_abs_def)
  then have "st' = st"
    using memory_inv_closed [OF assms(1) Some] memory_inv_closed [OF assms(2) st'(1)]
    by (intro namespaced_state.equality) simp_all
  then show ?thesis using Some st' by simp
qed

lemma memory_eqI: "memory_inv db \<Longrightarrow> memory_inv db' \<Longrightarrow> memory_abs db = memory_abs db' \<Longrightarrow> db = db'"
  using memory_eq_at by (intro ext) metis

text \<open>From the refinement to the reference, and the agreement there, to the outcome.\<close>

lemma memory_resultI:
  assumes inv: "memory_inv db"
    and ref: "mem.call_refines db x y"
    and agr: "agrees R rec_ok T nm (memory_abs db) spec y"
  shows "memory_result R rec_ok T nm db spec x"
proof -
  have x: "fst x = fst y" "memory_abs (snd x) = snd y" "fst x \<noteq> Hung \<longrightarrow> memory_inv (snd x)"
    using ref by (auto simp: mem.call_refines_def)
  have same: "snd x = db" if "fst y \<noteq> Hung" "snd y = memory_abs db"
    using that x inv by (intro memory_eqI) auto
  show ?thesis
  proof (cases spec)
    case (Ret tbl)
    then obtain S where S: "fst y = Ret ()" "snd y = (memory_abs db)(nm \<mapsto> S)" "coll_repr R rec_ok T tbl S"
      using agr by (auto simp: agrees_def)
    then have i: "memory_inv (snd x)" using x by simp
    have "snd x m = db m" if "m \<noteq> nm" for m
      by (rule memory_eq_at [OF i inv]) (use x(2) S(2) that in simp)
    then show ?thesis
      using Ret S x i by (simp add: memory_result_def memory_holds_def)
  next
    case (Fail e)
    then show ?thesis using agr x same by (cases x) (auto simp: agrees_def memory_result_def)
  next
    case Panicked
    then show ?thesis using agr x same by (cases x) (auto simp: agrees_def memory_result_def)
  next
    case Hung
    then show ?thesis using agr x by (auto simp: agrees_def memory_result_def)
  qed
qed

lemma memory_holdsD:
  assumes "memory_holds R rec_ok T nm tbl db"
  obtains S where "memory_inv db" "memory_abs db nm = Some S" "coll_repr R rec_ok T tbl S"
  using assms by (auto simp: memory_holds_def)

context lawful_item
begin

lemma memory_insert:
  assumes "memory_holds R rec_ok T nm tbl db" "registry_ok R rec_ok T" "rec_ok r"
  shows "memory_result R rec_ok T nm db (spec_insert R T r tbl) (collection_insert memory_ms R T nm r db)"
  using assms(1) by (rule memory_holdsD)
    (rule memory_resultI, assumption, rule mem.collection_insert_refines, assumption,
     rule insert_agrees, assumption+, rule assms(2), rule assms(3))

lemma memory_update:
  assumes "memory_holds R rec_ok T nm tbl db" "registry_ok R rec_ok T" "rec_ok r"
  shows "memory_result R rec_ok T nm db (spec_update R T r tbl) (collection_update memory_ms R T nm r db)"
  using assms(1) by (rule memory_holdsD)
    (rule memory_resultI, assumption, rule mem.collection_update_refines, assumption,
     rule update_agrees, assumption+, rule assms(2), rule assms(3))

lemma memory_save:
  assumes "memory_holds R rec_ok T nm tbl db" "registry_ok R rec_ok T" "rec_ok r"
  shows "memory_result R rec_ok T nm db (spec_save R T r tbl) (collection_save memory_ms R T nm r db)"
  using assms(1) by (rule memory_holdsD)
    (rule memory_resultI, assumption, rule mem.collection_save_refines, assumption,
     rule save_agrees, assumption+, rule assms(2), rule assms(3))

lemma memory_remove_row:
  assumes "memory_holds R rec_ok T nm tbl db" "registry_ok R rec_ok T" "pk_valid pk"
  shows "memory_result R rec_ok T nm db (spec_remove pk tbl) (collection_remove memory_ms R T nm pk db)"
  using assms(1) by (rule memory_holdsD)
    (rule memory_resultI, assumption, rule mem.collection_remove_refines, assumption,
     rule remove_agrees, assumption+, rule assms(2), rule assms(3))

lemma memory_get_row:
  assumes "memory_holds R rec_ok T nm tbl db" "pk_valid pk"
  shows "collection_get memory_ms R nm pk db = Ret (tbl pk)"
  using assms(1)
proof (rule memory_holdsD)
  fix S assume S: "memory_inv db" "memory_abs db nm = Some S" "coll_repr R rec_ok T tbl S"
  have "collection_get ref_ms R nm pk (memory_abs db) = Ret (tbl pk)"
    by (rule get_agrees [where S = S]) (use S assms(2) in auto)
  then show ?thesis
    using mem.collection_get_refines [OF S(1), of R nm pk] by (simp add: refines_def)
qed

end

text \<open>A fresh collection is prepared empty, whatever the other namespaces hold.\<close>

lemma coll_repr_fresh:
  "coll_repr R rec_ok T (\<lambda>_. None) (prepared_stores (registry_store_names T [MAIN_STORE]) (\<lambda>_. None))"
  by (auto simp: coll_repr_def table_ok_empty prepared_stores_def registry_store_names_eq
      main_repr_empty index_repr_empty)

lemma memory_new_holds:
  assumes "memory_inv db" "db nm = None"
  shows "\<exists>db'. collection_new memory_ms T nm db = Ret db' \<and>
           memory_holds R rec_ok T nm (\<lambda>_. None) db' \<and> (\<forall>m. m \<noteq> nm \<longrightarrow> db' m = db m)"
proof -
  obtain db' where db': "collection_new memory_ms T nm db = Ret db'" "memory_inv db'"
      "collection_new ref_ms T nm (memory_abs db) = Ret (memory_abs db')"
    using mem.collection_new_refines [OF assms(1), of T nm] by auto
  have a: "memory_abs db' = (memory_abs db)(nm \<mapsto> prepared_stores (registry_store_names T [MAIN_STORE]) (\<lambda>_. None))"
    using db'(3) assms(2) by (simp add: collection_new_def ref_prepare_def memory_abs_def)
  have "db' m = db m" if "m \<noteq> nm" for m
    by (rule memory_eq_at [OF db'(2) assms(1)]) (simp add: a that)
  then show ?thesis using db' a coll_repr_fresh by (auto simp: memory_holds_def)
qed

text \<open>Reopening a collection on a namespace that already holds it changes nothing.\<close>

lemma coll_repr_prepared:
  assumes "coll_repr R rec_ok T tbl S"
  shows "coll_repr R rec_ok T tbl (prepared_stores (registry_store_names T [MAIN_STORE]) S)"
  using assms by (auto simp: coll_repr_def prepared_stores_def registry_store_names_eq split: option.splits)

lemma memory_new_reopens:
  assumes "memory_holds R rec_ok T nm tbl db"
  shows "\<exists>db'. collection_new memory_ms T nm db = Ret db' \<and> memory_holds R rec_ok T nm tbl db' \<and>
           (\<forall>m. m \<noteq> nm \<longrightarrow> db' m = db m)"
  using assms
proof (rule memory_holdsD)
  fix S assume S: "memory_inv db" "memory_abs db nm = Some S" "coll_repr R rec_ok T tbl S"
  obtain db' where db': "collection_new memory_ms T nm db = Ret db'" "memory_inv db'"
      "collection_new ref_ms T nm (memory_abs db) = Ret (memory_abs db')"
    using mem.collection_new_refines [OF S(1), of T nm] by auto
  have a: "memory_abs db' = (memory_abs db)(nm \<mapsto> prepared_stores (registry_store_names T [MAIN_STORE]) S)"
    using db'(3) S(2) by (simp add: collection_new_def ref_prepare_def)
  have "db' m = db m" if "m \<noteq> nm" for m
    by (rule memory_eq_at [OF db'(2) S(1)]) (simp add: a that)
  then show ?thesis using db' a coll_repr_prepared [OF S(3)] by (auto simp: memory_holds_def)
qed

section \<open>Scans of a collection in memory\<close>

lemma memory_index_scan:
  "memory_abs db nm = Some S \<Longrightarrow>
   collection_index_scan memory_ms nm X db = Ret (index_scan_new (index_name X) S MAIN_STORE)"
  by (auto simp: collection_index_scan_def memory_read_def memory_abs_def)

lemma memory_collection_scan:
  "memory_abs db nm = Some S \<Longrightarrow>
   collection_scan memory_ms nm db = Ret (collection_scan_new S MAIN_STORE)"
  by (auto simp: collection_scan_def memory_read_def memory_abs_def)

text \<open>An index of the collection, with its key type and its layout.\<close>

definition index_of ::
  "('r, 'pk) item \<Rightarrow> ('r \<Rightarrow> bool) \<Rightarrow> ('r, 'pk) registry \<Rightarrow> ('ik \<Rightarrow> 'ik \<Rightarrow> bool) \<Rightarrow> ('ik \<Rightarrow> bool) \<Rightarrow>
   ('r, 'ik, 'pk, 'sk) index_type \<Rightarrow> bool" where
  "index_of R rec_ok T ltk ik_valid X \<longleftrightarrow> erase_index X \<in> set T \<and>
     lawful_key (index_key_key X) ltk ik_valid \<and> index_layout_ok R rec_ok ik_valid X"

text \<open>The executor at the bottom of a chain.\<close>

fun scan_base :: "('rh, 'p) scan \<Rightarrow> 'rh executor" where
  "scan_base (FullScan ex) = ex"
| "scan_base (PrefixedScan p sc) = scan_base sc"
| "scan_base (RangeScan r sc) = scan_base sc"
| "scan_base (DirectedScan d sc) = scan_base sc"
| "scan_base (AfterScan cur sc) = scan_base sc"

lemma compile_executor: "compile Xp sc = Ret c \<Longrightarrow> cs_executor c = scan_base sc"
proof (induction sc arbitrary: c)
  case (AfterScan cur sc)
  then obtain c0 where c0: "compile Xp sc = Ret c0" by (cases "compile Xp sc") auto
  then show ?case
    using AfterScan
    by (cases cur) (auto simp: compile_after compile_after_none simp del: compile.simps(5) compile_cursor_def split: if_splits)
next
  case (PrefixedScan p sc)
  then show ?case by (cases "compile Xp sc") auto
next
  case (RangeScan r sc)
  then show ?case by (cases "compile Xp sc") auto
next
  case (DirectedScan d sc)
  then show ?case by (cases "compile Xp sc") auto
qed auto

text \<open>The entries of a list of records, as an index scan yields them.\<close>

definition index_entries ::
  "('r, 'pk) item \<Rightarrow> ('r, 'ik, 'pk, 'sk) index_type \<Rightarrow> 'r list \<Rightarrow> (error, 'r scan_entry) outcome list" where
  "index_entries R X rs = List.map (\<lambda>r. Ret \<lparr>entry_record = r, entry_cursor = index_cursor R X r\<rparr>) rs"

definition main_entries :: "('r, 'pk) item \<Rightarrow> 'r list \<Rightarrow> (error, 'r scan_entry) outcome list" where
  "main_entries R rs =
     List.map (\<lambda>r. Ret \<lparr>entry_record = r, entry_cursor = cursor_from_key (pk_key R) (item_key R r)\<rparr>) rs"

lemma index_entries_eq:
  "List.map (\<lambda>r. Ret (entry_of (index_store_key R (erase_index X)) r)) rs = index_entries R X rs"
  by (simp add: index_entries_def entry_of_def index_cursor_erase index_store_key_def)

lemma main_entries_eq: "List.map (\<lambda>r. Ret (entry_of (main_store_key R) r)) rs = main_entries R rs"
  by (simp add: main_entries_def entry_of_def cursor_from_key_def main_store_key_def)

context lawful_item
begin

text \<open>What any chain over an index yields, by its compiled range and direction.\<close>

lemma memory_index_rows:
  assumes "coll_repr R rec_ok T tbl S" "index_of R rec_ok T ltk ik_valid X"
    and c: "compile Xp sc = Ret c" and base: "scan_base sc = IndexExecutor (index_name X) MAIN_STORE S"
    and rg: "\<not> range_panics (cs_range c)"
  shows "\<exists>it rs. scan_iter memory_ms Xp sc = Ret it \<and> scan_collect memory_ms R it = index_entries R X rs \<and>
           rows (index_store_key R (erase_index X)) (cs_direction c)
             (\<lambda>r. contains (<) (cs_range c) (index_store_key R (erase_index X) r)) tbl rs"
  using index_scan_rows [OF assms(1) _ c _ rg, of "erase_index X"] assms(2) compile_executor [OF c] base
  by (auto simp: index_of_def index_entries_eq)

lemma memory_index_panics:
  assumes "coll_repr R rec_ok T tbl S" "index_of R rec_ok T ltk ik_valid X"
    and c: "compile Xp sc = Ret c" and base: "scan_base sc = IndexExecutor (index_name X) MAIN_STORE S"
    and "range_panics (cs_range c)"
  shows "scan_iter memory_ms Xp sc = Panicked"
  using index_scan_panics [OF assms(1) _ c, of "erase_index X"] assms(2,5) compile_executor [OF c] base
  by (auto simp: index_of_def)

text \<open>The same for a chain over the primary store, whose keys are the encoded primary keys.\<close>

lemma memory_main_rows:
  assumes "coll_repr R rec_ok T tbl S" and c: "compile Xp sc = Ret c"
    and base: "scan_base sc = CollectionExecutor MAIN_STORE S" and rg: "\<not> range_panics (cs_range c)"
  shows "\<exists>it rs. scan_iter memory_ms Xp sc = Ret it \<and> scan_collect memory_ms R it = main_entries R rs \<and>
           rows (main_store_key R) (cs_direction c) (\<lambda>r. contains (<) (cs_range c) (main_store_key R r)) tbl rs"
  using main_open_rows [OF assms(1) rg, of "cs_direction c"] c base compile_executor [OF c]
  by (auto simp: scan_iter_def compiled_iter_def main_entries_eq)

lemma memory_main_panics:
  assumes "coll_repr R rec_ok T tbl S" and c: "compile Xp sc = Ret c"
    and base: "scan_base sc = CollectionExecutor MAIN_STORE S" and "range_panics (cs_range c)"
  shows "scan_iter memory_ms Xp sc = Panicked"
  using coll_repr_main [OF assms(1)] c base compile_executor [OF c] assms(4)
  by (auto simp: scan_iter_def compiled_iter_def memory_open_def memory_scan_def bt_range_def)

lemma pk_range_panics:
  "bound_valid pk_valid (fst rg) \<Longrightarrow> bound_valid pk_valid (snd rg) \<Longrightarrow>
   range_panics (encode_range ExactEncoder (pk_key R) rg) \<longleftrightarrow> malformed lt rg"
  by (rule pk.exact_range_panics)

lemma main_range_iff:
  assumes "table_ok R rec_ok tbl" and "tbl pk = Some r"
    and "bound_valid pk_valid (fst rg)" and "bound_valid pk_valid (snd rg)"
  shows "contains (<) (encode_range ExactEncoder (pk_key R) rg) (main_store_key R r) \<longleftrightarrow>
         contains lt rg (item_key R r)"
proof -
  have "pk_valid (item_key R r)"
    using table_okD [OF assms(1,2)] key_valid by blast
  then show ?thesis
    using pk.contains_encode_range [OF assms(3,4), of "item_key R r" ExactEncoder "[]"]
    by (simp add: main_store_key_def)
qed

end

end
