(* ===== verification/Example.thy ===== *)
theory Example
  imports Memory_Collection
begin

text \<open>
  A concrete application of the library, after the tasks of the documentation of
  \<open>src/index.rs\<close>: tasks with a numeric key, a unique index on their slot, and two \<open>Multi\<close> indexes,
  on their status and on the pair of both. It interprets the contracts that the theorems ask of an application, and
  gives the theorems a database with two tasks to be applied to.
\<close>

section \<open>The application\<close>

record task =
  task_id :: "64 word"
  task_slot :: "8 word"
  task_status :: "8 word"

definition task_to_bytes :: "task \<Rightarrow> bytes" where
  "task_to_bytes t = to_be_bytes 8 (task_id t) @ [task_slot t, task_status t]"

definition task_from_bytes :: "bytes \<Rightarrow> (std_error, task) outcome" where
  "task_from_bytes bs =
     (if length bs = 10
      then Ret \<lparr>task_id = from_be_bytes (take 8 bs), task_slot = bs ! 8, task_status = bs ! 9\<rparr>
      else Fail (StdError ''bad task'' None))"

definition task_item :: "(task, 64 word) item" where
  "task_item = \<lparr>item_key = task_id, to_bytes = (\<lambda>t. Ret (task_to_bytes t)), from_bytes = task_from_bytes,
                pk_key = u64_key, pk_debug = (\<lambda>k. decimal (unat k))\<rparr>"

definition by_slot :: "(task, 8 word, 64 word, 8 word) index_type" where
  "by_slot = \<lparr>index_name = ''by_slot'', index_key = task_slot, index_key_key = u8_key,
              kind = unique_kind u8_key (\<lambda>k. decimal (unat k))\<rparr>"

definition by_status :: "(task, 8 word tup1, 64 word, 8 word \<times> 64 word) index_type" where
  "by_status = \<lparr>index_name = ''by_status'', index_key = (\<lambda>t. Tup1 (task_status t)),
                index_key_key = tuple1_key u8_key,
                kind = multi_kind (append1 u8_key u64_key) (\<lambda>(s, k). decimal (unat s) @ '','' @ decimal (unat k))\<rparr>"

definition by_board :: "(task, 8 word \<times> 8 word, 64 word, 8 word \<times> 8 word \<times> 64 word) index_type" where
  "by_board = \<lparr>index_name = ''by_board'', index_key = (\<lambda>t. (task_status t, task_slot t)),
               index_key_key = tuple2_key u8_key u8_key,
               kind = multi_kind (append2 u8_key u8_key u64_key) (\<lambda>(s, t, k). decimal (unat k))\<rparr>"

definition task_registry :: "(task, 64 word) registry" where
  "task_registry = [erase_index by_board, erase_index by_status, erase_index by_slot]"

section \<open>Its contracts\<close>

lemma task_item_simps [simp]:
  "item_key task_item = task_id" "to_bytes task_item t = Ret (task_to_bytes t)"
  "from_bytes task_item = task_from_bytes" "pk_key task_item = u64_key"
  by (simp_all add: task_item_def)

lemma task_read_back: "task_from_bytes (task_to_bytes t) = Ret t"
  using from_be_bytes_to_be_bytes [where 'w = 64, of "task_id t"]
  by (simp add: task_from_bytes_def task_to_bytes_def size_of_def nth_append)

interpretation tasks: lawful_item task_item "(<)" "\<lambda>_. True" "\<lambda>_. True"
  by (intro lawful_item.intro lawful_item_axioms.intro) (auto simp: task_read_back u64.lawful_key_axioms)

lemma u8_u64_lawful: "lawful_key (tuple2_key u8_key u64_key) (lex_lt (<) (<)) (both (\<lambda>_. True) (\<lambda>_. True))"
  by (rule lawful_tuple2_key [OF u8.lawful_key_axioms u64.lawful_key_axioms])

lemma by_slot_same: "same_key_ok task_item (\<lambda>_. True) (erase_index by_slot)"
  by (rule same_key_ok_erase [of by_slot "(<)" "\<lambda>_. True"])
    (simp_all add: by_slot_def unique_kind_def u8.lawful_key_axioms)

lemma by_status_same: "same_key_ok task_item (\<lambda>_. True) (erase_index by_status)"
  by (rule same_key_ok_erase [of by_status "lex_lt (<) (<)" "both (\<lambda>_. True) (\<lambda>_. True)"])
    (simp_all add: by_status_def multi_kind_def append1_def u8_u64_lawful both_def)

lemma board_key_lawful:
  "lawful_key (tuple3_key u8_key u8_key u64_key) (lex_lt (<) (lex_lt (<) (<)))
     (both (\<lambda>_. True) (both (\<lambda>_. True) (\<lambda>_. True)))"
  by (rule lawful_tuple3_key [OF u8.lawful_key_axioms u8.lawful_key_axioms u64.lawful_key_axioms])

lemma by_board_same: "same_key_ok task_item (\<lambda>_. True) (erase_index by_board)"
  by (rule same_key_ok_erase [of by_board "lex_lt (<) (lex_lt (<) (<))"
        "both (\<lambda>_. True) (both (\<lambda>_. True) (\<lambda>_. True))"])
    (simp_all add: by_board_def multi_kind_def append2_def board_key_lawful both_def)

lemma task_registry_ok: "registry_ok task_item (\<lambda>_. True) task_registry"
  by (simp add: registry_ok_def task_registry_def by_slot_same by_status_same by_board_same)
    (simp add: by_slot_def by_status_def by_board_def MAIN_STORE_def)

lemma by_slot_layout: "index_layout_ok task_item (\<lambda>_. True) (\<lambda>_. True) by_slot"
  by (rule unique_layout_ok) (simp_all add: by_slot_def)

lemma u64_encode_nonempty: "encode u64_key k \<noteq> []"
proof -
  have "length (encode u64_key k) = 8"
    by (rule u64.fixed_length) (simp_all add: u64_key_def unsigned_key_def size_of_def)
  then show ?thesis by auto
qed

lemma by_status_layout: "index_layout_ok task_item (\<lambda>_. True) (\<lambda>_. True) by_status"
  by (rule multi1_layout_ok [where A = u8_key]) (simp_all add: by_status_def u64_encode_nonempty)

lemma by_board_layout: "index_layout_ok task_item (\<lambda>_. True) (\<lambda>_. True) by_board"
  by (rule multi2_layout_ok [where A = u8_key and B = u8_key]) (simp_all add: by_board_def u64_encode_nonempty)

lemma by_slot_of: "index_of task_item (\<lambda>_. True) task_registry (<) (\<lambda>_. True) by_slot"
  using by_slot_layout u8.lawful_key_axioms by (simp add: index_of_def task_registry_def by_slot_def)

lemma by_status_of:
  "index_of task_item (\<lambda>_. True) task_registry (<) (\<lambda>_. True) by_status"
  using by_status_layout lawful_tuple1_key [OF u8.lawful_key_axioms]
  by (simp add: index_of_def task_registry_def by_status_def less_tup1_def [abs_def])

lemma u8_u8_lawful: "lawful_key (tuple2_key u8_key u8_key) (lex_lt (<) (<)) (both (\<lambda>_. True) (\<lambda>_. True))"
  by (rule lawful_tuple2_key [OF u8.lawful_key_axioms u8.lawful_key_axioms])

lemma both_True: "both (\<lambda>_. True) (\<lambda>_. True) = (\<lambda>_. True)"
  by (simp add: both_def fun_eq_iff)

lemma by_board_of: "index_of task_item (\<lambda>_. True) task_registry (lex_lt (<) (<)) (\<lambda>_. True) by_board"
  using by_board_layout u8_u8_lawful
  by (simp add: index_of_def task_registry_def both_True) (simp add: by_board_def)

lemma by_board_prefixable:
  "prefixable (index_key_key by_board) (lex_lt (<) (<)) (\<lambda>_. True) (prefix2 u8_key u8_key) (<) (\<lambda>_. True)
     (<) (\<lambda>_. True)"
  using prefixable_2 [OF u8.lawful_key_axioms u8.lawful_key_axioms] by (simp add: by_board_def both_True)

section \<open>A database with two tasks\<close>

definition task_a :: task where "task_a = \<lparr>task_id = 1, task_slot = 7, task_status = 0\<rparr>"
definition task_b :: task where "task_b = \<lparr>task_id = 2, task_slot = 9, task_status = 0\<rparr>"

definition empty_tasks :: memory_db where
  "empty_tasks = (case collection_new memory_ms task_registry ''tasks'' memory_new of
                    Ret db \<Rightarrow> db | _ \<Rightarrow> memory_new)"

definition one_task :: memory_db where
  "one_task = snd (collection_insert memory_ms task_item task_registry ''tasks'' task_a empty_tasks)"

definition two_tasks :: memory_db where
  "two_tasks = snd (collection_insert memory_ms task_item task_registry ''tasks'' task_b one_task)"

abbreviation tasks_hold :: "(task, 64 word) table \<Rightarrow> memory_db \<Rightarrow> bool" where
  "tasks_hold \<equiv> memory_holds task_item (\<lambda>_. True) task_registry ''tasks''"

abbreviation both_tasks :: "(task, 64 word) table" where
  "both_tasks \<equiv> [1 \<mapsto> task_a, 2 \<mapsto> task_b]"

lemma both_tasks_records: "(\<exists>pk. both_tasks pk = Some r) \<longleftrightarrow> r = task_a \<or> r = task_b"
proof
  assume "\<exists>pk. both_tasks pk = Some r"
  then show "r = task_a \<or> r = task_b" by (auto split: if_splits)
next
  assume "r = task_a \<or> r = task_b"
  moreover have "both_tasks 1 = Some task_a" "both_tasks 2 = Some task_b" by simp_all
  ultimately show "\<exists>pk. both_tasks pk = Some r" by blast
qed

lemma both_tasks_rows:
  "rows sk d P both_tasks rs \<longleftrightarrow>
     set rs = {r. (r = task_a \<or> r = task_b) \<and> P r} \<and> sorted_wrt (\<lambda>a b. sk a < sk b) (ordered d rs)"
  by (simp only: rows_def both_tasks_records)

lemma store_keys [simp]:
  "ix_store_key (erase_index by_slot) t k = encode u8_key (task_slot t)"
  "ix_store_key (erase_index by_status) t k = encode u8_key (task_status t) @ encode u64_key k"
  "ix_store_key (erase_index by_board) t k =
     encode u8_key (task_status t) @ encode u8_key (task_slot t) @ encode u64_key k"
  by (simp_all add: ix_store_key_erase by_slot_def by_status_def by_board_def unique_kind_def multi_kind_def
      append1_def append2_def tuple3_key_nested)

lemma by_slot_conflict:
  "index_conflict (erase_index by_slot) tbl k t \<longleftrightarrow>
     (\<exists>k' t'. k' \<noteq> k \<and> tbl k' = Some t' \<and> task_slot t' = task_slot t)"
  by (simp add: index_conflict_def u8.encode_inject)

lemma by_status_no_conflict: "\<not> index_conflict (erase_index by_status) tbl k t"
  unfolding index_conflict_def store_keys using u8.encode_append_inject u64.encode_inject by blast

lemma by_board_no_conflict: "\<not> index_conflict (erase_index by_board) tbl k t"
  unfolding index_conflict_def store_keys using u8.encode_append_inject u64.encode_inject by blast

lemma empty_tasks_hold: "tasks_hold (\<lambda>_. None) empty_tasks"
proof -
  have "memory_inv memory_new" by (simp add: memory_inv_def memory_new_def memory_stores_ok_def)
  then obtain db where "collection_new memory_ms task_registry ''tasks'' memory_new = Ret db"
      "tasks_hold (\<lambda>_. None) db"
    using memory_new_holds [of memory_new "''tasks''" task_registry task_item "\<lambda>_. True"]
    by (auto simp: memory_new_def)
  then show ?thesis by (simp add: empty_tasks_def)
qed

lemma one_task_holds: "tasks_hold [1 \<mapsto> task_a] one_task"
proof -
  have "spec_insert task_item task_registry task_a (\<lambda>_. None) = Ret [1 \<mapsto> task_a]"
    by (simp add: spec_insert_def spec_put_def task_registry_def by_slot_conflict by_status_no_conflict by_board_no_conflict
        task_a_def)
  then show ?thesis
    using tasks.memory_insert [OF empty_tasks_hold task_registry_ok, of task_a]
    by (simp add: memory_result_def one_task_def)
qed

lemma insert_b_spec:
  "spec_insert task_item task_registry task_b [1 \<mapsto> task_a] = Ret [1 \<mapsto> task_a, 2 \<mapsto> task_b]"
  by (simp add: spec_insert_def spec_put_def task_registry_def by_slot_conflict by_status_no_conflict by_board_no_conflict
      task_a_def task_b_def)

lemma two_tasks_hold: "tasks_hold [1 \<mapsto> task_a, 2 \<mapsto> task_b] two_tasks"
  using tasks.memory_insert [OF one_task_holds task_registry_ok, of task_b]
  by (simp add: memory_result_def two_tasks_def insert_b_spec)

text \<open>Moving a task to a taken slot, and to a free one.\<close>

lemma update_taken_spec:
  "spec_update task_item task_registry (task_b\<lparr>task_slot := 7\<rparr>) [1 \<mapsto> task_a, 2 \<mapsto> task_b] =
     Fail (AlreadyExists (decimal 7))"
proof -
  have "index_conflict (erase_index by_slot) [1 \<mapsto> task_a, 2 \<mapsto> task_b] 2 (task_b\<lparr>task_slot := 7\<rparr>)"
    unfolding by_slot_conflict by (rule exI [of _ 1]) (simp add: task_a_def)
  then show ?thesis
    by (simp add: spec_update_def spec_put_def task_registry_def by_status_no_conflict by_board_no_conflict task_b_def)
      (simp add: erase_index_def by_slot_def unique_kind_def)
qed

lemma save_free_spec:
  "spec_save task_item task_registry (task_a\<lparr>task_slot := 8\<rparr>) [1 \<mapsto> task_a, 2 \<mapsto> task_b] =
     Ret ([1 \<mapsto> task_a, 2 \<mapsto> task_b](1 \<mapsto> task_a\<lparr>task_slot := 8\<rparr>))"
proof -
  have "\<not> index_conflict (erase_index by_slot) [1 \<mapsto> task_a, 2 \<mapsto> task_b] 1 (task_a\<lparr>task_slot := 8\<rparr>)"
    by (simp add: by_slot_conflict task_b_def)
  moreover have "task_id task_a = 1" by (simp add: task_a_def)
  ultimately show ?thesis
    by (simp add: spec_save_def spec_put_def task_registry_def by_status_no_conflict by_board_no_conflict)
qed

end
