(* ===== verification/History.thy ===== *)
theory History
  imports Memory_Collection Example
begin

text \<open>
  Histories: any sequence of \<open>insert\<close>, \<open>update\<close>, \<open>save\<close> and \<open>remove\<close> calls on one collection of
  any backend that keeps the storage contract. A call that fails with a backend error has no
  effect, every other call does what its specification says of the table the calls before it
  left, and after the last one the stores represent the table that remains.
\<close>

section \<open>Calls\<close>

datatype ('r, 'pk) mutation = Insert 'r | Update 'r | Save 'r | Remove 'pk

fun run_mutation ::
  "('db, 'rh, 'rs, 'wh, 'ws) multistore \<Rightarrow> ('r, 'pk) item \<Rightarrow> ('r, 'pk) registry \<Rightarrow> name \<Rightarrow>
   ('r, 'pk) mutation \<Rightarrow> 'db \<Rightarrow> (error, unit) outcome \<times> 'db" where
  "run_mutation I R T nm (Insert r) db = collection_insert I R T nm r db"
| "run_mutation I R T nm (Update r) db = collection_update I R T nm r db"
| "run_mutation I R T nm (Save r) db = collection_save I R T nm r db"
| "run_mutation I R T nm (Remove pk) db = collection_remove I R T nm pk db"

text \<open>The body of a call, in its transaction.\<close>

fun mutation_body ::
  "('db, 'rh, 'rs, 'wh, 'ws) multistore \<Rightarrow> ('r, 'pk) item \<Rightarrow> ('r, 'pk) registry \<Rightarrow> ('r, 'pk) mutation \<Rightarrow>
   'wh \<Rightarrow> (error, 'wh ending) outcome" where
  "mutation_body I R T (Insert r) = insert_body I R T r"
| "mutation_body I R T (Update r) = update_body I R T r"
| "mutation_body I R T (Save r) = save_body I R T r"
| "mutation_body I R T (Remove pk) = remove_body I R T pk"

lemma run_mutation_transact: "run_mutation I R T nm m db = transact I nm db (mutation_body I R T m)"
  by (cases m) (simp_all add: collection_insert_def collection_update_def collection_save_def
      collection_remove_def)

fun spec_mutation ::
  "('r, 'pk) item \<Rightarrow> ('r, 'pk) registry \<Rightarrow> ('r, 'pk) mutation \<Rightarrow> ('r, 'pk) table \<Rightarrow>
   (error, ('r, 'pk) table) outcome" where
  "spec_mutation R T (Insert r) tbl = spec_insert R T r tbl"
| "spec_mutation R T (Update r) tbl = spec_update R T r tbl"
| "spec_mutation R T (Save r) tbl = spec_save R T r tbl"
| "spec_mutation R T (Remove pk) tbl = spec_remove pk tbl"

fun mutation_ok :: "('r \<Rightarrow> bool) \<Rightarrow> ('pk \<Rightarrow> bool) \<Rightarrow> ('r, 'pk) mutation \<Rightarrow> bool" where
  "mutation_ok rec_ok pk_valid (Remove pk) \<longleftrightarrow> pk_valid pk"
| "mutation_ok rec_ok pk_valid (Insert r) \<longleftrightarrow> rec_ok r"
| "mutation_ok rec_ok pk_valid (Update r) \<longleftrightarrow> rec_ok r"
| "mutation_ok rec_ok pk_valid (Save r) \<longleftrightarrow> rec_ok r"

fun run_history ::
  "('db, 'rh, 'rs, 'wh, 'ws) multistore \<Rightarrow> ('r, 'pk) item \<Rightarrow> ('r, 'pk) registry \<Rightarrow> name \<Rightarrow>
   ('r, 'pk) mutation list \<Rightarrow> 'db \<Rightarrow> (error, unit) outcome list \<times> 'db" where
  "run_history I R T nm [] db = ([], db)"
| "run_history I R T nm (m # ms) db =
     (let (res, db) = run_mutation I R T nm m db; (rest, db) = run_history I R T nm ms db
      in (res # rest, db))"

section \<open>The table a history leaves\<close>

text \<open>\<open>leads B R T ms rs tbl tbl'\<close>: the calls \<open>ms\<close> may return \<open>rs\<close> and turn \<open>tbl\<close> into \<open>tbl'\<close>.\<close>

inductive leads ::
  "(std_error \<Rightarrow> bool) \<Rightarrow> ('r, 'pk) item \<Rightarrow> ('r, 'pk) registry \<Rightarrow> ('r, 'pk) mutation list \<Rightarrow>
   (error, unit) outcome list \<Rightarrow> ('r, 'pk) table \<Rightarrow> ('r, 'pk) table \<Rightarrow> bool" for B R T where
  finished: "leads B R T [] [] tbl tbl"
| failed: "B e \<Longrightarrow> leads B R T ms rs tbl tbl' \<Longrightarrow>
    leads B R T (m # ms) (Fail (error_backend e) # rs) tbl tbl'"
| applied: "spec_mutation R T m tbl = Ret tbl1 \<Longrightarrow> leads B R T ms rs tbl1 tbl' \<Longrightarrow>
    leads B R T (m # ms) (Ret () # rs) tbl tbl'"
| refused: "spec_mutation R T m tbl = Fail e \<Longrightarrow> leads B R T ms rs tbl tbl' \<Longrightarrow>
    leads B R T (m # ms) (Fail e # rs) tbl tbl'"
| panicked: "spec_mutation R T m tbl = Panicked \<Longrightarrow> leads B R T ms rs tbl tbl' \<Longrightarrow>
    leads B R T (m # ms) (Panicked # rs) tbl tbl'"

inductive_cases leads_ConsE: "leads B R T (m # ms) rs tbl tbl'"
inductive_cases leads_NilE: "leads B R T [] rs tbl tbl'"

text \<open>Only the codec can hang.\<close>

lemma spec_put_returns: "to_bytes R r \<noteq> Hung \<Longrightarrow> spec_put R T pk r tbl \<noteq> Hung"
  by (cases "to_bytes R r") (auto simp: spec_put_def split: option.splits)

lemma spec_mutation_returns: "(\<And>r. to_bytes R r \<noteq> Hung) \<Longrightarrow> spec_mutation R T m tbl \<noteq> Hung"
  by (cases m) (auto simp: spec_insert_def spec_update_def spec_save_def spec_remove_def Let_def
      spec_put_returns)

text \<open>One call, on any backend.\<close>

lemma mutation_agrees:
  assumes "lawful_item R lt pk_valid rec_ok" and "registry_ok R rec_ok T" and "mutation_ok rec_ok pk_valid m"
    and "D nm = Some S" and "coll_repr R rec_ok T tbl S"
  shows "agrees R rec_ok T nm D (spec_mutation R T m tbl) (run_mutation ref_ms R T nm m D)"
  using assms(3)
proof (cases m)
  case (Insert r)
  then show ?thesis
    using lawful_item.insert_agrees [OF assms(1), where D = D and nm = nm and S = S] assms by simp
next
  case (Update r)
  then show ?thesis
    using lawful_item.update_agrees [OF assms(1), where D = D and nm = nm and S = S] assms by simp
next
  case (Save r)
  then show ?thesis
    using lawful_item.save_agrees [OF assms(1), where D = D and nm = nm and S = S] assms by simp
next
  case (Remove pk)
  then show ?thesis
    using lawful_item.remove_agrees [OF assms(1), where D = D and nm = nm and S = S] assms by simp
qed

context lawful_multistore
begin

lemma run_mutation_refines:
  "db_inv db \<Longrightarrow> call_refines db (run_mutation I R T nm m db) (run_mutation ref_ms R T nm m (db_abs db))"
  by (cases m) (simp_all add: collection_insert_refines collection_update_refines collection_save_refines
      collection_remove_refines)

lemma mutation_step:
  assumes R: "lawful_item R lt pk_valid rec_ok" and T: "registry_ok R rec_ok T"
    and codec: "\<And>r. to_bytes R r \<noteq> Hung" and m: "mutation_ok rec_ok pk_valid m"
    and db: "db_inv db" "db_abs db nm = Some S" "coll_repr R rec_ok T tbl S"
    and run: "run_mutation I R T nm m db = (res, db1)"
  shows "\<exists>tbl1 S1. db_inv db1 \<and> db_abs db1 = (db_abs db)(nm \<mapsto> S1) \<and> coll_repr R rec_ok T tbl1 S1 \<and>
           (\<forall>ms rs tbl'. leads may_fail R T ms rs tbl1 tbl' \<longrightarrow> leads may_fail R T (m # ms) (res # rs) tbl tbl')"
proof -
  have keep: "(db_abs db)(nm \<mapsto> S) = db_abs db"
    using db(2) by auto
  have ref: "call_refines db (res, db1) (run_mutation ref_ms R T nm m (db_abs db))"
    using run_mutation_refines [OF db(1), of R T nm m] run by simp
  have spec: "agrees R rec_ok T nm (db_abs db) (spec_mutation R T m tbl)
                (run_mutation ref_ms R T nm m (db_abs db))"
    by (rule mutation_agrees [where D = "db_abs db" and nm = nm and S = S, OF R T m db(2,3)])
  consider e where "res = Fail (error_backend e)" "may_fail e" "db_inv db1" "db_abs db1 = db_abs db"
    | "agrees R rec_ok T nm (db_abs db) (spec_mutation R T m tbl) (res, db_abs db1)" "res \<noteq> Hung \<longrightarrow> db_inv db1"
    using ref spec by (cases "run_mutation ref_ms R T nm m (db_abs db)")
      (auto simp: call_refines_def backend_failed_def)
  then show ?thesis
  proof cases
    case 1
    then show ?thesis
      using db(3) keep by (intro exI [of _ tbl] exI [of _ S]) (auto intro: leads.failed)
  next
    case 2
    show ?thesis
    proof (cases "spec_mutation R T m tbl")
      case (Ret tbl1)
      then show ?thesis
        using 2 by (auto simp: agrees_def intro: leads.applied)
    next
      case (Fail e)
      then show ?thesis
        using 2 db(3) keep
        by (intro exI [of _ tbl] exI [of _ S]) (auto simp: agrees_def intro: leads.refused)
    next
      case Panicked
      then show ?thesis
        using 2 db(3) keep
        by (intro exI [of _ tbl] exI [of _ S]) (auto simp: agrees_def intro: leads.panicked)
    qed (simp add: spec_mutation_returns [OF codec])
  qed
qed

lemma history_leads:
  assumes R: "lawful_item R lt pk_valid rec_ok" and T: "registry_ok R rec_ok T"
    and codec: "\<And>r. to_bytes R r \<noteq> Hung"
  shows "list_all (mutation_ok rec_ok pk_valid) ms \<Longrightarrow> db_inv db \<Longrightarrow> db_abs db nm = Some S \<Longrightarrow>
    coll_repr R rec_ok T tbl S \<Longrightarrow> run_history I R T nm ms db = (rs, db') \<Longrightarrow>
    \<exists>tbl' S'. leads may_fail R T ms rs tbl tbl' \<and> db_inv db' \<and>
      db_abs db' = (db_abs db)(nm \<mapsto> S') \<and> coll_repr R rec_ok T tbl' S'"
proof (induction ms arbitrary: db S tbl rs)
  case Nil
  then have "db_abs db = (db_abs db)(nm \<mapsto> S)" by auto
  then show ?case
    using Nil by (intro exI [of _ tbl] exI [of _ S]) (simp add: leads.finished)
next
  case (Cons m ms)
  obtain res db1 where one: "run_mutation I R T nm m db = (res, db1)" by fastforce
  obtain rest where rest: "run_history I R T nm ms db1 = (rest, db')" "rs = res # rest"
    using Cons.prems(5) one by (auto split: prod.splits)
  have m: "mutation_ok rec_ok pk_valid m" "list_all (mutation_ok rec_ok pk_valid) ms"
    using Cons.prems(1) by simp_all
  obtain tbl1 S1 where s1: "db_inv db1" "db_abs db1 = (db_abs db)(nm \<mapsto> S1)" "coll_repr R rec_ok T tbl1 S1"
    "\<And>ms rs tbl'. leads may_fail R T ms rs tbl1 tbl' \<Longrightarrow> leads may_fail R T (m # ms) (res # rs) tbl tbl'"
    using mutation_step [OF R T codec m(1) Cons.prems(2-4) one] by blast
  have "db_abs db1 nm = Some S1"
    using s1(2) by simp
  from Cons.IH [OF m(2) s1(1) this s1(3) rest(1)] obtain tbl' S' where l: "leads may_fail R T ms rest tbl1 tbl'" "db_inv db'"
    "db_abs db' = (db_abs db1)(nm \<mapsto> S')" "coll_repr R rec_ok T tbl' S'"
    by blast
  then have "db_abs db' = (db_abs db)(nm \<mapsto> S')"
    using s1(2) by simp
  then show ?case
    using l s1(4) rest(2) by blast
qed

end

section \<open>Property\<close>

text \<open>C10: Any sequence of \<open>insert\<close>, \<open>update\<close>, \<open>save\<close> and \<open>remove\<close> calls on a collection of any backend
  that keeps the storage contract: a call that fails with a backend error has no effect, every
  other call returns what its specification says of the table at that point, the stores represent
  the table that results with every index in step, no writer is left behind, and the other
  namespaces are untouched. The codec may fail or panic but not run for ever.\<close>

lemma history_on_any_backend:
  assumes "lawful_multistore may_fail I db_inv db_abs writing origin rh_abs rs_abs wh_ok wh_abs ws_ok ws_abs"
    and "lawful_item R lt pk_valid rec_ok" and "registry_ok R rec_ok T" and "\<And>r. to_bytes R r \<noteq> Hung"
    and "list_all (mutation_ok rec_ok pk_valid) ms"
    and "db_inv db" and "db_abs db nm = Some S" and "coll_repr R rec_ok T tbl S"
    and "run_history I R T nm ms db = (rs, db')"
  shows "\<exists>tbl' S'. leads may_fail R T ms rs tbl tbl' \<and> db_inv db' \<and>
           db_abs db' = (db_abs db)(nm \<mapsto> S') \<and> coll_repr R rec_ok T tbl' S'"
  using lawful_multistore.history_leads [OF assms(1) assms(2) assms(3) assms(4) assms(5-9)] .

text \<open>
  Two calls on the database of two tasks: the second task takes the slot of the first and is
  refused, and the first is removed.
\<close>

lemma history_on_any_backend_witness:
  "\<exists>db. run_history memory_ms task_item task_registry ''tasks''
          [Update (task_b\<lparr>task_slot := 7\<rparr>), Remove 1] two_tasks
        = ([Fail (AlreadyExists (decimal 7)), Ret ()], db) \<and> tasks_hold (both_tasks(1 := None)) db"
proof (rule memory_holdsD [OF two_tasks_hold])
  fix S assume S: "memory_inv two_tasks" "memory_abs two_tasks ''tasks'' = Some S"
    "coll_repr task_item (\<lambda>_. True) task_registry both_tasks S"
  let ?ms = "[Update (task_b\<lparr>task_slot := 7\<rparr>), Remove 1]"
  obtain rs db where run: "run_history memory_ms task_item task_registry ''tasks'' ?ms two_tasks = (rs, db)"
    by fastforce
  have ok: "to_bytes task_item r \<noteq> Hung" "list_all (mutation_ok (\<lambda>_. True) (\<lambda>_. True)) ?ms" for r
    by (simp_all add: task_item_def)
  obtain tbl' S' where h: "leads (\<lambda>_. False) task_item task_registry ?ms rs both_tasks tbl'" "memory_inv db"
    "memory_abs db = (memory_abs two_tasks)(''tasks'' \<mapsto> S')" "coll_repr task_item (\<lambda>_. True) task_registry tbl' S'"
    using history_on_any_backend [OF mem.lawful_multistore_axioms, OF tasks.lawful_item_axioms,
        OF task_registry_ok, OF ok, OF S run] by blast
  from h(1) have "rs = [Fail (AlreadyExists (decimal 7)), Ret ()]" "tbl' = both_tasks(1 := None)"
    by (auto elim!: leads_ConsE leads_NilE simp: update_taken_spec spec_remove_def)
  then show ?thesis
    using run h by (auto simp: memory_holds_def)
qed

end
