(* ===== verification/Concurrent.thy ===== *)
theory Concurrent
  imports Locks History
begin

text \<open>
  A collection on the in-memory backend, used by many threads at once. A call of \<open>insert\<close>,
  \<open>update\<close>, \<open>save\<close> or \<open>remove\<close> is a call of \<open>write\<close>, the body of the method on the write handle
  and the commit or the drop of the handle; a call of \<open>get\<close> is a call of \<open>read\<close> and a lookup in the
  snapshot. The body and the lookup touch nothing that other threads see, so each is one step
  with the access to the published stores that goes with it; all other steps are those of the
  backend in \<open>Locks\<close>. Every call is answered between its start and its return, and the answers
  are listed in the order they were given. Nobody calls \<open>prepare\<close>.
\<close>

section \<open>Calls on a collection\<close>

datatype ('r, 'pk) request = Mutate "('r, 'pk) mutation" | Get 'pk

datatype ('r, 'pk) answer =
    Did "('r, 'pk) mutation" "(error, unit) outcome"
  | Got 'pk "(error, 'r option) outcome"

record ('r, 'pk) service =
  base :: system
  requests :: "thread \<Rightarrow> ('r, 'pk) request option"
  answers :: "('r, 'pk) answer list"

definition service_new :: "stores \<Rightarrow> ('r, 'pk) service" where
  "service_new S = \<lparr>base = system_new S, requests = (\<lambda>_. None), answers = []\<rparr>"

definition get_body ::
  "('db, 'rh, 'rs, 'wh, 'ws) multistore \<Rightarrow> ('r, 'pk) item \<Rightarrow> 'pk \<Rightarrow> 'rh \<Rightarrow> (error, 'r option) outcome" where
  "get_body I R pk rh =
     and_then (map_err error_backend (rh_open I MAIN_STORE rh)) (\<lambda>store.
     and_then (map_err error_backend (rs_get I (encode (pk_key R) pk) store)) (decode_stored R))"

text \<open>What a finished body publishes.\<close>

fun body_publishes :: "(error, memory_write_handle ending) outcome \<Rightarrow> stores \<Rightarrow> stores" where
  "body_publishes (Ret (Commit tx)) S = mwh_staged tx"
| "body_publishes _ S = S"

definition end_body :: "thread \<Rightarrow> (error, memory_write_handle ending) outcome \<Rightarrow> threads \<Rightarrow> threads" where
  "end_body t x g = move t Dropping (case x of Ret (Commit tx) \<Rightarrow> replace_stores (mwh_staged tx) g | _ \<Rightarrow> g)"

definition request_ok :: "('r \<Rightarrow> bool) \<Rightarrow> ('pk \<Rightarrow> bool) \<Rightarrow> ('r, 'pk) request \<Rightarrow> bool" where
  "request_ok rec_ok pk_valid q = (case q of Mutate m \<Rightarrow> mutation_ok rec_ok pk_valid m | Get pk \<Rightarrow> pk_valid pk)"

definition answered :: "thread \<Rightarrow> ('r, 'pk) answer \<Rightarrow> ('r, 'pk) service \<Rightarrow> ('r, 'pk) service" where
  "answered t a s = s\<lparr>requests := (requests s)(t := None), answers := answers s @ [a]\<rparr>"

inductive service_step ::
  "(system \<Rightarrow> bool) \<Rightarrow> ('r, 'pk) item \<Rightarrow> ('r, 'pk) registry \<Rightarrow> name \<Rightarrow> (('r, 'pk) request \<Rightarrow> bool) \<Rightarrow>
   ('r, 'pk) service \<Rightarrow> ('r, 'pk) service \<Rightarrow> bool" for pol R T nm ok where
  start_get: "requests s t = None \<Longrightarrow> doing (base s) t = Idle \<Longrightarrow> at_pc (gate (base s)) t = Outside \<Longrightarrow>
    ok (Get pk) \<Longrightarrow>
    service_step pol R T nm ok s (s\<lparr>base := goes t ReadWait (base s), requests := (requests s)(t \<mapsto> Get pk)\<rparr>)"
| start_mutation: "requests s t = None \<Longrightarrow> doing (base s) t = Idle \<Longrightarrow> at_pc (gate (base s)) t = Outside \<Longrightarrow>
    ok (Mutate m) \<Longrightarrow>
    service_step pol R T nm ok s (s\<lparr>base := goes t WriteWait (base s), requests := (requests s)(t \<mapsto> Mutate m)\<rparr>)"
| backend: "system_step pol t (base s) b \<Longrightarrow> doing (base s) t \<noteq> ReadHeld \<Longrightarrow>
    service_step pol R T nm ok s (s\<lparr>base := b\<rparr>)"
| answer_get: "requests s t = Some (Get pk) \<Longrightarrow> doing (base s) t = ReadHeld \<Longrightarrow>
    service_step pol R T nm ok s
      (answered t (Got pk (get_body memory_ms R pk (ns_stores (shared (gate (base s))))))
        (s\<lparr>base := goes t Idle (open_read (base s))\<rparr>))"
| answer_mutation: "requests s t = Some (Mutate m) \<Longrightarrow> doing (base s) t = Idle \<Longrightarrow>
    at_pc (gate (base s)) t = Writing [] S \<Longrightarrow>
    x = mutation_body memory_ms R T m \<lparr>mwh_namespace = nm, mwh_staged = S\<rparr> \<Longrightarrow> x \<noteq> Hung \<Longrightarrow>
    service_step pol R T nm ok s
      (answered t (Did m (map_ret (\<lambda>_. ()) x)) (s\<lparr>base := (base s)\<lparr>gate := end_body t x (gate (base s))\<rparr>\<rparr>))"
| spurious: "at_pc (gate (base s)) t = Waiting \<Longrightarrow>
    service_step pol R T nm ok s (s\<lparr>base := (base s)\<lparr>gate := move t Woken (gate (base s))\<rparr>\<rparr>)"

inductive service_reachable ::
  "(system \<Rightarrow> bool) \<Rightarrow> ('r, 'pk) item \<Rightarrow> ('r, 'pk) registry \<Rightarrow> name \<Rightarrow> (('r, 'pk) request \<Rightarrow> bool) \<Rightarrow> stores \<Rightarrow>
   ('r, 'pk) service \<Rightarrow> bool" for pol R T nm ok S where
  start: "service_reachable pol R T nm ok S (service_new S)"
| step: "service_reachable pol R T nm ok S s \<Longrightarrow> service_step pol R T nm ok s s' \<Longrightarrow>
    service_reachable pol R T nm ok S s'"

section \<open>The sequential reading of the answers\<close>

definition table_after :: "(error, ('r, 'pk) table) outcome \<Rightarrow> ('r, 'pk) table \<Rightarrow> ('r, 'pk) table" where
  "table_after spec tbl = (case spec of Ret tbl' \<Rightarrow> tbl' | _ \<Rightarrow> tbl)"

text \<open>The answers are those of the specification, run one call after the other.\<close>

fun explains ::
  "('r, 'pk) item \<Rightarrow> ('r, 'pk) registry \<Rightarrow> ('r, 'pk) answer list \<Rightarrow> ('r, 'pk) table \<Rightarrow> ('r, 'pk) table \<Rightarrow> bool" where
  "explains R T [] tbl tbl' \<longleftrightarrow> tbl = tbl'"
| "explains R T (Did m res # as) tbl tbl' \<longleftrightarrow>
     res = map_ret (\<lambda>_. ()) (spec_mutation R T m tbl) \<and>
     explains R T as (table_after (spec_mutation R T m tbl) tbl) tbl'"
| "explains R T (Got pk res # as) tbl tbl' \<longleftrightarrow> res = Ret (tbl pk) \<and> explains R T as tbl tbl'"

lemma explains_append:
  "explains R T (as @ bs) tbl tbl'' \<longleftrightarrow> (\<exists>tbl'. explains R T as tbl tbl' \<and> explains R T bs tbl' tbl'')"
  by (induction R T as tbl tbl'' rule: explains.induct) auto

section \<open>One body on a snapshot\<close>

lemma mutation_body_handle:
  assumes "stores_ok S"
  shows "refines (\<lambda>_. False) (pred_ending (\<lambda>tx. stores_ok (mwh_staged tx) \<and> mwh_namespace tx = nm))
           (map_ending memory_wh_abs)
           (mutation_body memory_ms R T m \<lparr>mwh_namespace = nm, mwh_staged = S\<rparr>)
           (mutation_body ref_ms R T m (nm, S))"
proof -
  let ?tx = "\<lparr>mwh_namespace = nm, mwh_staged = S\<rparr>"
  have tx: "mem.handle_on nm ?tx" using assms by (simp add: mem.handle_on_def)
  have none: "backend_failed (\<lambda>_. False) = (\<lambda>_. False)" by (simp add: backend_failed_def fun_eq_iff)
  have handle: "mem.handle_on nm = (\<lambda>tx. stores_ok (mwh_staged tx) \<and> mwh_namespace tx = nm)"
    by (simp add: mem.handle_on_def fun_eq_iff)
  have abs: "memory_wh_abs ?tx = (nm, S)" by (simp add: memory_wh_abs_def)
  show ?thesis
    using mem.insert_body_refines [OF tx] mem.update_body_refines [OF tx] mem.save_body_refines [OF tx]
      mem.remove_body_refines [OF tx]
    unfolding none handle abs by (cases m) simp_all
qed

lemma memory_mutation:
  assumes "lawful_item R lt pk_valid rec_ok" "registry_ok R rec_ok T" "mutation_ok rec_ok pk_valid m"
    and "memory_holds R rec_ok T nm tbl db"
  shows "memory_result R rec_ok T nm db (spec_mutation R T m tbl) (run_mutation memory_ms R T nm m db)"
  using assms(4)
proof (rule memory_holdsD)
  fix S assume "memory_inv db" "memory_abs db nm = Some S" "coll_repr R rec_ok T tbl S"
  then show ?thesis
    using memory_resultI [OF _ mem.run_mutation_refines mutation_agrees [OF assms(1-3)]] by blast
qed

lemma body_on_snapshot:
  assumes R: "lawful_item R lt pk_valid rec_ok" and T: "registry_ok R rec_ok T"
    and m: "mutation_ok rec_ok pk_valid m" and S: "stores_ok S" "coll_repr R rec_ok T tbl S"
    and x: "x = mutation_body memory_ms R T m \<lparr>mwh_namespace = nm, mwh_staged = S\<rparr>"
  shows "map_ret (\<lambda>_. ()) x = map_ret (\<lambda>_. ()) (spec_mutation R T m tbl) \<and>
         stores_ok (body_publishes x S) \<and>
         coll_repr R rec_ok T (table_after (spec_mutation R T m tbl) tbl) (body_publishes x S)"
proof -
  let ?db = "[nm \<mapsto> \<lparr>ns_stores = S, writer_open = False\<rparr>] :: memory_db"
  let ?spec = "spec_mutation R T m tbl"
  have db: "memory_holds R rec_ok T nm tbl ?db"
    using S by (simp add: memory_holds_def memory_inv_def memory_stores_ok_def memory_abs_def)
  have w: "memory_write nm ?db =
      Ret (\<lparr>mwh_namespace = nm, mwh_staged = S\<rparr>, [nm \<mapsto> \<lparr>ns_stores = S, writer_open = True\<rparr>])"
    by (simp add: memory_write_def gate_acquire_def)
  have res: "memory_result R rec_ok T nm ?db ?spec (transact memory_ms nm ?db (mutation_body memory_ms R T m))"
    using memory_mutation [OF R T m db] by (simp add: run_mutation_transact)
  have drop: "memory_drop \<lparr>mwh_namespace = nm, mwh_staged = S\<rparr> [nm \<mapsto> \<lparr>ns_stores = S, writer_open = True\<rparr>] = ?db"
    by (simp add: memory_drop_def permit_drop_def)
  show ?thesis
  proof (cases x)
    case (Ret e)
    show ?thesis
    proof (cases e)
      case (Commit tx)
      have y: "mutation_body memory_ms R T m \<lparr>mwh_namespace = nm, mwh_staged = S\<rparr> = Ret (Commit tx)"
        using x Ret Commit by simp
      have tx: "stores_ok (mwh_staged tx)" "mwh_namespace tx = nm"
        using mutation_body_handle [OF S(1), of nm R T m, unfolded y] by (simp_all add: refines_def)
      then have "transact memory_ms nm ?db (mutation_body memory_ms R T m) =
          (Ret (), [nm \<mapsto> \<lparr>ns_stores = mwh_staged tx, writer_open = False\<rparr>])"
        using Ret Commit x by (simp add: transact_def w memory_commit_def permit_drop_def)
      then have "\<exists>tbl'. ?spec = Ret tbl' \<and> coll_repr R rec_ok T tbl' (mwh_staged tx)"
        using res by (cases ?spec) (auto simp: memory_result_def memory_holds_def memory_abs_def)
      then show ?thesis using Ret Commit tx by (auto simp: table_after_def)
    next
      case Leave
      then have "transact memory_ms nm ?db (mutation_body memory_ms R T m) = (Ret (), ?db)"
        using Ret x by (simp add: transact_def w drop)
      then have "\<exists>tbl'. ?spec = Ret tbl' \<and> coll_repr R rec_ok T tbl' S"
        using res by (cases ?spec) (auto simp: memory_result_def memory_holds_def memory_abs_def)
      then show ?thesis using Ret Leave S by (auto simp: table_after_def)
    qed
  next
    case (Fail e)
    then have "transact memory_ms nm ?db (mutation_body memory_ms R T m) = (Fail e, ?db)"
      using x by (simp add: transact_def w drop)
    then have "?spec = Fail e"
      using res by (cases ?spec) (auto simp: memory_result_def)
    then show ?thesis using Fail S by (simp add: table_after_def)
  next
    case Panicked
    then have "transact memory_ms nm ?db (mutation_body memory_ms R T m) = (Panicked, ?db)"
      using x by (simp add: transact_def w drop)
    then have "?spec = Panicked"
      using res by (cases ?spec) (auto simp: memory_result_def)
    then show ?thesis using Panicked S by (simp add: table_after_def)
  next
    case Hung
    then have "fst (transact memory_ms nm ?db (mutation_body memory_ms R T m)) = Hung"
      using x by (simp add: transact_def w)
    then have "?spec = Hung"
      using res by (cases ?spec) (auto simp: memory_result_def)
    then show ?thesis using Hung S by (simp add: table_after_def)
  qed
qed

lemma get_on_snapshot:
  assumes "lawful_item R lt pk_valid rec_ok" "pk_valid pk" "stores_ok S" "coll_repr R rec_ok T tbl S"
  shows "get_body memory_ms R pk S = Ret (tbl pk)"
proof -
  let ?db = "[''ns'' \<mapsto> \<lparr>ns_stores = S, writer_open = False\<rparr>] :: memory_db"
  have "memory_holds R rec_ok T ''ns'' tbl ?db"
    using assms by (simp add: memory_holds_def memory_inv_def memory_stores_ok_def memory_abs_def)
  from lawful_item.memory_get_row [OF assms(1) this assms(2)] show ?thesis
    by (simp add: collection_get_def get_body_def memory_read_def)
qed

section \<open>Invariant\<close>

text \<open>What a write handle has staged before its body runs is what is published.\<close>

definition staged_inv :: "threads \<Rightarrow> bool" where
  "staged_inv g \<longleftrightarrow> (\<forall>t es U. at_pc g t = Writing es U \<longrightarrow> U = ns_stores (shared g))"

lemma staged_inv_gate: "gate_step t g g' \<Longrightarrow> staged_inv g \<Longrightarrow> staged_inv g'"
  by (erule gate_stepE) (auto simp: staged_inv_def split: if_splits)

lemma gate_step_stores: "gate_step t g g' \<Longrightarrow> ns_stores (shared g') = ns_stores (shared g)"
  by (erule gate_stepE) auto

lemma staged_inv_move: "staged_inv g \<Longrightarrow> (\<And>es U. p \<noteq> Writing es U) \<Longrightarrow> staged_inv (move t p g)"
  by (auto simp: staged_inv_def)

text \<open>Nobody else has a handle when one publishes.\<close>

lemma end_body_simps [simp]:
  "at_pc (end_body t x g) = (at_pc g)(t := Dropping)"
  "ns_stores (shared (end_body t x g)) = body_publishes x (ns_stores (shared g))"
  by (auto simp: end_body_def split: outcome.splits ending.splits)

lemma staged_inv_end:
  assumes "owner_inv g" "at_pc g t = Writing [] U"
  shows "staged_inv (end_body t x g)"
proof -
  have "at_pc g u \<noteq> Writing es V" if "u \<noteq> t" for u es V
    using assms that one_at_unique [of owns_gate "at_pc g" "writer_open (shared g)" t u]
    by (auto simp: owner_inv_def)
  then show ?thesis by (auto simp: staged_inv_def)
qed

lemma end_body_client:
  assumes "at_pc g t = Writing [] U"
  shows "\<exists>S. client_step t (replace_stores S g) (end_body t x g)"
proof -
  let ?S = "body_publishes x (ns_stores (shared g))"
  have "end_body t x g = move t Dropping (replace_stores ?S g)"
    by (cases x rule: outcome.exhaust)
      (auto simp: end_body_def replace_stores_def split: ending.splits)
  then show ?thesis
    using client_step.drop_handle [of "replace_stores ?S g" t "[]" U] assms by (intro exI [of _ ?S]) simp
qed

definition holds_table ::
  "('r, 'pk) item \<Rightarrow> ('r \<Rightarrow> bool) \<Rightarrow> ('r, 'pk) registry \<Rightarrow> ('r, 'pk) table \<Rightarrow> ('r, 'pk) answer list \<Rightarrow> stores \<Rightarrow> bool" where
  "holds_table R rec_ok T tbl0 as S \<longleftrightarrow>
     stores_ok S \<and> (\<exists>tbl. explains R T as tbl0 tbl \<and> coll_repr R rec_ok T tbl S)"

definition service_inv ::
  "('r, 'pk) item \<Rightarrow> ('r \<Rightarrow> bool) \<Rightarrow> ('pk \<Rightarrow> bool) \<Rightarrow> ('r, 'pk) registry \<Rightarrow> ('r, 'pk) table \<Rightarrow>
   ('r, 'pk) service \<Rightarrow> bool" where
  "service_inv R rec_ok pk_valid T tbl0 s \<longleftrightarrow>
     system_inv (base s) \<and> (\<forall>t. \<not> in_prepare (doing (base s) t)) \<and> staged_inv (gate (base s)) \<and>
     (\<forall>t q. requests s t = Some q \<longrightarrow> request_ok rec_ok pk_valid q) \<and>
     holds_table R rec_ok T tbl0 (answers s) (ns_stores (shared (gate (base s))))"

lemma service_request_ok:
  "service_inv R rec_ok pk_valid T tbl0 s \<Longrightarrow> requests s t = Some q \<Longrightarrow> request_ok rec_ok pk_valid q"
  by (simp add: service_inv_def)

lemma system_inv_end:
  assumes "system_inv b" "doing b t = Idle" "at_pc (gate b) t = Writing [] U"
  shows "system_inv (b\<lparr>gate := end_body t x (gate b)\<rparr>)"
proof -
  obtain S where c: "client_step t (replace_stores S (gate b)) (end_body t x (gate b))"
    using end_body_client [OF assms(3)] by blast
  have "gate_inv (end_body t x (gate b))"
    by (rule gate_inv_client [OF c gate_inv_replace]) (use assms(1) in \<open>simp add: system_inv_def\<close>)
  then show ?thesis
    using assms by (auto simp: system_inv_def call_inv_def map_inv_def acquiring_def)
qed

lemma service_inv_backend:
  assumes "system_step pol t (base s) b" "service_inv R rec_ok pk_valid T tbl0 s"
  shows "service_inv R rec_ok pk_valid T tbl0 (s\<lparr>base := b\<rparr>)"
proof -
  have inv: "system_inv (base s)" and quiet: "\<not> in_prepare (doing (base s) u)" for u
    using assms(2) by (simp_all add: service_inv_def)
  have "system_inv b"
    using assms(1) inv unfolding system_inv_def
    by (blast intro: gate_inv_system_step call_inv_step map_inv_step)
  moreover have "(\<forall>u. \<not> in_prepare (doing b u)) \<and> (staged_inv (gate (base s)) \<longrightarrow> staged_inv (gate b)) \<and>
      ns_stores (shared (gate b)) = ns_stores (shared (gate (base s)))"
    using assms(1)
  proof (cases rule: system_step.cases)
    case (at_gate g)
    then show ?thesis using quiet by (auto intro: staged_inv_gate simp: gate_step_stores)
  next
    case write_lock
    then show ?thesis using quiet by (auto intro: staged_inv_move)
  next
    case (prepare_lock names)
    then show ?thesis using quiet [of t] by simp
  next
    case (prepare_current names)
    then show ?thesis using quiet [of t] by simp
  next
    case (prepare_return S)
    then show ?thesis using quiet [of t] by simp
  qed (use quiet in auto)
  ultimately show ?thesis using assms(2) by (auto simp: service_inv_def)
qed

lemma system_inv_caller:
  "caller_step t b b' \<Longrightarrow> system_inv b \<Longrightarrow> system_inv b'"
  unfolding system_inv_def by (blast intro: gate_inv_caller_step call_inv_caller map_inv_caller)

lemma service_inv_step:
  assumes R: "lawful_item R lt pk_valid rec_ok" and T: "registry_ok R rec_ok T"
    and step: "service_step pol R T nm (request_ok rec_ok pk_valid) s s'"
    and inv: "service_inv R rec_ok pk_valid T tbl0 s"
  shows "service_inv R rec_ok pk_valid T tbl0 s'"
  using step inv
proof (induction rule: service_step.induct)
  case (start_get s t pk)
  then have "caller_step t (base s) (goes t ReadWait (base s))"
    by (intro caller_step.call_read) simp_all
  with start_get show ?case by (auto simp: service_inv_def intro: system_inv_caller)
next
  case (start_mutation s t m)
  then have "caller_step t (base s) (goes t WriteWait (base s))"
    by (intro caller_step.call_write) simp_all
  with start_mutation show ?case by (auto simp: service_inv_def intro: system_inv_caller)
next
  case (backend t s b)
  then show ?case by (blast intro: service_inv_backend)
next
  case (answer_get s t pk)
  let ?S = "ns_stores (shared (gate (base s)))"
  have read: "system_step pol t (base s) (goes t Idle (open_read (base s)))"
    using answer_get(2) by (rule system_step.read_return)
  have "service_inv R rec_ok pk_valid T tbl0 (s\<lparr>base := goes t Idle (open_read (base s))\<rparr>)"
    by (rule service_inv_backend [OF read answer_get(3)])
  moreover have "pk_valid pk"
    using service_request_ok [OF answer_get(3,1)] by (simp add: request_ok_def)
  then have "holds_table R rec_ok T tbl0 (answers s @ [Got pk (get_body memory_ms R pk ?S)]) ?S"
    using answer_get(3) get_on_snapshot [OF R \<open>pk_valid pk\<close>]
    by (fastforce simp: service_inv_def holds_table_def explains_append)
  ultimately show ?case by (auto simp: service_inv_def answered_def)
next
  case (answer_mutation s t m S x)
  let ?S = "ns_stores (shared (gate (base s)))"
  have S: "S = ?S" and m: "mutation_ok rec_ok pk_valid m" and own: "owner_inv (gate (base s))"
    using answer_mutation(3,6) service_request_ok [OF answer_mutation(6,1)]
    by (auto simp: service_inv_def staged_inv_def request_ok_def system_inv_def gate_inv_def)
  obtain tbl where tbl: "stores_ok ?S" "explains R T (answers s) tbl0 tbl" "coll_repr R rec_ok T tbl ?S"
    using answer_mutation(6) by (auto simp: service_inv_def holds_table_def)
  have "holds_table R rec_ok T tbl0 (answers s @ [Did m (map_ret (\<lambda>_. ()) x)]) (body_publishes x ?S)"
    using body_on_snapshot [OF R T m tbl(1,3) answer_mutation(4) [unfolded S]] tbl(2)
    by (auto simp: holds_table_def explains_append)
  moreover have "system_inv ((base s)\<lparr>gate := end_body t x (gate (base s))\<rparr>)"
    using answer_mutation by (intro system_inv_end) (auto simp: service_inv_def)
  ultimately show ?case
    using answer_mutation(6) staged_inv_end [OF own answer_mutation(3), of x]
    by (auto simp: service_inv_def answered_def)
next
  case (spurious s t)
  then have "caller_step t (base s) ((base s)\<lparr>gate := move t Woken (gate (base s))\<rparr>)"
    by (intro caller_step.wake) (auto intro: client_step.wake_spuriously)
  with spurious show ?case
    by (auto simp: service_inv_def intro: system_inv_caller staged_inv_move)
qed

lemma service_reachable_inv:
  assumes "lawful_item R lt pk_valid rec_ok" "registry_ok R rec_ok T"
    and "stores_ok S" "coll_repr R rec_ok T tbl S"
    and "service_reachable pol R T nm (request_ok rec_ok pk_valid) S s"
  shows "service_inv R rec_ok pk_valid T tbl s"
  using assms(5)
proof (induction rule: service_reachable.induct)
  case start
  have "system_inv (system_new S)"
    by (rule system_reachable_inv [OF system_reachable.start])
  then show ?case
    using assms(3,4) by (auto simp: service_inv_def service_new_def staged_inv_def holds_table_def)
next
  case (step s s')
  then show ?case by (blast intro: service_inv_step [OF assms(1,2)])
qed

section \<open>A run\<close>

lemma serve_steps:
  "steps_of pol t (base s) b \<Longrightarrow> service_reachable pol R T nm ok S s \<Longrightarrow>
   service_reachable pol R T nm ok S (s\<lparr>base := b\<rparr>)"
  unfolding steps_of_def
proof (induction rule: rtranclp_induct)
  case (step b b')
  then show ?case
    using service_step.backend [of pol t "s\<lparr>base := b\<rparr>" b' R T nm ok]
    by (auto intro: service_reachable.step)
qed simp

text \<open>Thread 0 opens a transaction for a call; thread 1 looks a key up; thread 0 ends its call.\<close>

lemma serve_mutation_and_get:
  assumes m: "ok (Mutate m)" and pk: "ok (Get pk)"
    and x: "x = mutation_body memory_ms R T m \<lparr>mwh_namespace = nm, mwh_staged = S\<rparr>" "x \<noteq> Hung"
  shows "\<exists>s. service_reachable pol R T nm ok S s \<and>
           answers s = [Got pk (get_body memory_ms R pk S), Did m (map_ret (\<lambda>_. ()) x)] \<and>
           ns_stores (shared (gate (base s))) = body_publishes x S"
proof -
  let ?s0 = "service_new S :: ('a, 'b) service"
  let ?s1 = "?s0\<lparr>base := goes 0 WriteWait (base ?s0), requests := (requests ?s0)(0 \<mapsto> Mutate m)\<rparr>"
  let ?b2 = "(system_new S)\<lparr>gate := move 0 (Writing [] S) (set_open True (threads_new S))\<rparr>"
  let ?s2 = "?s1\<lparr>base := ?b2\<rparr>"
  let ?s3 = "?s2\<lparr>base := goes 1 ReadWait (base ?s2), requests := (requests ?s2)(1 \<mapsto> Get pk)\<rparr>"
  let ?s4 = "?s3\<lparr>base := goes 1 ReadHeld (base ?s3)\<rparr>"
  let ?s5 = "answered 1 (Got pk (get_body memory_ms R pk (ns_stores (shared (gate (base ?s4))))))
               (?s4\<lparr>base := goes 1 Idle (open_read (base ?s4))\<rparr>)"
  let ?s6 = "answered 0 (Did m (map_ret (\<lambda>_. ()) x)) (?s5\<lparr>base := (base ?s5)\<lparr>gate := end_body 0 x (gate (base ?s5))\<rparr>\<rparr>)"
  let ?reach = "service_reachable pol R T nm ok S"
  have "service_step pol R T nm ok ?s0 ?s1"
    using m by (intro service_step.start_mutation) (simp_all add: service_new_def)
  then have s1: "?reach ?s1" by (rule service_reachable.step [OF service_reachable.start])
  have "steps_of pol 0 (base ?s1) ?b2"
    using write_runs [of "system_new S" 0 pol] by (simp add: service_new_def)
  then have s2: "?reach ?s2" by (rule serve_steps [OF _ s1])
  have "service_step pol R T nm ok ?s2 ?s3"
    using pk by (intro service_step.start_get) (simp_all add: service_new_def)
  then have s3: "?reach ?s3" by (rule service_reachable.step [OF s2])
  have "service_step pol R T nm ok ?s3 ?s4"
    by (intro service_step.backend [where t = 1] system_step.read_lock)
      (simp_all add: may_read_def service_new_def)
  then have s4: "?reach ?s4" by (rule service_reachable.step [OF s3])
  have "service_step pol R T nm ok ?s4 ?s5"
    by (intro service_step.answer_get) simp_all
  then have s5: "?reach ?s5" by (rule service_reachable.step [OF s4])
  have "service_step pol R T nm ok ?s5 ?s6"
    by (rule service_step.answer_mutation [where S = S])
      (use x in \<open>simp_all add: answered_def service_new_def\<close>)
  then have "?reach ?s6" by (rule service_reachable.step [OF s5])
  then show ?thesis
    by (rule exI [of _ ?s6, OF conjI]) (simp add: answered_def service_new_def)
qed

section \<open>Property\<close>

text \<open>C12: Collections in memory are linearizable. Whatever threads call \<open>insert\<close>, \<open>update\<close>, \<open>save\<close>,
  \<open>remove\<close> and \<open>get\<close> on a collection at once, and however their steps interleave under any policy
  of the locks, the answers, errors included, are those that the specification gives when the
  calls run one after the other on the table of records, in the order in which they were
  answered; and the published stores represent the table that this order leaves, indexes
  included.\<close>

lemma collection_linearizes:
  assumes "lawful_item R lt pk_valid rec_ok" "registry_ok R rec_ok T"
    and "stores_ok S" "coll_repr R rec_ok T tbl S"
    and "service_reachable pol R T nm (request_ok rec_ok pk_valid) S s"
  shows "\<exists>tbl'. explains R T (answers s) tbl tbl' \<and>
           coll_repr R rec_ok T tbl' (ns_stores (shared (gate (base s))))"
  using service_reachable_inv [OF assms] by (auto simp: service_inv_def holds_table_def)

text \<open>Thread 1 looks for the first task while thread 0 has the transaction open that inserts it.\<close>

lemma collection_linearizes_witness:
  "\<exists>S s. service_reachable (\<lambda>_. True) task_item task_registry ''tasks'' (request_ok (\<lambda>_. True) (\<lambda>_. True)) S s \<and>
     answers s = [Got 1 (Ret None), Did (Insert task_a) (Ret ())] \<and>
     coll_repr task_item (\<lambda>_. True) task_registry [1 \<mapsto> task_a] (ns_stores (shared (gate (base s))))"
proof (rule memory_holdsD [OF empty_tasks_hold])
  fix S assume mem: "memory_inv empty_tasks" "memory_abs empty_tasks ''tasks'' = Some S"
    and repr: "coll_repr task_item (\<lambda>_. True) task_registry (\<lambda>_. None) S"
  have S: "stores_ok S"
    using mem by (auto simp: memory_inv_def memory_stores_ok_def memory_abs_def)
  have spec: "spec_insert task_item task_registry task_a (\<lambda>_. None) = Ret [1 \<mapsto> task_a]"
    by (simp add: spec_insert_def spec_put_def task_registry_def by_slot_conflict by_status_no_conflict
        by_board_no_conflict task_a_def)
  let ?x = "mutation_body memory_ms task_item task_registry (Insert task_a) \<lparr>mwh_namespace = ''tasks'', mwh_staged = S\<rparr>"
  let ?ok = "request_ok (\<lambda>_. True) (\<lambda>_. True) :: (task, 64 word) request \<Rightarrow> bool"
  have "map_ret (\<lambda>_. ()) ?x = Ret ()"
    using body_on_snapshot [OF tasks.lawful_item_axioms task_registry_ok _ S repr refl, of "Insert task_a" "''tasks''"]
    by (simp add: spec)
  then have x: "?x \<noteq> Hung" by auto
  obtain s where s: "service_reachable (\<lambda>_. True) task_item task_registry ''tasks'' ?ok S s"
      "answers s = [Got 1 (get_body memory_ms task_item 1 S), Did (Insert task_a) (map_ret (\<lambda>_. ()) ?x)]"
    using serve_mutation_and_get [of ?ok "Insert task_a" 1, OF _ _ refl x, of "\<lambda>_. True"]
    by (auto simp: request_ok_def)
  obtain tbl where tbl: "explains task_item task_registry (answers s) (\<lambda>_. None) tbl"
      "coll_repr task_item (\<lambda>_. True) task_registry tbl (ns_stores (shared (gate (base s))))"
    using collection_linearizes [OF tasks.lawful_item_axioms task_registry_ok S repr s(1)] by auto
  then show ?thesis
    using s spec by (intro exI [of _ S] exI [of _ s]) (auto simp: table_after_def)
qed

end
