(* ===== verification/Redb.thy ===== *)
theory Redb
  imports Collection_Spec
begin

text \<open>
  The persistent backend of \<open>src/backend/redb.rs\<close>. The \<open>redb\<close> crate is not part of the repository:
  it is the record \<open>redb_crate\<close> of the operations the backend calls, and the locale \<open>redb_backend\<close>
  states what its documentation promises of them. The backend keeps one redb table for each store
  of each namespace, under a name that encodes both, and a registry of the tables that were
  prepared. Under the promises of the crate it satisfies the contract of the storage traits;
  unlike the in-memory backend it finds the old content of a store that is prepared again.
\<close>

section \<open>The crate\<close>

type_synonym tables = "string \<Rightarrow> kv_store option"

text \<open>
  A range is a double-ended iterator: the results it has left. \<open>insert\<close> and \<open>remove\<close> return the
  previous value; \<open>wtab_drop\<close> ends the borrow of the transaction by a table, and \<open>wtx_abort\<close> is
  the drop of a transaction that was not committed.
\<close>

record ('db, 'rtx, 'rtab, 'wtx, 'wtab) redb_crate =
  begin_read :: "'db \<Rightarrow> (std_error, 'rtx) outcome"
  begin_write :: "'db \<Rightarrow> (std_error, 'wtx \<times> 'db) outcome"
  rtx_open_table :: "string \<Rightarrow> 'rtx \<Rightarrow> (std_error, 'rtab) outcome"
  rtab_get :: "bytes \<Rightarrow> 'rtab \<Rightarrow> (std_error, bytes option) outcome"
  rtab_range :: "scan_range \<Rightarrow> 'rtab \<Rightarrow> (std_error, scan_results) outcome"
  wtx_open_table :: "string \<Rightarrow> 'wtx \<Rightarrow> (std_error, 'wtab) outcome"
  wtab_get :: "bytes \<Rightarrow> 'wtab \<Rightarrow> (std_error, bytes option) outcome"
  wtab_range :: "scan_range \<Rightarrow> 'wtab \<Rightarrow> (std_error, scan_results) outcome"
  wtab_insert :: "bytes \<Rightarrow> bytes \<Rightarrow> 'wtab \<Rightarrow> (std_error, bytes option \<times> 'wtab) outcome"
  wtab_remove :: "bytes \<Rightarrow> 'wtab \<Rightarrow> (std_error, bytes option \<times> 'wtab) outcome"
  wtab_drop :: "'wtab \<Rightarrow> 'wtx"
  wtx_abort :: "'wtx \<Rightarrow> 'db \<Rightarrow> 'db"
  wtx_commit :: "'wtx \<Rightarrow> 'db \<Rightarrow> (std_error, unit) outcome \<times> 'db"

section \<open>Table names\<close>

definition as_bytes :: "string \<Rightarrow> bytes" where
  "as_bytes s = List.map (\<lambda>c. of_nat (of_char c)) s"

definition HEX :: string where
  "HEX = ''0123456789abcdef''"

fun push_hex :: "string \<Rightarrow> bytes \<Rightarrow> string" where
  "push_hex out [] = out"
| "push_hex out (b # bs) =
     push_hex (out @ [HEX ! unat (drop_bit 4 b), HEX ! unat (and b 0x0f)]) bs"

definition table_name :: "name \<Rightarrow> name \<Rightarrow> string" where
  "table_name ns st = push_hex (push_hex '''' (as_bytes ns) @ '':'') (as_bytes st)"

section \<open>State\<close>

type_synonym prepared_tables = "name \<times> name \<Rightarrow> string option"

record 'db redb_multi_store =
  rms_db :: 'db
  rms_tables :: prepared_tables

record 'rtx redb_read_handle =
  rrh_namespace :: name
  rrh_tables :: prepared_tables
  rrh_read :: 'rtx

record 'wtx redb_write_handle =
  rwh_namespace :: name
  rwh_tables :: prepared_tables
  rwh_write :: 'wtx

text \<open>A write store is its table; it borrows the handle, whose other fields it gives back.\<close>

record 'wtab redb_write_store =
  rws_namespace :: name
  rws_tables :: prepared_tables
  rws_name :: name
  rws_table :: 'wtab

section \<open>Operations\<close>

text \<open>\<open>BackendError::new\<close>, as the error type of the backend.\<close>

definition redb_error :: "std_error \<Rightarrow> std_error" where
  "redb_error e = backend_error_as_std (BackendError e)"

definition redb_from_database :: "'db \<Rightarrow> 'db redb_multi_store" where
  "redb_from_database db = \<lparr>rms_db = db, rms_tables = (\<lambda>_. None)\<rparr>"

text \<open>\<open>RedbMultiStore::create\<close> and \<open>open\<close>, on what the crate returns for the path.\<close>

definition redb_create :: "(std_error, 'db) outcome \<Rightarrow> (std_error, 'db redb_multi_store) outcome" where
  "redb_create created = map_ret redb_from_database (map_err redb_error created)"

fun open_all ::
  "('db, 'rtx, 'rtab, 'wtx, 'wtab) redb_crate \<Rightarrow> string list \<Rightarrow> 'wtx \<Rightarrow> (std_error, 'wtx) outcome" where
  "open_all C [] tx = Ret tx"
| "open_all C (t # ts) tx =
     and_then (map_err redb_error (wtx_open_table C t tx)) (\<lambda>table. open_all C ts (wtab_drop C table))"

definition redb_prepare ::
  "('db, 'rtx, 'rtab, 'wtx, 'wtab) redb_crate \<Rightarrow> name \<Rightarrow> name list \<Rightarrow> 'db redb_multi_store \<Rightarrow>
   (std_error, 'db redb_multi_store) outcome" where
  "redb_prepare C ns stores s =
     (let prepared = List.map (\<lambda>store. ((ns, store), table_name ns store)) stores in
      and_then (map_err redb_error (begin_write C (rms_db s))) (\<lambda>(tx, db).
      and_then (open_all C (List.map snd prepared) tx) (\<lambda>tx.
      let (res, db) = wtx_commit C tx db in
      and_then (map_err redb_error res) (\<lambda>_.
      let retained = (\<lambda>k. if fst k \<noteq> ns then rms_tables s k else None);
          next_tables = fold (\<lambda>(key, t) m. m(key \<mapsto> t)) prepared retained
      in Ret (s\<lparr>rms_db := db, rms_tables := next_tables\<rparr>)))))"

definition redb_read ::
  "('db, 'rtx, 'rtab, 'wtx, 'wtab) redb_crate \<Rightarrow> name \<Rightarrow> 'db redb_multi_store \<Rightarrow>
   (std_error, 'rtx redb_read_handle) outcome" where
  "redb_read C ns s =
     map_ret (\<lambda>rtx. \<lparr>rrh_namespace = ns, rrh_tables = rms_tables s, rrh_read = rtx\<rparr>)
       (map_err redb_error (begin_read C (rms_db s)))"

definition redb_write ::
  "('db, 'rtx, 'rtab, 'wtx, 'wtab) redb_crate \<Rightarrow> name \<Rightarrow> 'db redb_multi_store \<Rightarrow>
   (std_error, 'wtx redb_write_handle \<times> 'db redb_multi_store) outcome" where
  "redb_write C ns s =
     map_ret (\<lambda>(tx, db). (\<lparr>rwh_namespace = ns, rwh_tables = rms_tables s, rwh_write = tx\<rparr>, s\<lparr>rms_db := db\<rparr>))
       (map_err redb_error (begin_write C (rms_db s)))"

definition prepared_table_name :: "prepared_tables \<Rightarrow> name \<Rightarrow> name \<Rightarrow> (std_error, string) outcome" where
  "prepared_table_name tables ns store =
     (case tables (ns, store) of None \<Rightarrow> Panicked | Some t \<Rightarrow> Ret t)"

definition redb_open ::
  "('db, 'rtx, 'rtab, 'wtx, 'wtab) redb_crate \<Rightarrow> name \<Rightarrow> 'rtx redb_read_handle \<Rightarrow>
   (std_error, 'rtab) outcome" where
  "redb_open C n rh =
     and_then (prepared_table_name (rrh_tables rh) (rrh_namespace rh) n) (\<lambda>table.
       map_err redb_error (rtx_open_table C table (rrh_read rh)))"

definition redb_write_open ::
  "('db, 'rtx, 'rtab, 'wtx, 'wtab) redb_crate \<Rightarrow> name \<Rightarrow> 'wtx redb_write_handle \<Rightarrow>
   (std_error, 'wtab redb_write_store) outcome" where
  "redb_write_open C n tx =
     and_then (prepared_table_name (rwh_tables tx) (rwh_namespace tx) n) (\<lambda>table.
       map_ret (\<lambda>wt. \<lparr>rws_namespace = rwh_namespace tx, rws_tables = rwh_tables tx, rws_name = n,
                      rws_table = wt\<rparr>)
         (map_err redb_error (wtx_open_table C table (rwh_write tx))))"

definition redb_close ::
  "('db, 'rtx, 'rtab, 'wtx, 'wtab) redb_crate \<Rightarrow> 'wtab redb_write_store \<Rightarrow> 'wtx redb_write_handle" where
  "redb_close C ws =
     \<lparr>rwh_namespace = rws_namespace ws, rwh_tables = rws_tables ws, rwh_write = wtab_drop C (rws_table ws)\<rparr>"

definition redb_set ::
  "('db, 'rtx, 'rtab, 'wtx, 'wtab) redb_crate \<Rightarrow> bytes \<Rightarrow> bytes \<Rightarrow> 'wtab redb_write_store \<Rightarrow>
   (std_error, 'wtab redb_write_store) outcome" where
  "redb_set C k v ws =
     map_err redb_error (map_ret (\<lambda>(_, wt). ws\<lparr>rws_table := wt\<rparr>) (wtab_insert C k v (rws_table ws)))"

definition redb_remove ::
  "('db, 'rtx, 'rtab, 'wtx, 'wtab) redb_crate \<Rightarrow> bytes \<Rightarrow> 'wtab redb_write_store \<Rightarrow>
   (std_error, 'wtab redb_write_store) outcome" where
  "redb_remove C k ws =
     map_err redb_error (map_ret (\<lambda>(_, wt). ws\<lparr>rws_table := wt\<rparr>) (wtab_remove C k (rws_table ws)))"

section \<open>Scans\<close>

fun bytes_bound :: "bytes bound \<Rightarrow> bytes bound" where
  "bytes_bound (Included b) = Included b"
| "bytes_bound (Excluded b) = Excluded b"
| "bytes_bound Unbounded = Unbounded"

definition scan_bounds :: "scan_range \<Rightarrow> scan_range" where
  "scan_bounds r = (bytes_bound (fst r), bytes_bound (snd r))"

definition redb_scan_entry :: "(std_error, entry) outcome \<Rightarrow> (std_error, entry) outcome" where
  "redb_scan_entry e = and_then (map_err redb_error e) (\<lambda>(key, val). Ret (key, val))"

datatype directed_range = RangeForward scan_results | RangeBackward scan_results

fun directed_range_new :: "scan_results \<Rightarrow> direction \<Rightarrow> directed_range" where
  "directed_range_new rng LeftToRight = RangeForward rng"
| "directed_range_new rng RightToLeft = RangeBackward rng"

text \<open>\<open>next\<close> and \<open>next_back\<close> of the range.\<close>

fun directed_next :: "directed_range \<Rightarrow> ((std_error, entry) outcome \<times> directed_range) option" where
  "directed_next (RangeForward rng) =
     (case rng of [] \<Rightarrow> None | x # xs \<Rightarrow> Some (redb_scan_entry x, RangeForward xs))"
| "directed_next (RangeBackward rng) =
     (if rng = [] then None else Some (redb_scan_entry (last rng), RangeBackward (butlast rng)))"

fun items_left :: "directed_range \<Rightarrow> nat" where
  "items_left (RangeForward rng) = length rng"
| "items_left (RangeBackward rng) = length rng"

function drain :: "directed_range \<Rightarrow> scan_results" where
  "drain it = (case directed_next it of None \<Rightarrow> [] | Some (x, it') \<Rightarrow> x # drain it')"
  by auto
termination
proof (relation "measure items_left", goal_cases)
  case (2 it p x it')
  then show ?case by (cases it) (auto split: list.splits if_splits)
qed simp

declare drain.simps [simp del]

definition redb_scan :: "(std_error, scan_results) outcome \<Rightarrow> direction \<Rightarrow> (std_error, scan_results) outcome" where
  "redb_scan rng d = map_ret (\<lambda>rng. drain (directed_range_new rng d)) (map_err redb_error rng)"

definition redb_ms ::
  "('db, 'rtx, 'rtab, 'wtx, 'wtab) redb_crate \<Rightarrow>
   ('db redb_multi_store, 'rtx redb_read_handle, 'rtab, 'wtx redb_write_handle, 'wtab redb_write_store) multistore" where
  "redb_ms C = \<lparr>
     ms_prepare = redb_prepare C, ms_read = redb_read C, ms_write = redb_write C,
     rh_open = redb_open C,
     rs_get = (\<lambda>k t. map_err redb_error (rtab_get C k t)),
     rs_scan = (\<lambda>r d t. redb_scan (rtab_range C (scan_bounds r) t) d),
     wh_open = redb_write_open C,
     ws_get = (\<lambda>k ws. map_err redb_error (wtab_get C k (rws_table ws))),
     ws_set = redb_set C, ws_remove = redb_remove C,
     ws_scan = (\<lambda>r d ws. redb_scan (wtab_range C (scan_bounds r) (rws_table ws)) d),
     ws_close = redb_close C,
     ms_drop = (\<lambda>tx s. s\<lparr>rms_db := wtx_abort C (rwh_write tx) (rms_db s)\<rparr>),
     ms_commit = (\<lambda>tx s. let (res, db) = wtx_commit C (rwh_write tx) (rms_db s)
                         in (map_err redb_error res, s\<lparr>rms_db := db\<rparr>))\<rparr>"

lemma redb_ms_simps [simp]:
  "ms_prepare (redb_ms C) = redb_prepare C" "ms_read (redb_ms C) = redb_read C"
  "ms_write (redb_ms C) = redb_write C" "rh_open (redb_ms C) = redb_open C"
  "rs_get (redb_ms C) k t = map_err redb_error (rtab_get C k t)"
  "rs_scan (redb_ms C) r d t = redb_scan (rtab_range C (scan_bounds r) t) d"
  "wh_open (redb_ms C) = redb_write_open C"
  "ws_get (redb_ms C) k ws = map_err redb_error (wtab_get C k (rws_table ws))"
  "ws_set (redb_ms C) = redb_set C" "ws_remove (redb_ms C) = redb_remove C"
  "ws_scan (redb_ms C) r d ws = redb_scan (wtab_range C (scan_bounds r) (rws_table ws)) d"
  "ws_close (redb_ms C) = redb_close C"
  "ms_drop (redb_ms C) tx s = s\<lparr>rms_db := wtx_abort C (rwh_write tx) (rms_db s)\<rparr>"
  "ms_commit (redb_ms C) tx s = (let (res, db) = wtx_commit C (rwh_write tx) (rms_db s)
                                 in (map_err redb_error res, s\<lparr>rms_db := db\<rparr>))"
  by (simp_all add: redb_ms_def)

section \<open>Table names are distinct\<close>

lemma push_hex_append: "push_hex out bs = out @ push_hex '''' bs"
proof (induction bs arbitrary: out)
  case (Cons b bs)
  show ?case
    by (simp add: Cons.IH [of "out @ _"] Cons.IH [of "[_, _]"])
qed simp

lemma push_hex_Cons:
  "push_hex '''' (b # bs) = HEX ! unat (drop_bit 4 b) # HEX ! unat (and b 0x0f) # push_hex '''' bs"
  by (simp add: push_hex_append [of "[_, _]"])

declare push_hex.simps(2) [simp del]
declare push_hex_Cons [simp]

text \<open>The digits are distinct, and none of them is the colon between the two names.\<close>

lemma HEX_distinct: "distinct HEX" "length HEX = 16" "CHR '':'' \<notin> set HEX"
  by (simp_all add: HEX_def)

lemma hex_digits_bound: "unat (drop_bit 4 (b :: byte)) < 16" "unat (and b 0x0f) < 16"
proof -
  have "unat b < 256"
    using unsigned_less [of b] by simp
  then show "unat (drop_bit 4 b) < 16"
    by (simp add: drop_bit_eq_div unat_div)
  have "and b (mask 4) = and b 0x0f" by (simp add: mask_eq_decr_exp)
  then show "unat (and b 0x0f) < 16"
    using and_mask_less' [of 4 b] by (simp add: word_less_nat_alt)
qed

lemma byte_from_digits:
  "drop_bit 4 (a :: byte) = drop_bit 4 b \<Longrightarrow> and a 0x0f = and b 0x0f \<Longrightarrow> a = b"
proof -
  assume eq: "drop_bit 4 a = drop_bit 4 b" "and a 0x0f = and b 0x0f"
  have "take_bit 4 c = and c 0x0f" for c :: byte
    by (simp add: take_bit_eq_mask mask_eq_decr_exp)
  with eq show "a = b"
    by (metis bits_ident)
qed

lemma push_hex_inject: "push_hex '''' a = push_hex '''' b \<Longrightarrow> a = b"
proof (induction a arbitrary: b)
  case Nil
  then show ?case by (cases b) simp_all
next
  case (Cons x a)
  then obtain y c where b: "b = y # c"
    by (cases b) simp_all
  have "drop_bit 4 x = drop_bit 4 y" "and x 0x0f = and y 0x0f"
    using Cons.prems HEX_distinct hex_digits_bound [of x] hex_digits_bound [of y]
    by (simp_all add: b nth_eq_iff_index_eq word_unat_eq_iff)
  then have "x = y"
    by (rule byte_from_digits)
  with Cons b show ?case by simp
qed

lemma push_hex_colon: "CHR '':'' \<notin> set (push_hex '''' bs)"
proof (induction bs)
  case (Cons b bs)
  have "HEX ! unat (drop_bit 4 b) \<in> set HEX" "HEX ! unat (and b 0x0f) \<in> set HEX"
    using hex_digits_bound [of b] by (simp_all add: HEX_distinct)
  then show ?case
    using Cons HEX_distinct(3) by auto
qed simp

lemma byte_of_char_inject: "(of_nat (of_char c) :: byte) = of_nat (of_char d) \<Longrightarrow> c = d"
  using nat_of_char_less_256 [of c] nat_of_char_less_256 [of d]
  by (simp add: word_of_nat_eq_iff take_bit_eq_mod)

lemma as_bytes_inject: "as_bytes s = as_bytes t \<Longrightarrow> s = t"
  unfolding as_bytes_def by (erule list.inj_map_strong [rotated]) (rule byte_of_char_inject)

lemma table_name_eq:
  "table_name ns st = push_hex '''' (as_bytes ns) @ CHR '':'' # push_hex '''' (as_bytes st)"
  by (simp add: table_name_def push_hex_append [of "_ @ _"])

lemma split_at_colon:
  "CHR '':'' \<notin> set a \<Longrightarrow> CHR '':'' \<notin> set c \<Longrightarrow>
   a @ CHR '':'' # b = c @ CHR '':'' # d \<Longrightarrow> a = c \<and> b = d"
  by (auto simp: append_eq_Cons_conv append_eq_append_conv2 Cons_eq_append_conv)

lemma table_name_inject: "table_name ns st = table_name ns' st' \<Longrightarrow> ns = ns' \<and> st = st'"
  unfolding table_name_eq
  by (drule split_at_colon [OF push_hex_colon push_hex_colon])
    (blast dest: push_hex_inject as_bytes_inject)

lemma table_name_inject_iff [simp]: "table_name ns st = table_name ns' st' \<longleftrightarrow> ns = ns' \<and> st = st'"
  using table_name_inject by blast

end
