(* ===== verification/Redb_Spec.thy ===== *)
theory Redb_Spec
  imports Redb
begin

text \<open>
  What the redb backend owes and what it relies on. The locale \<open>redb_backend\<close> is the documented
  behaviour of the crate: a database is a set of named ordered tables, a read transaction sees the
  tables of one moment, a write transaction works on its own tables, which \<open>commit\<close> publishes at
  once and \<open>abort\<close> forgets, opening a table for writing creates it, a table that does not exist
  cannot be opened for reading, and any call may fail with a storage error and change nothing.
  Of failures the documentation says little; the locale takes that a \<open>commit\<close> that fails leaves
  the tables as they were, and that a range may yield an error in place of any entry.
  From it follows the contract of the storage traits for the backend of \<open>src/backend/redb.rs\<close>. The
  last section runs the backend on a crate that keeps its tables in memory, where every
  assumption holds.
\<close>

section \<open>Tables\<close>

definition tables_ok :: "tables \<Rightarrow> bool" where
  "tables_ok T \<longleftrightarrow> (\<forall>t kv. T t = Some kv \<longrightarrow> bt_ok kv)"

definition table_or_empty :: "tables \<Rightarrow> string \<Rightarrow> kv_store" where
  "table_or_empty T t = (case T t of None \<Rightarrow> [] | Some kv \<Rightarrow> kv)"

definition with_table :: "string \<Rightarrow> tables \<Rightarrow> tables" where
  "with_table t T = T(t \<mapsto> table_or_empty T t)"

text \<open>An opened write table: its name and the tables of its transaction.\<close>

type_synonym open_table = "string \<times> tables"

definition opened :: "open_table \<Rightarrow> kv_store" where
  "opened wt = table_or_empty (snd wt) (fst wt)"

definition edit_table :: "(kv_store \<Rightarrow> kv_store) \<Rightarrow> open_table \<Rightarrow> open_table" where
  "edit_table f wt = (fst wt, (snd wt)(fst wt \<mapsto> f (opened wt)))"

section \<open>The documented behaviour of the crate\<close>

locale redb_backend =
  fixes storage_error :: "std_error \<Rightarrow> bool"
    and C :: "('db, 'rtx, 'rtab, 'wtx, 'wtab) redb_crate"
    and db_ready :: "'db \<Rightarrow> bool" and db_writing :: "'db \<Rightarrow> bool" and db_tables :: "'db \<Rightarrow> tables"
    and rtx_tables :: "'rtx \<Rightarrow> tables" and rtab_content :: "'rtab \<Rightarrow> kv_store"
    and wtx_ok :: "'wtx \<Rightarrow> bool" and wtx_tables :: "'wtx \<Rightarrow> tables"
    and wtab_ok :: "'wtab \<Rightarrow> bool" and wtab_open :: "'wtab \<Rightarrow> open_table"
  assumes ready_tables: "db_ready db \<Longrightarrow> tables_ok (db_tables db)"
    and begin_read_doc: "db_ready db \<Longrightarrow>
      refines storage_error (\<lambda>_. True) rtx_tables (begin_read C db) (Ret (db_tables db))"
    and begin_write_doc: "db_ready db \<Longrightarrow>
      refines storage_error (\<lambda>(tx, db'). wtx_ok tx \<and> db_writing db')
        (\<lambda>(tx, db'). (wtx_tables tx, db_tables db')) (begin_write C db) (Ret (db_tables db, db_tables db))"
    and open_table_doc: "rtx_tables rtx t = Some kv \<Longrightarrow>
      refines storage_error (\<lambda>_. True) rtab_content (rtx_open_table C t rtx) (Ret kv)"
    and no_table_doc: "rtx_tables rtx t = None \<Longrightarrow>
      \<exists>e. rtx_open_table C t rtx = Fail e \<and> storage_error e"
    and rtab_get_doc: "refines storage_error (\<lambda>_. True) (\<lambda>a. a) (rtab_get C k rt)
      (Ret (bt_get k (rtab_content rt)))"
    and rtab_range_doc: "\<not> range_panics r \<Longrightarrow>
      scan_refines storage_error (rtab_range C r rt) (ref_scan r LeftToRight (rtab_content rt))"
    and create_table_doc: "wtx_ok tx \<Longrightarrow>
      refines storage_error wtab_ok wtab_open (wtx_open_table C t tx) (Ret (t, with_table t (wtx_tables tx)))"
    and wtab_get_doc: "wtab_ok wt \<Longrightarrow>
      refines storage_error (\<lambda>_. True) (\<lambda>a. a) (wtab_get C k wt) (Ret (bt_get k (opened (wtab_open wt))))"
    and wtab_range_doc: "wtab_ok wt \<Longrightarrow> \<not> range_panics r \<Longrightarrow>
      scan_refines storage_error (wtab_range C r wt) (ref_scan r LeftToRight (opened (wtab_open wt)))"
    and insert_doc: "wtab_ok wt \<Longrightarrow>
      refines storage_error (\<lambda>(old, wt'). wtab_ok wt') (\<lambda>(old, wt'). (old, wtab_open wt'))
        (wtab_insert C k v wt)
        (Ret (bt_get k (opened (wtab_open wt)), edit_table (bt_insert k v) (wtab_open wt)))"
    and remove_doc: "wtab_ok wt \<Longrightarrow>
      refines storage_error (\<lambda>(old, wt'). wtab_ok wt') (\<lambda>(old, wt'). (old, wtab_open wt'))
        (wtab_remove C k wt)
        (Ret (bt_get k (opened (wtab_open wt)), edit_table (bt_remove k) (wtab_open wt)))"
    and drop_table_doc: "wtab_ok wt \<Longrightarrow>
      wtx_ok (wtab_drop C wt) \<and> wtx_tables (wtab_drop C wt) = snd (wtab_open wt)"
    and abort_doc: "db_writing db \<Longrightarrow> wtx_ok tx \<Longrightarrow>
      db_ready (wtx_abort C tx db) \<and> db_tables (wtx_abort C tx db) = db_tables db"
    and commit_doc: "db_writing db \<Longrightarrow> wtx_ok tx \<Longrightarrow> wtx_commit C tx db = (res, db') \<Longrightarrow>
      db_ready db' \<and> (res = Ret () \<and> db_tables db' = wtx_tables tx \<or>
                      (\<exists>e. res = Fail e \<and> storage_error e \<and> db_tables db' = db_tables db))"
begin

definition backend_error :: "std_error \<Rightarrow> bool" where
  "backend_error e \<longleftrightarrow> (\<exists>e'. e = redb_error e' \<and> storage_error e')"

lemma redb_call: "refines storage_error P \<alpha> x (Ret b) \<Longrightarrow> refines backend_error P \<alpha> (map_err redb_error x) (Ret b)"
  by (cases x) (auto simp: refines_def backend_error_def)

end

section \<open>The stores of a namespace\<close>

definition view :: "prepared_tables \<Rightarrow> name \<Rightarrow> tables \<Rightarrow> stores" where
  "view reg ns T = (\<lambda>n. case reg (ns, n) of None \<Rightarrow> None | Some t \<Rightarrow> T t)"

definition registry_names :: "prepared_tables \<Rightarrow> bool" where
  "registry_names reg \<longleftrightarrow> (\<forall>ns n t. reg (ns, n) = Some t \<longrightarrow> t = table_name ns n)"

definition registered :: "prepared_tables \<Rightarrow> tables \<Rightarrow> bool" where
  "registered reg T \<longleftrightarrow> registry_names reg \<and> (\<forall>k t. reg k = Some t \<longrightarrow> T t \<noteq> None)"

text \<open>The tables that do not belong to a namespace.\<close>

definition other_tables :: "name \<Rightarrow> tables \<Rightarrow> name \<Rightarrow> name \<Rightarrow> kv_store option" where
  "other_tables ns T = (\<lambda>m n. if m = ns then None else T (table_name m n))"

lemma view_ok: "tables_ok T \<Longrightarrow> stores_ok (view reg ns T)"
  by (auto simp: tables_ok_def stores_ok_def view_def split: option.splits)

lemma view_edit:
  "registry_names reg \<Longrightarrow> reg (ns, n) = Some t \<Longrightarrow> view reg ns (T(t \<mapsto> kv)) = (view reg ns T)(n \<mapsto> kv)"
  by (auto simp: view_def registry_names_def fun_eq_iff split: option.splits)
    (metis table_name_inject)

lemma view_others:
  "registry_names reg \<Longrightarrow> other_tables ns T = other_tables ns U \<Longrightarrow> m \<noteq> ns \<Longrightarrow> view reg m T = view reg m U"
  by (auto simp: view_def registry_names_def other_tables_def fun_eq_iff split: option.splits)
    (metis)

lemma other_tables_edit: "other_tables ns (T(table_name ns n \<mapsto> kv)) = other_tables ns T"
  by (auto simp: other_tables_def fun_eq_iff)

lemma registeredD: "registered reg T \<Longrightarrow> reg k = Some t \<Longrightarrow> \<exists>kv. T t = Some kv"
  unfolding registered_def by blast

lemma registered_edit: "registered reg T \<Longrightarrow> registered reg (T(t \<mapsto> kv))"
  by (simp add: registered_def)

section \<open>Scans\<close>

text \<open>Draining a directed range yields its items in the order of the direction.\<close>

lemma drain_forward: "drain (RangeForward xs) = List.map redb_scan_entry xs"
proof (induction xs)
  case Nil
  show ?case by (simp add: drain.simps)
next
  case (Cons x xs)
  then show ?case by (simp add: drain.simps [of "RangeForward (x # xs)"])
qed

lemma drain_backward: "drain (RangeBackward xs) = List.map redb_scan_entry (rev xs)"
proof (induction xs rule: rev_induct)
  case Nil
  show ?case by (simp add: drain.simps)
next
  case (snoc x xs)
  then show ?case by (simp add: drain.simps [of "RangeBackward (xs @ [x])"])
qed

lemma drain_eq: "drain (directed_range_new xs d) = List.map redb_scan_entry (ordered d xs)"
  by (cases d) (simp_all add: ordered_def drain_forward drain_backward)

lemma redb_scan_entry_eq: "redb_scan_entry x = map_err redb_error x"
  by (cases x) (auto simp: redb_scan_entry_def)

lemma scan_bounds_eq [simp]: "scan_bounds r = r"
proof -
  have "bytes_bound b = b" for b by (cases b) simp_all
  then show ?thesis by (simp add: scan_bounds_def)
qed

lemma ref_scan_ordered:
  "\<not> range_panics r \<Longrightarrow> ref_scan r d kv = map_ret (ordered d) (ref_scan r LeftToRight kv)"
  by (cases d) (simp_all add: ref_scan_def bt_range_def ordered_def rev_map)

context redb_backend
begin

lemma scan_entries:
  "list_all2 (\<lambda>a b. a = b \<or> (\<exists>e. a = Fail e \<and> storage_error e)) xs ys \<Longrightarrow>
   \<forall>y \<in> set ys. \<exists>e. y = Ret e \<Longrightarrow>
   list_all2 (\<lambda>a b. a = b \<or> (\<exists>e. a = Fail e \<and> backend_error e)) (List.map redb_scan_entry xs) ys"
  by (induction rule: list_all2_induct) (auto simp: redb_scan_entry_eq backend_error_def)

lemma redb_scan_refines:
  assumes "\<not> range_panics r" and "scan_refines storage_error x (ref_scan r LeftToRight kv)"
  shows "scan_refines backend_error (redb_scan x d) (ref_scan r d kv)"
proof (cases x)
  case (Ret xs)
  then obtain ys where ys: "ref_scan r LeftToRight kv = Ret ys"
    and all: "list_all2 (\<lambda>a b. a = b \<or> (\<exists>e. a = Fail e \<and> storage_error e)) xs ys"
    using assms(2) by (auto simp: scan_refines_def)
  have "\<forall>y \<in> set ys. \<exists>e. y = Ret e"
    using ys by (auto simp: ref_scan_def map_ret_eq_Ret)
  with all have "list_all2 (\<lambda>a b. a = b \<or> (\<exists>e. a = Fail e \<and> backend_error e)) (List.map redb_scan_entry xs) ys"
    by (rule scan_entries)
  then show ?thesis
    using Ret ys ref_scan_ordered [OF assms(1), of d kv]
    by (cases d) (auto simp: scan_refines_def redb_scan_def drain_forward drain_backward
        ordered_def rev_map [symmetric])
qed (use assms(2) in \<open>auto simp: scan_refines_def redb_scan_def backend_error_def\<close>)

end

section \<open>Invariant and abstraction\<close>

context redb_backend
begin

definition redb_inv :: "'db redb_multi_store \<Rightarrow> bool" where
  "redb_inv s \<longleftrightarrow> db_ready (rms_db s) \<and> registered (rms_tables s) (db_tables (rms_db s))"

definition redb_abs :: "'db redb_multi_store \<Rightarrow> ref_db" where
  "redb_abs s = (\<lambda>ns. Some (view (rms_tables s) ns (db_tables (rms_db s))))"

definition redb_rh_abs :: "'rtx redb_read_handle \<Rightarrow> stores" where
  "redb_rh_abs rh = view (rrh_tables rh) (rrh_namespace rh) (rtx_tables (rrh_read rh))"

definition redb_wh_ok :: "'wtx redb_write_handle \<Rightarrow> bool" where
  "redb_wh_ok tx \<longleftrightarrow> wtx_ok (rwh_write tx) \<and> registered (rwh_tables tx) (wtx_tables (rwh_write tx))"

definition redb_wh_abs :: "'wtx redb_write_handle \<Rightarrow> ref_write_handle" where
  "redb_wh_abs tx =
     (rwh_namespace tx, view (rwh_tables tx) (rwh_namespace tx) (wtx_tables (rwh_write tx)))"

definition redb_ws_ok :: "'wtab redb_write_store \<Rightarrow> bool" where
  "redb_ws_ok ws \<longleftrightarrow>
     wtab_ok (rws_table ws) \<and> registered (rws_tables ws) (snd (wtab_open (rws_table ws))) \<and>
     rws_tables ws (rws_namespace ws, rws_name ws) = Some (fst (wtab_open (rws_table ws)))"

definition redb_ws_abs :: "'wtab redb_write_store \<Rightarrow> ref_write_store" where
  "redb_ws_abs ws =
     (rws_namespace ws, view (rws_tables ws) (rws_namespace ws) (snd (wtab_open (rws_table ws))), rws_name ws)"

text \<open>A handle keeps its namespace, its registry and the tables of the other namespaces.\<close>

definition redb_origin ::
  "'wtx redb_write_handle \<Rightarrow> name \<times> prepared_tables \<times> (name \<Rightarrow> name \<Rightarrow> kv_store option)" where
  "redb_origin tx =
     (rwh_namespace tx, rwh_tables tx, other_tables (rwh_namespace tx) (wtx_tables (rwh_write tx)))"

definition redb_writing ::
  "name \<times> prepared_tables \<times> (name \<Rightarrow> name \<Rightarrow> kv_store option) \<Rightarrow> 'db redb_multi_store \<Rightarrow> bool" where
  "redb_writing q s \<longleftrightarrow> (case q of (ns, reg, others) \<Rightarrow>
     db_writing (rms_db s) \<and> rms_tables s = reg \<and> registered reg (db_tables (rms_db s)) \<and>
     other_tables ns (db_tables (rms_db s)) = others)"

lemma ws_opened: "redb_ws_ok ws \<Longrightarrow> ref_opened (redb_ws_abs ws) = opened (wtab_open (rws_table ws))"
  by (simp add: redb_ws_ok_def redb_ws_abs_def view_def opened_def table_or_empty_def)

text \<open>An edit of the opened table is the same edit of the store, and touches nothing else.\<close>

lemma ws_edit:
  assumes "redb_ws_ok ws" and "wtab_ok wt" and "wtab_open wt = edit_table f (wtab_open (rws_table ws))"
  shows "redb_ws_ok (ws\<lparr>rws_table := wt\<rparr>) \<and>
         redb_ws_abs (ws\<lparr>rws_table := wt\<rparr>) = ref_update f (redb_ws_abs ws) \<and>
         redb_origin (redb_close C (ws\<lparr>rws_table := wt\<rparr>)) = redb_origin (redb_close C ws)"
proof -
  let ?T = "snd (wtab_open (rws_table ws))" and ?t = "fst (wtab_open (rws_table ws))"
  have reg: "registry_names (rws_tables ws)" "registered (rws_tables ws) ?T"
    "rws_tables ws (rws_namespace ws, rws_name ws) = Some ?t"
    using assms(1) by (simp_all add: redb_ws_ok_def registered_def)
  then have t: "?t = table_name (rws_namespace ws) (rws_name ws)"
    by (auto simp: registry_names_def)
  have "redb_ws_abs (ws\<lparr>rws_table := wt\<rparr>) = ref_update f (redb_ws_abs ws)"
    using ws_opened [OF assms(1)] reg
    by (simp add: redb_ws_abs_def assms(3) edit_table_def view_edit)
  moreover have "redb_origin (redb_close C (ws\<lparr>rws_table := wt\<rparr>)) = redb_origin (redb_close C ws)"
    using assms drop_table_doc
    by (simp add: redb_origin_def redb_close_def edit_table_def redb_ws_ok_def t other_tables_edit)
  ultimately show ?thesis
    using assms reg by (simp add: redb_ws_ok_def edit_table_def registered_edit)
qed

end

section \<open>Every operation keeps the contract\<close>

text \<open>\<open>prepare\<close>: the loop creates the tables that are missing, and the registry names them.\<close>

definition with_tables :: "string list \<Rightarrow> tables \<Rightarrow> tables" where
  "with_tables ts T = fold with_table ts T"

lemma with_tables_eq:
  "with_tables ts T t = (if t \<in> set ts then Some (table_or_empty T t) else T t)"
  by (induction ts arbitrary: T)
    (auto simp: with_tables_def with_table_def table_or_empty_def split: option.splits)

definition next_registry :: "name \<Rightarrow> name list \<Rightarrow> prepared_tables \<Rightarrow> prepared_tables" where
  "next_registry ns names reg = (\<lambda>(m, n).
     if m = ns then (if n \<in> set names then Some (table_name ns n) else None) else reg (m, n))"

lemma next_registry_fold:
  "fold (\<lambda>(key, t) m. m(key \<mapsto> t)) (List.map (\<lambda>store. ((ns, store), table_name ns store)) names)
     (\<lambda>k. if fst k \<noteq> ns then reg k else None) = next_registry ns names reg"
proof -
  have "fold (\<lambda>(key, t) m. m(key \<mapsto> t)) (List.map (\<lambda>store. ((ns, store), table_name ns store)) names) m =
        (\<lambda>(k, n). if k = ns \<and> n \<in> set names then Some (table_name ns n) else m (k, n))" for m
    by (induction names arbitrary: m) (auto simp: fun_eq_iff)
  then show ?thesis
    by (auto simp: next_registry_def fun_eq_iff)
qed

lemma next_registry_names: "registry_names reg \<Longrightarrow> registry_names (next_registry ns names reg)"
  by (auto simp: registry_names_def next_registry_def split: if_splits)

lemma next_registered:
  "registered reg T \<Longrightarrow>
   registered (next_registry ns names reg) (with_tables (List.map (table_name ns) names) T)"
  by (auto simp: registered_def next_registry_names with_tables_eq)
    (auto simp: next_registry_def split: if_splits)

text \<open>What the namespaces look like after \<open>prepare\<close>.\<close>

definition found_stores :: "name \<Rightarrow> name list \<Rightarrow> tables \<Rightarrow> stores" where
  "found_stores ns names T =
     (\<lambda>n. if n \<in> set names then Some (table_or_empty T (table_name ns n)) else None)"

lemma view_next:
  "registry_names reg \<Longrightarrow>
   view (next_registry ns names reg) m (with_tables (List.map (table_name ns) names) T) =
   (if m = ns then found_stores ns names T else view reg m T)"
  by (auto simp: view_def next_registry_def with_tables_eq found_stores_def registry_names_def
      fun_eq_iff split: option.splits)
    (metis table_name_inject)

lemma found_stores_ok: "tables_ok T \<Longrightarrow> stores_ok (found_stores ns names T)"
  by (auto simp: tables_ok_def stores_ok_def found_stores_def table_or_empty_def
      split: option.splits if_splits)

context redb_backend
begin

lemma open_all_refines:
  "wtx_ok tx \<Longrightarrow>
   refines backend_error wtx_ok wtx_tables (open_all C ts tx) (Ret (with_tables ts (wtx_tables tx)))"
proof (induction ts arbitrary: tx)
  case (Cons t ts)
  have "refines backend_error wtx_ok wtx_tables (open_all C (t # ts) tx)
          (and_then (Ret (t, with_table t (wtx_tables tx))) (\<lambda>wt. Ret (with_tables ts (snd wt))))"
    unfolding open_all.simps
  proof (rule refines_and_then [OF redb_call [OF create_table_doc [OF Cons.prems]]])
    fix wt assume "wtab_ok wt"
    then show "refines backend_error wtx_ok wtx_tables (open_all C ts (wtab_drop C wt))
                 (Ret (with_tables ts (snd (wtab_open wt))))"
      using Cons.IH [of "wtab_drop C wt"] drop_table_doc by simp
  qed
  then show ?case by (simp add: with_tables_def)
qed (simp add: with_tables_def refines_def)

text \<open>\<open>prepare\<close> fails with a storage error, or finds the tables of the stores it names.\<close>

lemma redb_prepare_finds:
  assumes inv: "redb_inv s"
  shows "(\<exists>e. redb_prepare C ns names s = Fail e \<and> backend_error e) \<or>
         (\<exists>s'. redb_prepare C ns names s = Ret s' \<and> redb_inv s' \<and>
               redb_abs s' = (redb_abs s)(ns \<mapsto> found_stores ns names (db_tables (rms_db s))) \<and>
               db_tables (rms_db s') = with_tables (List.map (table_name ns) names) (db_tables (rms_db s)))"
proof -
  let ?ts = "List.map (table_name ns) names"
  have ready: "db_ready (rms_db s)" and reg: "registered (rms_tables s) (db_tables (rms_db s))"
    using inv by (simp_all add: redb_inv_def)
  note started = redb_call [OF begin_write_doc [OF ready]]
  show ?thesis
  proof (cases "begin_write C (rms_db s)")
    case (Ret x)
    obtain tx db where x: "x = (tx, db)" by (cases x)
    have tx: "wtx_ok tx" "db_writing db" "wtx_tables tx = db_tables (rms_db s)"
      using started by (auto simp: Ret x refines_def)
    show ?thesis
    proof (cases "open_all C ?ts tx")
      case (Ret tx')
      have tx': "wtx_ok tx'" "wtx_tables tx' = with_tables ?ts (db_tables (rms_db s))"
        using open_all_refines [OF tx(1), of ?ts] tx(3) by (auto simp: Ret refines_def)
      obtain res db' where c: "wtx_commit C tx' db = (res, db')" by fastforce
      have run: "redb_prepare C ns names s =
          and_then (map_err redb_error res) (\<lambda>_.
            Ret (s\<lparr>rms_db := db', rms_tables := next_registry ns names (rms_tables s)\<rparr>))"
        using \<open>begin_write C (rms_db s) = Ret x\<close> x Ret c
        by (simp add: redb_prepare_def comp_def next_registry_fold)
      have "(\<lambda>m. Some (view (next_registry ns names (rms_tables s)) m (wtx_tables tx'))) =
            (redb_abs s)(ns \<mapsto> found_stores ns names (db_tables (rms_db s)))"
        using reg by (intro ext) (simp add: redb_abs_def tx' view_next registered_def)
      then show ?thesis
        using commit_doc [OF tx(2) tx'(1) c] next_registered [OF reg, of ns names] tx'(2)
        by (auto simp: run redb_inv_def redb_abs_def backend_error_def)
    qed (use open_all_refines [OF tx(1), of ?ts] \<open>begin_write C (rms_db s) = Ret x\<close> x in
          \<open>auto simp: redb_prepare_def refines_def comp_def\<close>)
  qed (use started in \<open>auto simp: redb_prepare_def refines_def\<close>)
qed

end

lemma prepared_found:
  assumes "registered reg T" and "tables_ok T" and "D ns = Some (view reg ns T)"
  shows "prepared ns names D (D(ns \<mapsto> found_stores ns names T))"
  unfolding prepared_def
proof (intro exI conjI allI impI)
  show "stores_ok (found_stores ns names T)"
    using assms(2) by (rule found_stores_ok)
  show "dom (found_stores ns names T) = set names"
    by (auto simp: found_stores_def split: if_splits)
  fix S n assume "D ns = Some S" "n \<in> set names" "S n \<noteq> None"
  then show "found_stores ns names T n = S n"
    using assms(1,3)
    by (auto simp: found_stores_def view_def registered_def registry_names_def table_or_empty_def
        split: option.splits)
qed simp

context redb_backend
begin

lemma redb_read_refines:
  assumes "redb_inv s"
  shows "refines backend_error (\<lambda>_. True) redb_rh_abs (redb_read C ns s) (ref_read ns (redb_abs s))"
proof -
  have "refines backend_error (\<lambda>_. True) redb_rh_abs (redb_read C ns s)
          (map_ret (view (rms_tables s) ns) (Ret (db_tables (rms_db s))))"
    unfolding redb_read_def
    by (rule refines_map_ret [OF redb_call [OF begin_read_doc]])
      (use assms in \<open>auto simp: redb_inv_def redb_rh_abs_def\<close>)
  then show ?thesis by (simp add: ref_read_def redb_abs_def)
qed

lemma redb_write_refines:
  assumes "redb_inv s"
  shows "refines backend_error (\<lambda>(tx, s'). redb_wh_ok tx \<and> redb_writing (redb_origin tx) s')
      (\<lambda>(tx, s'). (redb_wh_abs tx, redb_abs s')) (redb_write C ns s) (ref_write ns (redb_abs s))"
proof -
  have inv: "db_ready (rms_db s)" "registered (rms_tables s) (db_tables (rms_db s))"
    using assms by (simp_all add: redb_inv_def)
  show ?thesis
    using redb_call [OF begin_write_doc [OF inv(1)]] inv(2)
    by (cases "begin_write C (rms_db s)")
      (auto simp: refines_def redb_write_def ref_write_def redb_abs_def redb_wh_ok_def redb_wh_abs_def
        redb_writing_def redb_origin_def)
qed

lemma redb_open_refines:
  "refines backend_error (\<lambda>_. True) rtab_content (redb_open C n rh) (ref_open n (redb_rh_abs rh))"
proof (cases "rrh_tables rh (rrh_namespace rh, n)")
  case (Some t)
  show ?thesis
  proof (cases "rtx_tables (rrh_read rh) t")
    case None
    then show ?thesis
      using no_table_doc [of "rrh_read rh" t] Some
      by (auto simp: refines_def redb_open_def prepared_table_name_def backend_error_def)
  next
    case kv: (Some kv)
    show ?thesis
      using redb_call [OF open_table_doc [OF kv]] Some kv
      by (simp add: redb_open_def prepared_table_name_def ref_open_def redb_rh_abs_def view_def)
  qed
qed (simp add: refines_def redb_open_def prepared_table_name_def ref_open_def redb_rh_abs_def view_def)

lemma redb_write_open_refines:
  assumes ok: "redb_wh_ok tx"
  shows "refines backend_error (\<lambda>ws. redb_ws_ok ws \<and> redb_origin (redb_close C ws) = redb_origin tx)
           redb_ws_abs (redb_write_open C n tx) (ref_wopen n (redb_wh_abs tx))"
proof (cases "rwh_tables tx (rwh_namespace tx, n)")
  case (Some t)
  then obtain kv where kv: "wtx_tables (rwh_write tx) t = Some kv"
    using ok by (auto simp: redb_wh_ok_def dest: registeredD)
  then have same: "with_table t (wtx_tables (rwh_write tx)) = wtx_tables (rwh_write tx)"
    by (auto simp: with_table_def table_or_empty_def)
  have tx: "wtx_ok (rwh_write tx)" "registered (rwh_tables tx) (wtx_tables (rwh_write tx))"
    using ok by (simp_all add: redb_wh_ok_def)
  show ?thesis
    using redb_call [OF create_table_doc [OF tx(1), of t]] tx(2) Some kv drop_table_doc
    by (cases "wtx_open_table C t (rwh_write tx)")
      (auto simp: refines_def redb_write_open_def prepared_table_name_def ref_wopen_def redb_wh_abs_def
        view_def same redb_ws_ok_def redb_ws_abs_def redb_origin_def redb_close_def)
qed (simp add: refines_def redb_write_open_def prepared_table_name_def ref_wopen_def redb_wh_abs_def view_def)

lemma redb_edit_refines:
  assumes ok: "redb_ws_ok ws"
    and edit: "refines storage_error (\<lambda>(old, wt'). wtab_ok wt') (\<lambda>(old, wt'). (old, wtab_open wt'))
                 x (Ret (old, edit_table f (wtab_open (rws_table ws))))"
  shows "refines backend_error
           (\<lambda>ws'. redb_ws_ok ws' \<and> redb_origin (redb_close C ws') = redb_origin (redb_close C ws))
           redb_ws_abs (map_err redb_error (map_ret (\<lambda>(_, wt). ws\<lparr>rws_table := wt\<rparr>) x))
           (Ret (ref_update f (redb_ws_abs ws)))"
  using edit ws_edit [OF ok]
  by (cases x) (auto simp: refines_def backend_error_def)

lemma redb_ws_get_refines:
  "redb_ws_ok ws \<Longrightarrow>
   refines backend_error (\<lambda>_. True) (\<lambda>a. a) (map_err redb_error (wtab_get C k (rws_table ws)))
     (ref_get k (ref_opened (redb_ws_abs ws)))"
  using redb_call [OF wtab_get_doc, of "rws_table ws" k]
  by (simp add: ref_get_def ws_opened) (simp add: redb_ws_ok_def)

lemma redb_close_ok:
  "redb_ws_ok ws \<Longrightarrow>
   redb_wh_ok (redb_close C ws) \<and> redb_wh_abs (redb_close C ws) = ref_close (redb_ws_abs ws)"
  using drop_table_doc [of "rws_table ws"]
  by (simp add: redb_ws_ok_def redb_wh_ok_def redb_wh_abs_def redb_ws_abs_def redb_close_def)

lemma redb_drop_ok:
  assumes "redb_writing (redb_origin tx) s" and "redb_wh_ok tx"
  shows "redb_inv (s\<lparr>rms_db := wtx_abort C (rwh_write tx) (rms_db s)\<rparr>) \<and>
         redb_abs (s\<lparr>rms_db := wtx_abort C (rwh_write tx) (rms_db s)\<rparr>) = redb_abs s"
  using assms abort_doc [of "rms_db s" "rwh_write tx"]
  by (simp add: redb_writing_def redb_origin_def redb_wh_ok_def redb_inv_def redb_abs_def)

lemma redb_commit_ok:
  assumes "redb_writing (redb_origin tx) s" and "redb_wh_ok tx"
    and "ms_commit (redb_ms C) tx s = (res, s')"
  shows "redb_inv s' \<and>
    (res = Ret () \<and> redb_abs s' = (redb_abs s)(fst (redb_wh_abs tx) \<mapsto> snd (redb_wh_abs tx)) \<or>
     (\<exists>e. res = Fail e \<and> backend_error e \<and> redb_abs s' = redb_abs s))"
proof -
  let ?ns = "rwh_namespace tx" and ?T = "wtx_tables (rwh_write tx)"
  obtain r db' where c: "wtx_commit C (rwh_write tx) (rms_db s) = (r, db')" by fastforce
  have s': "s' = s\<lparr>rms_db := db'\<rparr>" "res = map_err redb_error r"
    using assms(3) c by auto
  have w: "db_writing (rms_db s)" "rms_tables s = rwh_tables tx"
    "other_tables ?ns (db_tables (rms_db s)) = other_tables ?ns ?T"
    and reg: "registered (rwh_tables tx) (db_tables (rms_db s))"
    using assms(1) by (simp_all add: redb_writing_def redb_origin_def)
  have "(\<lambda>m. Some (view (rwh_tables tx) m ?T)) = (redb_abs s)(?ns \<mapsto> view (rwh_tables tx) ?ns ?T)"
    using reg w(2) view_others [OF _ w(3)]
    by (intro ext) (simp add: redb_abs_def registered_def)
  then show ?thesis
    using commit_doc [OF w(1) _ c] assms(2) w(2) reg
    by (auto simp: s' redb_wh_ok_def redb_wh_abs_def redb_inv_def redb_abs_def backend_error_def)
qed

end

sublocale redb_backend \<subseteq> redb: lawful_multistore backend_error "redb_ms C" redb_inv redb_abs redb_writing
  redb_origin redb_rh_abs rtab_content redb_wh_ok redb_wh_abs redb_ws_ok redb_ws_abs
proof unfold_locales
  fix s assume "redb_inv s"
  then show "db_ok (redb_abs s)"
    using ready_tables by (auto simp: redb_inv_def redb_abs_def db_ok_def view_ok)
next
  fix s ns names assume inv: "redb_inv s"
  then have "prepared ns names (redb_abs s) ((redb_abs s)(ns \<mapsto> found_stores ns names (db_tables (rms_db s))))"
    using ready_tables by (auto simp: redb_inv_def redb_abs_def intro: prepared_found)
  then show "(\<exists>e. ms_prepare (redb_ms C) ns names s = Fail e \<and> backend_error e) \<or>
      (\<exists>s'. ms_prepare (redb_ms C) ns names s = Ret s' \<and> redb_inv s' \<and>
            prepared ns names (redb_abs s) (redb_abs s'))"
    using redb_prepare_finds [OF inv, of ns names] by auto
next
  fix k rt
  show "refines backend_error (\<lambda>_. True) (\<lambda>a. a) (rs_get (redb_ms C) k rt) (ref_get k (rtab_content rt))"
    using redb_call [OF rtab_get_doc, of k rt] by (simp add: ref_get_def)
next
  fix ws k v assume ok: "redb_ws_ok ws"
  then have wt: "wtab_ok (rws_table ws)" by (simp add: redb_ws_ok_def)
  show "refines backend_error
      (\<lambda>ws'. redb_ws_ok ws' \<and> redb_origin (ws_close (redb_ms C) ws') = redb_origin (ws_close (redb_ms C) ws))
      redb_ws_abs (ws_set (redb_ms C) k v ws) (Ret (ref_update (bt_insert k v) (redb_ws_abs ws)))"
    using redb_edit_refines [OF ok insert_doc [OF wt]] by (simp add: redb_set_def)
  show "refines backend_error
      (\<lambda>ws'. redb_ws_ok ws' \<and> redb_origin (ws_close (redb_ms C) ws') = redb_origin (ws_close (redb_ms C) ws))
      redb_ws_abs (ws_remove (redb_ms C) k ws) (Ret (ref_update (bt_remove k) (redb_ws_abs ws)))"
    using redb_edit_refines [OF ok remove_doc [OF wt]] by (simp add: redb_remove_def)
next
  fix ws d and r :: scan_range assume ok: "redb_ws_ok ws" and "\<not> range_panics r"
  moreover have "wtab_ok (rws_table ws)" using ok by (simp add: redb_ws_ok_def)
  ultimately show "scan_refines backend_error (ws_scan (redb_ms C) r d ws)
      (ref_scan r d (ref_opened (redb_ws_abs ws)))"
    by (simp add: ws_opened redb_scan_refines wtab_range_doc)
qed (simp_all add: redb_read_refines redb_write_refines redb_open_refines redb_write_open_refines
      redb_scan_refines rtab_range_doc redb_ws_get_refines redb_close_ok redb_drop_ok redb_commit_ok
      del: redb_ms_simps(14))

context redb_backend
begin

lemmas contract = redb.lawful_multistore_axioms

text \<open>After the file was reopened: the registry is empty, and \<open>prepare\<close> finds the tables again.\<close>

lemma from_database_inv: "db_ready db \<Longrightarrow> redb_inv (redb_from_database db)"
  by (simp add: redb_inv_def redb_from_database_def registered_def registry_names_def)

lemma redb_new_finds:
  assumes "redb_inv s"
  shows "(collection_new (redb_ms C) T nm s = Panicked \<and> (\<exists>e. storage_error e)) \<or>
         (\<exists>s'. collection_new (redb_ms C) T nm s = Ret s' \<and> redb_inv s' \<and>
               redb_abs s' = (redb_abs s)(nm \<mapsto>
                 found_stores nm (registry_store_names T [MAIN_STORE]) (db_tables (rms_db s))))"
  using redb_prepare_finds [OF assms, of nm "registry_store_names T [MAIN_STORE]"]
  by (auto simp: collection_new_def backend_error_def)

text \<open>
  A store that one \<open>prepare\<close> does not name keeps its table, and the next one that names it finds
  the old content.
\<close>

lemma redb_prepare_again:
  assumes inv: "redb_inv s" and old: "view (rms_tables s) ns (db_tables (rms_db s)) n = Some kv"
    and p1: "redb_prepare C ns names s = Ret s1" and p2: "redb_prepare C ns names' s1 = Ret s2"
    and n: "n \<in> set names'"
  shows "\<exists>S. redb_abs s2 ns = Some S \<and> S n = Some kv"
proof -
  have "db_tables (rms_db s) (table_name ns n) = Some kv"
    using inv old by (auto simp: view_def redb_inv_def registered_def registry_names_def split: option.splits)
  then have "db_tables (rms_db s1) (table_name ns n) = Some kv" and inv1: "redb_inv s1"
    using redb_prepare_finds [OF inv, of ns names] p1 by (auto simp: with_tables_eq table_or_empty_def)
  then show ?thesis
    using redb_prepare_finds [OF inv1, of ns names'] p2 n
    by (auto simp: found_stores_def table_or_empty_def)
qed

end

lemma found_view:
  "registry_names reg \<Longrightarrow> n \<in> set names \<Longrightarrow> view reg ns T n = Some kv \<Longrightarrow>
   found_stores ns names T n = Some kv"
  by (auto simp: found_stores_def view_def registry_names_def table_or_empty_def split: option.splits)

text \<open>A table of records is still there when its stores are found again.\<close>

lemma coll_repr_found:
  assumes "registry_names reg" and "coll_repr R rec_ok T tbl (view reg nm U)"
  shows "coll_repr R rec_ok T tbl (found_stores nm (registry_store_names T [MAIN_STORE]) U)"
  using assms(2) found_view [OF assms(1)]
  by (fastforce simp: coll_repr_def registry_store_names_eq)

section \<open>A crate that keeps its tables in memory\<close>

text \<open>
  It shows that the assumptions are consistent, and lets the backend be run: a transaction is a
  copy of the tables, and no call fails.
\<close>

definition ram_range :: "scan_range \<Rightarrow> kv_store \<Rightarrow> (std_error, scan_results) outcome" where
  "ram_range r kv = Ret (List.map Ret (filter (\<lambda>e. contains (<) r (fst e)) kv))"

definition ram_open :: "string \<Rightarrow> tables \<Rightarrow> (std_error, kv_store) outcome" where
  "ram_open t T =
     (case T t of None \<Rightarrow> Fail (StdError (''Table does not exist: '' @ t) None) | Some kv \<Rightarrow> Ret kv)"

definition ram_edit ::
  "bytes \<Rightarrow> (kv_store \<Rightarrow> kv_store) \<Rightarrow> open_table \<Rightarrow> (std_error, bytes option \<times> open_table) outcome" where
  "ram_edit k f wt = Ret (bt_get k (opened wt), edit_table f wt)"

definition ram_crate :: "(tables, tables, kv_store, tables, open_table) redb_crate" where
  "ram_crate = \<lparr>
     begin_read = Ret, begin_write = (\<lambda>T. Ret (T, T)),
     rtx_open_table = ram_open, rtab_get = (\<lambda>k kv. Ret (bt_get k kv)), rtab_range = ram_range,
     wtx_open_table = (\<lambda>t T. Ret (t, with_table t T)),
     wtab_get = (\<lambda>k wt. Ret (bt_get k (opened wt))),
     wtab_range = (\<lambda>r wt. ram_range r (opened wt)),
     wtab_insert = (\<lambda>k v. ram_edit k (bt_insert k v)),
     wtab_remove = (\<lambda>k. ram_edit k (bt_remove k)),
     wtab_drop = snd, wtx_abort = (\<lambda>T db. db), wtx_commit = (\<lambda>T db. (Ret (), T))\<rparr>"

definition ram_wtab_ok :: "open_table \<Rightarrow> bool" where
  "ram_wtab_ok wt \<longleftrightarrow> tables_ok (snd wt) \<and> snd wt (fst wt) \<noteq> None"

definition ram_error :: "std_error \<Rightarrow> bool" where
  "ram_error e \<longleftrightarrow> (\<exists>t. e = StdError (''Table does not exist: '' @ t) None)"

lemma tables_ok_edit: "tables_ok T \<Longrightarrow> bt_ok kv \<Longrightarrow> tables_ok (T(t \<mapsto> kv))"
  by (simp add: tables_ok_def)

lemma table_or_empty_ok: "tables_ok T \<Longrightarrow> bt_ok (table_or_empty T t)"
  by (auto simp: tables_ok_def table_or_empty_def split: option.splits)

lemma ram_range_refines:
  "\<not> range_panics r \<Longrightarrow> scan_refines B (ram_range r kv) (ref_scan r LeftToRight kv)"
  by (simp add: ram_range_def ref_scan_def bt_range_def ordered_def scan_refines_Ret)

interpretation ram: redb_backend ram_error ram_crate tables_ok tables_ok "\<lambda>T. T" "\<lambda>T. T" "\<lambda>kv. kv"
  tables_ok "\<lambda>T. T" ram_wtab_ok "\<lambda>wt. wt"
  by unfold_locales
    (auto simp: ram_crate_def refines_def ram_range_refines ram_open_def ram_error_def ram_wtab_ok_def
      with_table_def ram_edit_def edit_table_def opened_def tables_ok_edit table_or_empty_ok)

section \<open>Properties\<close>

text \<open>The redb backend gives every store of every namespace a table of its own: \<open>table_name\<close> is
  injective, whatever bytes the two names hold.\<close>

lemma table_names_distinct: "table_name ns st = table_name ns' st' \<longleftrightarrow> ns = ns' \<and> st = st'"
  by simp

text \<open>C29: Under the documented behaviour of the redb crate, the redb backend keeps the contract of the
  storage traits, with the storage errors of the crate, wrapped, as its only errors.\<close>

lemma redb_keeps_contract:
  assumes "redb_backend storage_error C db_ready db_writing db_tables rtx_tables rtab_content
             wtx_ok wtx_tables wtab_ok wtab_open"
  shows "lawful_multistore (redb_backend.backend_error storage_error) (redb_ms C)
           (redb_backend.redb_inv db_ready db_tables) (redb_backend.redb_abs db_tables)
           (redb_backend.redb_writing db_writing db_tables) (redb_backend.redb_origin wtx_tables)
           (redb_backend.redb_rh_abs rtx_tables) rtab_content
           (redb_backend.redb_wh_ok wtx_ok wtx_tables) (redb_backend.redb_wh_abs wtx_tables)
           (redb_backend.redb_ws_ok wtab_ok wtab_open) (redb_backend.redb_ws_abs wtab_open)"
  using redb_backend.contract [OF assms] by simp

lemma redb_keeps_contract_witness:
  "lawful_multistore ram.backend_error (redb_ms ram_crate) ram.redb_inv ram.redb_abs ram.redb_writing
     ram.redb_origin ram.redb_rh_abs (\<lambda>kv. kv) ram.redb_wh_ok ram.redb_wh_abs ram.redb_ws_ok ram.redb_ws_abs"
  using redb_keeps_contract [OF ram.redb_backend_axioms] by simp

end
