(* ===== verification/Durability.thy ===== *)
theory Durability
  imports Redb_Spec Example
begin

text \<open>
  The two backends side by side: what a store holds after its namespace was prepared again. On
  disk the records of a collection survive a restart; a store that a \<open>prepare\<close> leaves out is
  empty when it comes back in memory, and holds its old entries on disk.
\<close>

section \<open>The tasks on disk\<close>

definition task_stores :: "name list" where
  "task_stores = registry_store_names task_registry [MAIN_STORE]"

definition tasks_in_memory :: stores where
  "tasks_in_memory = the (memory_abs two_tasks ''tasks'')"

definition redb_tasks :: "tables redb_multi_store" where
  "redb_tasks =
     \<lparr>rms_db = (\<lambda>t. Option.bind (map_of (List.map (\<lambda>n. (table_name ''tasks'' n, n)) task_stores) t)
                                tasks_in_memory),
      rms_tables = next_registry ''tasks'' task_stores (\<lambda>_. None)\<rparr>"

lemma tasks_in_memory_hold:
  "memory_abs two_tasks ''tasks'' = Some tasks_in_memory \<and> stores_ok tasks_in_memory \<and>
   coll_repr task_item (\<lambda>_. True) task_registry both_tasks tasks_in_memory"
  using two_tasks_hold
  by (auto simp: memory_holds_def tasks_in_memory_def intro: db_okD [OF memory_abs_ok])

lemma task_table: "map_of (List.map (\<lambda>n. (table_name ns n, n)) ns') (table_name ns m) =
    (if m \<in> set ns' then Some m else None)"
  by (induction ns') auto

lemma task_tables:
  "rms_db redb_tasks (table_name ''tasks'' n) = (if n \<in> set task_stores then tasks_in_memory n else None)"
  by (simp add: redb_tasks_def task_table)

lemma task_store_there: "n \<in> set task_stores \<Longrightarrow> \<exists>kv. tasks_in_memory n = Some kv"
  using tasks_in_memory_hold by (auto simp: coll_repr_def task_stores_def registry_store_names_eq)

lemma redb_tasks_inv: "ram.redb_inv redb_tasks"
proof -
  have "tables_ok (rms_db redb_tasks)"
    using tasks_in_memory_hold
    by (auto simp: redb_tasks_def tables_ok_def stores_ok_def bind_eq_Some_conv)
  moreover have "registered (rms_tables redb_tasks) (rms_db redb_tasks)"
    using task_tables task_store_there
    by (auto simp: registered_def registry_names_def) (auto simp: redb_tasks_def next_registry_def split: if_splits)
  ultimately show ?thesis
    by (simp add: ram.redb_inv_def)
qed

definition tasks_on_disk :: stores where
  "tasks_on_disk = (\<lambda>n. if n \<in> set task_stores then tasks_in_memory n else None)"

lemma redb_tasks_abs: "ram.redb_abs redb_tasks ''tasks'' = Some tasks_on_disk"
  using task_tables
  by (auto simp: ram.redb_abs_def view_def tasks_on_disk_def fun_eq_iff)
    (auto simp: redb_tasks_def next_registry_def split: if_splits)

lemma tasks_on_disk_hold: "coll_repr task_item (\<lambda>_. True) task_registry both_tasks tasks_on_disk"
  using tasks_in_memory_hold
  by (auto simp: coll_repr_def tasks_on_disk_def task_stores_def registry_store_names_eq)

text \<open>The crate in memory never fails to prepare.\<close>

lemma ram_open_all: "open_all ram_crate ts T = Ret (with_tables ts T)"
  by (induction ts arbitrary: T) (simp_all add: ram_crate_def with_tables_def)

lemma ram_prepares: "\<exists>s'. redb_prepare ram_crate ns names s = Ret s'"
  unfolding redb_prepare_def Let_def ram_open_all by (simp add: ram_crate_def)

lemma ram_builds: "collection_new (redb_ms ram_crate) T nm s \<noteq> Panicked"
  using ram_prepares [of nm "registry_store_names T [MAIN_STORE]" s] by (auto simp: collection_new_def)

section \<open>Properties\<close>

text \<open>C32: Records survive a restart. When a database held a table of records and \<open>Database::open\<close>, called on
  its file, returns an error or a database with the same tables, which is assumed of the crate and its file,
  \<open>RedbMultiStore::open\<close> returns that error or a store with an empty registry; and building the
  collection on it panics because of a storage error, or gives a database that holds the same
  table, every index included.\<close>

lemma redb_reopen_keeps_table:
  assumes "redb_backend storage_error C db_ready db_writing db_tables rtx_tables rtab_content
             wtx_ok wtx_tables wtab_ok wtab_open"
    and "redb_backend.redb_inv db_ready db_tables s"
    and "redb_backend.redb_abs db_tables s nm = Some S" and "coll_repr R rec_ok T tbl S"
    and kept: "refines storage_error db_ready db_tables opened_file (Ret (db_tables (rms_db s)))"
  shows "(\<exists>e. redb_create opened_file = Fail (redb_error e) \<and> storage_error e) \<or>
         (\<exists>s0. redb_create opened_file = Ret s0 \<and>
            (collection_new (redb_ms C) T nm s0 = Panicked \<and> (\<exists>e. storage_error e) \<or>
             (\<exists>s' S'. collection_new (redb_ms C) T nm s0 = Ret s' \<and>
                redb_backend.redb_inv db_ready db_tables s' \<and>
                redb_backend.redb_abs db_tables s' nm = Some S' \<and> coll_repr R rec_ok T tbl S')))"
proof (cases opened_file)
  case (Ret db)
  have reg: "registry_names (rms_tables s)" and S: "S = view (rms_tables s) nm (db_tables (rms_db s))"
    using assms(2,3)
    by (simp_all add: redb_backend.redb_inv_def [OF assms(1)] redb_backend.redb_abs_def [OF assms(1)]
        registered_def)
  have db: "db_ready db" "db_tables db = db_tables (rms_db s)"
    using kept Ret by (auto simp: refines_def)
  show ?thesis
    using redb_backend.redb_new_finds [OF assms(1) redb_backend.from_database_inv [OF assms(1) db(1)], of T nm]
      coll_repr_found [OF reg, of R rec_ok T tbl nm] assms(4) S
    by (auto simp: Ret redb_create_def redb_from_database_def db(2))
qed (use kept in \<open>auto simp: refines_def redb_create_def\<close>)

lemma redb_reopen_keeps_table_witness:
  "\<exists>s0 s S. redb_create (Ret (rms_db redb_tasks)) = Ret s0 \<and>
         collection_new (redb_ms ram_crate) task_registry ''tasks'' s0 = Ret s \<and>
         ram.redb_abs s ''tasks'' = Some S \<and> coll_repr task_item (\<lambda>_. True) task_registry both_tasks S"
proof -
  have "tables_ok (rms_db redb_tasks)" using redb_tasks_inv by (simp add: ram.redb_inv_def)
  then have "refines ram_error tables_ok (\<lambda>T. T) (Ret (rms_db redb_tasks)) (Ret (rms_db redb_tasks))"
    by (simp add: refines_def)
  from redb_reopen_keeps_table [OF ram.redb_backend_axioms redb_tasks_inv redb_tasks_abs tasks_on_disk_hold this]
  show ?thesis using ram_builds [of task_registry "''tasks''"] by (auto simp: redb_create_def)
qed

text \<open>C37: The backends differ on a store that is prepared, left out by the next \<open>prepare\<close> of its
  namespace, and prepared again, as an index that an application drops and adds back: in memory
  it comes back empty, on disk with the entries it had, which the writes in between did not
  keep in step.\<close>

lemma prepared_again:
  assumes "redb_backend storage_error C db_ready db_writing db_tables rtx_tables rtab_content
             wtx_ok wtx_tables wtab_ok wtab_open"
    and "redb_backend.redb_inv db_ready db_tables s"
    and "redb_backend.redb_abs db_tables s ns = Some S" and "S n = Some kv"
    and "n \<notin> set names" and "n \<in> set names'"
    and "redb_prepare C ns names s = Ret s1" and "redb_prepare C ns names' s1 = Ret s2"
    and "memory_prepare ns names db = Ret db1" and "memory_prepare ns names' db1 = Ret db2"
  shows "(\<exists>S2. redb_backend.redb_abs db_tables s2 ns = Some S2 \<and> S2 n = Some kv) \<and>
         and_then (memory_read ns db2) (memory_open n) = Ret []"
proof
  have "view (rms_tables s) ns (db_tables (rms_db s)) n = Some kv"
    using assms(3,4) by (simp add: redb_backend.redb_abs_def [OF assms(1)])
  then show "\<exists>S2. redb_backend.redb_abs db_tables s2 ns = Some S2 \<and> S2 n = Some kv"
    using redb_backend.redb_prepare_again [OF assms(1,2) _ assms(7,8,6)] by blast
  show "and_then (memory_read ns db2) (memory_open n) = Ret []"
    using assms(5,6,9,10)
    by (auto simp: memory_prepare_eq memory_read_def memory_open_def prepared_stores_def
        namespaced_state_new_def split: option.splits)
qed

lemma prepared_again_witness:
  "\<exists>s1 s2 db1 db2 S2.
     redb_prepare ram_crate ''tasks'' [MAIN_STORE] redb_tasks = Ret s1 \<and>
     redb_prepare ram_crate ''tasks'' task_stores s1 = Ret s2 \<and>
     ram.redb_abs s2 ''tasks'' = Some S2 \<and> S2 ''by_slot'' = tasks_in_memory ''by_slot'' \<and>
     memory_prepare ''tasks'' [MAIN_STORE] two_tasks = Ret db1 \<and>
     memory_prepare ''tasks'' task_stores db1 = Ret db2 \<and>
     and_then (memory_read ''tasks'' db2) (memory_open ''by_slot'') = Ret []"
proof -
  obtain s1 where s1: "redb_prepare ram_crate ''tasks'' [MAIN_STORE] redb_tasks = Ret s1"
    using ram_prepares by blast
  obtain s2 where s2: "redb_prepare ram_crate ''tasks'' task_stores s1 = Ret s2"
    using ram_prepares by blast
  obtain db1 where db1: "memory_prepare ''tasks'' [MAIN_STORE] two_tasks = Ret db1"
    by (simp add: memory_prepare_eq)
  obtain db2 where db2: "memory_prepare ''tasks'' task_stores db1 = Ret db2"
    by (simp add: memory_prepare_eq)
  have slot: "''by_slot'' \<in> set task_stores" "''by_slot'' \<notin> set [MAIN_STORE]"
    by (simp_all add: task_stores_def registry_store_names_eq task_registry_def erase_index_def
        by_slot_def MAIN_STORE_def)
  then obtain kv where kv: "tasks_in_memory ''by_slot'' = Some kv"
    using task_store_there by blast
  then have "tasks_on_disk ''by_slot'' = Some kv"
    using slot by (simp add: tasks_on_disk_def)
  from prepared_again [OF ram.redb_backend_axioms redb_tasks_inv redb_tasks_abs this slot(2,1) s1 s2 db1 db2]
  show ?thesis using s1 s2 db1 db2 kv by auto
qed

end
