(* ===== verification/Pages.thy ===== *)
theory Pages
  imports Memory_Collection Example
begin

text \<open>
  Pagination, as the documentation of \<open>Cursor\<close> in \<open>src/iter.rs\<close> and of \<open>after\<close> in \<open>src/scan.rs\<close>
  has it: a client takes the first entries of a scan, keeps the cursor of the last one, and
  starts the same scan again behind that cursor. A cursor may come from an older snapshot: its
  entry need not be there any more. \<open>paginate\<close> is that loop; nothing in its text bounds the
  number of rounds, so it is a partial function, and that it returns is a theorem.
\<close>

section \<open>Executors that yield the rows of a table\<close>

text \<open>Both executors open a well-formed range, panic on a malformed one, and yield rows by a store key.\<close>

definition yields_rows ::
  "('r, 'pk) item \<Rightarrow> ('r \<Rightarrow> bytes) \<Rightarrow> ('r, 'pk) table \<Rightarrow> stores executor \<Rightarrow> bool" where
  "yields_rows R sk tbl ex \<longleftrightarrow> (\<forall>rg d.
     if range_panics rg then executor_open memory_ms ex (fst rg) (snd rg) d = Panicked
     else \<exists>it rs. executor_open memory_ms ex (fst rg) (snd rg) d = Ret it \<and>
            scan_collect memory_ms R it = List.map (\<lambda>r. Ret (entry_of sk r)) rs \<and>
            rows sk d (\<lambda>r. contains (<) rg (sk r)) tbl rs)"

lemma yields_rows_opens:
  "yields_rows R sk tbl ex \<Longrightarrow> \<not> range_panics rg \<Longrightarrow>
   \<exists>it rs. executor_open memory_ms ex (fst rg) (snd rg) d = Ret it \<and>
     scan_collect memory_ms R it = List.map (\<lambda>r. Ret (entry_of sk r)) rs \<and>
     rows sk d (\<lambda>r. contains (<) rg (sk r)) tbl rs"
  unfolding yields_rows_def by metis

lemma yields_rows_panics:
  "yields_rows R sk tbl ex \<Longrightarrow> range_panics rg \<Longrightarrow>
   executor_open memory_ms ex (fst rg) (snd rg) d = Panicked"
  unfolding yields_rows_def by metis

context lawful_item
begin

lemma index_yields_rows:
  assumes "coll_repr R rec_ok T tbl S" "X \<in> set T"
  shows "yields_rows R (index_store_key R X) tbl (IndexExecutor (ix_name X) MAIN_STORE S)"
proof -
  have "executor_open memory_ms (IndexExecutor (ix_name X) MAIN_STORE S) (fst rg) (snd rg) d = Panicked"
    if "range_panics rg" for rg d
    using that coll_repr_index [OF assms] by (auto simp: memory_open_def memory_scan_def bt_range_def)
  then show ?thesis
    unfolding yields_rows_def using index_open_rows [OF assms] by (simp del: executor_open.simps split_paired_All)
qed

lemma main_yields_rows:
  assumes "coll_repr R rec_ok T tbl S"
  shows "yields_rows R (main_store_key R) tbl (CollectionExecutor MAIN_STORE S)"
proof -
  have "executor_open memory_ms (CollectionExecutor MAIN_STORE S) (fst rg) (snd rg) d = Panicked"
    if "range_panics rg" for rg d
    using that coll_repr_main [OF assms] by (auto simp: memory_open_def memory_scan_def bt_range_def)
  then show ?thesis
    unfolding yields_rows_def using main_open_rows [OF assms] by (simp del: executor_open.simps split_paired_All)
qed

end

lemma chain_rows:
  assumes "yields_rows R sk tbl (scan_base sc)" and c: "compile Xp sc = Ret c"
    and it: "scan_iter memory_ms Xp sc = Ret it"
  shows "\<not> range_panics (cs_range c) \<and>
         (\<exists>rs. scan_collect memory_ms R it = List.map (\<lambda>r. Ret (entry_of sk r)) rs \<and>
               rows sk (cs_direction c) (\<lambda>r. contains (<) (cs_range c) (sk r)) tbl rs)"
proof -
  have opened: "executor_open memory_ms (scan_base sc) (fst (cs_range c)) (snd (cs_range c)) (cs_direction c) = Ret it"
    using it c compile_executor [OF c] by (simp add: scan_iter_def compiled_iter_def)
  then have "\<not> range_panics (cs_range c)"
    using yields_rows_panics [OF assms(1)] by force
  then show ?thesis
    using yields_rows_opens [OF assms(1), of "cs_range c" "cs_direction c"] opened by simp
qed

lemma chain_opens:
  assumes "yields_rows R sk tbl (scan_base sc)" and c: "compile Xp sc = Ret c"
    and "\<not> range_panics (cs_range c)"
  shows "\<exists>it. scan_iter memory_ms Xp sc = Ret it"
proof -
  have "scan_iter memory_ms Xp sc =
      executor_open memory_ms (scan_base sc) (fst (cs_range c)) (snd (cs_range c)) (cs_direction c)"
    using c compile_executor [OF c] by (simp add: scan_iter_def compiled_iter_def)
  then show ?thesis using yields_rows_opens [OF assms(1,3), of "cs_direction c"] by auto
qed

section \<open>Behind a cursor\<close>

text \<open>
  What a chain with a cursor yields: the rows of the chain without it that come behind the key
  of the cursor in the direction of the scan, whether or not a row has that key.
\<close>

lemma behind_cursor:
  assumes y: "yields_rows R sk tbl (scan_base sc)" and c: "compile Xp sc = Ret c"
    and key: "contains (<) (cs_range c) key"
  shows "\<exists>it rs. scan_iter memory_ms Xp (scan_after (CursorKey key) sc) = Ret it \<and>
           scan_collect memory_ms R it = List.map (\<lambda>r. Ret (entry_of sk r)) rs \<and>
           rows sk (cs_direction c)
             (\<lambda>r. contains (<) (cs_range c) (sk r) \<and> runs_before (cs_direction c) key (sk r)) tbl rs"
proof -
  let ?c = "c\<lparr>cs_range := after_range (cs_direction c) key (cs_range c)\<rparr>" and ?sc = "AfterScan (CursorKey key) sc"
  have c': "compile Xp ?sc = Ret ?c" using c key by (simp add: compile_after del: compile.simps)
  have y': "yields_rows R sk tbl (scan_base ?sc)" using y by simp
  obtain it where it: "scan_iter memory_ms Xp ?sc = Ret it"
    using chain_opens [OF y' c'] after_range_no_panic [OF key] by auto
  show ?thesis
    using it chain_rows [OF y' c' it] by (auto simp: scan_after_def contains_after_range [OF key])
qed

text \<open>Behind the entry at position \<open>i\<close> of the same snapshot.\<close>

lemma resume:
  assumes y: "yields_rows R sk tbl (scan_base sc)" and it: "scan_iter memory_ms Xp sc = Ret it"
    and rs: "scan_collect memory_ms R it = List.map (\<lambda>r. Ret (entry_of sk r)) rs" and i: "i < length rs"
  shows "\<exists>it'. scan_iter memory_ms Xp (scan_after (CursorKey (sk (rs ! i))) sc) = Ret it' \<and>
               scan_collect memory_ms R it' = List.map (\<lambda>r. Ret (entry_of sk r)) (drop (Suc i) rs)"
proof -
  obtain c where c: "compile Xp sc = Ret c" using it by (cases "compile Xp sc") (auto simp: scan_iter_def)
  have "inj (\<lambda>r. Ret (entry_of sk r) :: (error, 'a scan_entry) outcome)"
    by (auto intro: injI simp: entry_of_def)
  then have rows: "rows sk (cs_direction c) (\<lambda>r. contains (<) (cs_range c) (sk r)) tbl rs"
    using chain_rows [OF y c it] rs by (auto simp: inj_map_eq_map)
  have "contains (<) (cs_range c) (sk (rs ! i))"
    using rows nth_mem [OF i] by (auto simp: rows_def)
  then show ?thesis
    using behind_cursor [OF y c] rows_unique [OF rows_drop [OF rows i]] by blast
qed

section \<open>The pagination loop\<close>

text \<open>One page: the chain with the cursor, and at most \<open>n\<close> calls of \<open>next\<close>.\<close>

definition page ::
  "('db, 'rh, 'rs, 'wh, 'ws) multistore \<Rightarrow> ('p, 's, 'k) prefixing \<Rightarrow> ('r, 'pk) item \<Rightarrow> nat \<Rightarrow> ('rh, 'p) scan \<Rightarrow>
   cursor \<Rightarrow> (error, (error, 'r scan_entry) outcome list) outcome" where
  "page I Xp R n sc cur = map_ret (\<lambda>it. take n (scan_collect I R it)) (scan_iter I Xp (scan_after cur sc))"

text \<open>
  The loop stops at an empty page, at an error, and at an item that is an error; it returns the
  pages it has seen.
\<close>

partial_function (option) paginate ::
  "('db, 'rh, 'rs, 'wh, 'ws) multistore \<Rightarrow> ('p, 's, 'k) prefixing \<Rightarrow> ('r, 'pk) item \<Rightarrow> nat \<Rightarrow> ('rh, 'p) scan \<Rightarrow>
   cursor \<Rightarrow> (error, 'r scan_entry) outcome list list option" where
  "paginate I Xp R n sc cur =
     (case page I Xp R n sc cur of
        Ret (x # xs) \<Rightarrow>
          (case last (x # xs) of
             Ret e \<Rightarrow> Option.bind (paginate I Xp R n sc (entry_cursor e)) (\<lambda>ps. Some ((x # xs) # ps))
           | _ \<Rightarrow> Some [x # xs])
      | _ \<Rightarrow> Some [])"

lemma paginate_empty: "page I Xp R n sc cur = Ret [] \<Longrightarrow> paginate I Xp R n sc cur = Some []"
  by (subst paginate.simps) simp

lemma paginate_step:
  assumes "page I Xp R n sc cur = Ret p" "p \<noteq> []" "last p = Ret e"
    and "paginate I Xp R n sc (entry_cursor e) = Some ps"
  shows "paginate I Xp R n sc cur = Some (p # ps)"
proof -
  obtain x xs where "p = x # xs" using assms(2) by (cases p) auto
  then show ?thesis using assms by (subst paginate.simps) (simp del: last.simps)
qed

text \<open>What the pages of a list of items look like.\<close>

definition pages_of :: "nat \<Rightarrow> 'a list \<Rightarrow> 'a list list \<Rightarrow> bool" where
  "pages_of n xs ps \<longleftrightarrow> concat ps = xs \<and> (\<forall>p \<in> set ps. p \<noteq> [] \<and> length p \<le> n) \<and>
     (\<forall>p \<in> set (butlast ps). length p = n)"

lemma pages_of_Nil: "pages_of n [] []"
  by (simp add: pages_of_def)

lemma pages_of_Cons:
  assumes "pages_of n (drop n xs) ps" "0 < n" "xs \<noteq> []"
  shows "pages_of n xs (take n xs # ps)"
proof (cases "ps = []")
  case False
  then have "drop n xs \<noteq> []" using assms(1) by (cases ps) (auto simp: pages_of_def)
  then show ?thesis using assms False by (auto simp: pages_of_def)
qed (use assms in \<open>auto simp: pages_of_def\<close>)

text \<open>
  The loop returns when every chain behind an entry yields what is behind it; with \<open>n = 0\<close> it
  returns at once.
\<close>

lemma paginate_from:
  fixes es :: "'r scan_entry list"
  assumes next_page: "\<And>i. i < length es \<Longrightarrow>
      page I Xp R n sc (entry_cursor (es ! i)) = Ret (take n (List.map Ret (drop (Suc i) es)))"
    and n: "0 < n"
    and first: "page I Xp R n sc cur = Ret (take n (List.map Ret (drop j es)))"
  shows "\<exists>ps. paginate I Xp R n sc cur = Some ps \<and> pages_of n (List.map Ret (drop j es)) ps"
  using first
proof (induction "length es - j" arbitrary: j cur rule: less_induct)
  case less
  show ?case
  proof (cases "drop j es")
    case Nil
    then show ?thesis
      using less.prems by (simp add: paginate_empty pages_of_Nil)
  next
    case (Cons e rest)
    let ?k = "min n (length es - j)"
    let ?p = "take n (List.map Ret (drop j es)) :: (error, 'r scan_entry) outcome list"
    have "\<not> length es \<le> j" using Cons by (metis drop_eq_Nil list.distinct(1))
    then have k: "0 < ?k" "j + ?k \<le> length es" using n by simp_all
    have p: "?p = List.map Ret (take ?k (drop j es))"
      by (simp add: take_map [symmetric] min_def)
    have p_ne: "?p \<noteq> []" using n Cons by simp
    obtain m where m: "?k = Suc m" using gr0_implies_Suc [OF k(1)] by blast
    then have "m < n" "m < length es - j" by linarith+
    then have last: "last ?p = Ret (es ! (j + m))"
      using p_ne m k(2) by (simp add: last_conv_nth min.commute)
    have "page I Xp R n sc (entry_cursor (es ! (j + m))) = Ret (take n (List.map Ret (drop (j + ?k) es)))"
      using next_page [of "j + m"] m \<open>m < length es - j\<close> by simp
    moreover have "length es - (j + ?k) < length es - j" using k by linarith
    ultimately obtain ps where ps: "paginate I Xp R n sc (entry_cursor (es ! (j + m))) = Some ps"
        "pages_of n (List.map Ret (drop (j + ?k) es)) ps"
      using less.hyps by blast
    have "drop n (List.map Ret (drop j es)) = (List.map Ret (drop (j + ?k) es) :: (error, 'r scan_entry) outcome list)"
      by (simp add: drop_map min_def add.commute)
    then have "pages_of n (drop n (List.map Ret (drop j es))) ps"
      using ps(2) by (simp only:)
    then have "pages_of n (List.map Ret (drop j es)) (?p # ps)"
      by (rule pages_of_Cons) (use n Cons in simp_all)
    then show ?thesis using paginate_step [OF less.prems p_ne last ps(1)] by blast
  qed
qed

lemma scan_after_none: "scan_iter I Xp (scan_after NoCursor sc) = scan_iter I Xp sc"
  by (simp add: scan_iter_def scan_after_def)

lemma paginate_rows:
  assumes y: "yields_rows R sk tbl (scan_base sc)" and it: "scan_iter memory_ms Xp sc = Ret it"
    and rs: "scan_collect memory_ms R it = List.map (\<lambda>r. Ret (entry_of sk r)) rs" and n: "0 < n"
  shows "\<exists>ps. paginate memory_ms Xp R n sc NoCursor = Some ps \<and>
           pages_of n (List.map (\<lambda>r. Ret (entry_of sk r)) rs) ps"
proof -
  let ?es = "List.map (entry_of sk) rs"
  have "page memory_ms Xp R n sc (entry_cursor (?es ! i)) = Ret (take n (List.map Ret (drop (Suc i) ?es)))"
    if i: "i < length ?es" for i
    using resume [OF y it rs, of i] i by (auto simp: page_def entry_of_def comp_def drop_map)
  moreover have "page memory_ms Xp R n sc NoCursor = Ret (take n (List.map Ret (drop 0 ?es)))"
    using it rs by (simp add: page_def scan_after_none comp_def)
  ultimately show ?thesis
    using paginate_from [where es = ?es and j = 0 and I = memory_ms and R = R and sc = sc and Xp = Xp and cur = NoCursor, OF _ n]
    by (simp add: comp_def)
qed

context lawful_item
begin

lemma memory_index_resume:
  assumes "coll_repr R rec_ok T tbl S" "index_of R rec_ok T ltk ik_valid X"
    and base: "scan_base sc = IndexExecutor (index_name X) MAIN_STORE S"
    and "scan_iter memory_ms Xp sc = Ret it" "scan_collect memory_ms R it = index_entries R X rs" "i < length rs"
  shows "\<exists>it'. scan_iter memory_ms Xp (scan_after (index_cursor R X (rs ! i)) sc) = Ret it' \<and>
               scan_collect memory_ms R it' = index_entries R X (drop (Suc i) rs)"
  using resume [where sk = "index_store_key R (erase_index X)" and rs = rs and sc = sc]
    index_yields_rows [OF assms(1), of "erase_index X"] assms(2-)
  by (auto simp: index_of_def index_entries_eq index_cursor_erase index_store_key_def)

lemma paginate_index:
  assumes "coll_repr R rec_ok T tbl S" "index_of R rec_ok T ltk ik_valid X"
    and base: "scan_base sc = IndexExecutor (index_name X) MAIN_STORE S"
    and "scan_iter memory_ms Xp sc = Ret it" "scan_collect memory_ms R it = index_entries R X rs" "0 < n"
  shows "\<exists>ps. paginate memory_ms Xp R n sc NoCursor = Some ps \<and> pages_of n (index_entries R X rs) ps"
  using paginate_rows [where sk = "index_store_key R (erase_index X)" and rs = rs and sc = sc]
    index_yields_rows [OF assms(1), of "erase_index X"] assms(2-)
  by (auto simp: index_of_def index_entries_eq)

lemma paginate_collection:
  assumes "coll_repr R rec_ok T tbl S" "scan_base sc = CollectionExecutor MAIN_STORE S"
    and "scan_iter memory_ms Xp sc = Ret it" "scan_collect memory_ms R it = main_entries R rs" "0 < n"
  shows "\<exists>ps. paginate memory_ms Xp R n sc NoCursor = Some ps \<and> pages_of n (main_entries R rs) ps"
  using paginate_rows [where sk = "main_store_key R" and rs = rs and sc = sc]
    main_yields_rows [OF assms(1)] assms(2-)
  by (auto simp: main_entries_eq)

end

section \<open>Properties\<close>

lemma slot_scan:
  assumes "coll_repr task_item (\<lambda>_. True) task_registry both_tasks S"
  shows "\<exists>it. scan_iter memory_ms (prefix2 u8_key u8_key)
           (index_scan_new ''by_slot'' S MAIN_STORE :: (stores, 8 word) scan) = Ret it \<and>
         scan_collect memory_ms task_item it = index_entries task_item by_slot [task_a, task_b]"
proof -
  let ?sc = "index_scan_new ''by_slot'' S MAIN_STORE :: (stores, 8 word) scan"
  let ?sk = "index_store_key task_item (erase_index by_slot)"
  have base: "scan_base ?sc = IndexExecutor (index_name by_slot) MAIN_STORE S"
    by (simp add: index_scan_new_def by_slot_def)
  obtain it rs where it: "scan_iter memory_ms (prefix2 u8_key u8_key) ?sc = Ret it"
      "scan_collect memory_ms task_item it = index_entries task_item by_slot rs"
      "rows ?sk LeftToRight (\<lambda>r. True) both_tasks rs"
    using tasks.memory_index_rows [OF assms by_slot_of _ base, of "prefix2 u8_key u8_key"]
    by (auto simp: index_scan_new_def)
  have "rows ?sk LeftToRight (\<lambda>r. True) both_tasks [task_a, task_b]"
    unfolding both_tasks_rows
    by (auto simp: ordered_def task_a_def task_b_def index_store_key_def u8.encode_less_iff)
  then show ?thesis using it rows_unique by blast
qed

text \<open>C8: Cursors. Whatever chain of builders a scan of an index is, \<open>after\<close> with a key in the compiled range
  yields exactly the records of the chain whose store key comes behind that key in the direction
  of the scan, whether or not a record has that key (it may have been removed since the cursor
  was taken); a key outside the range fails with \<open>CursorOutOfBounds\<close>. The backend is never asked
  for a malformed range.\<close>

theorem after_resumes:
  assumes "lawful_item R lt pk_valid rec_ok" "coll_repr R rec_ok T tbl S"
    and X: "index_of R rec_ok T ltk ik_valid X"
    and base: "scan_base sc = IndexExecutor (index_name X) MAIN_STORE S"
    and c: "compile Xp sc = Ret c"
  shows "if contains (<) (cs_range c) key
         then \<exists>it rs. scan_iter memory_ms Xp (scan_after (CursorKey key) sc) = Ret it \<and>
                scan_collect memory_ms R it = index_entries R X rs \<and>
                rows (index_store_key R (erase_index X)) (cs_direction c)
                  (\<lambda>r. contains (<) (cs_range c) (index_store_key R (erase_index X) r) \<and>
                       runs_before (cs_direction c) key (index_store_key R (erase_index X) r)) tbl rs
         else scan_iter memory_ms Xp (scan_after (CursorKey key) sc) = Fail CursorOutOfBounds"
proof -
  have y: "yields_rows R (index_store_key R (erase_index X)) tbl (scan_base sc)"
    using lawful_item.index_yields_rows [OF assms(1,2), of "erase_index X"] X base by (simp add: index_of_def)
  have "scan_iter memory_ms Xp (scan_after (CursorKey key) sc) = Fail CursorOutOfBounds"
    if "\<not> contains (<) (cs_range c) key"
    using that c by (simp add: scan_iter_def scan_after_def compile_after del: compile.simps)
  then show ?thesis using behind_cursor [OF y c] by (auto simp: index_entries_eq)
qed

text \<open>On the two tasks in the slots 7 and 9, behind a slot that nobody has.\<close>

theorem after_resumes_witness:
  "\<exists>S it. memory_abs two_tasks ''tasks'' = Some S \<and>
     scan_iter memory_ms (prefix2 u8_key u8_key)
       (scan_after (CursorKey [8]) (index_scan_new ''by_slot'' S MAIN_STORE)) = Ret it \<and>
     scan_collect memory_ms task_item it = index_entries task_item by_slot [task_b]"
proof (rule memory_holdsD [OF two_tasks_hold])
  fix S assume S: "memory_abs two_tasks ''tasks'' = Some S"
    "coll_repr task_item (\<lambda>_. True) task_registry both_tasks S"
  let ?sc = "index_scan_new ''by_slot'' S MAIN_STORE :: (stores, 8 word) scan"
  let ?sk = "index_store_key task_item (erase_index by_slot)"
  have base: "scan_base ?sc = IndexExecutor (index_name by_slot) MAIN_STORE S"
    by (simp add: index_scan_new_def by_slot_def)
  obtain it rs where it: "scan_iter memory_ms (prefix2 u8_key u8_key) (scan_after (CursorKey [8]) ?sc) = Ret it"
      "scan_collect memory_ms task_item it = index_entries task_item by_slot rs"
      "rows ?sk LeftToRight (\<lambda>r. [8] < ?sk r) both_tasks rs"
    using after_resumes [OF tasks.lawful_item_axioms S(2) by_slot_of base, of "prefix2 u8_key u8_key" _ "[8]"]
    by (auto simp: index_scan_new_def)
  have "?sk task_a = [7]" "?sk task_b = [9]"
    by (simp_all add: index_store_key_def task_a_def task_b_def u8_key_def unsigned_key_def size_of_def)
  then have "rows ?sk LeftToRight (\<lambda>r. [8] < ?sk r) both_tasks [task_b]"
    unfolding both_tasks_rows by (auto simp: ordered_def)
  then have "rs = [task_b]" using it(3) rows_unique by blast
  then show ?thesis using it(1,2) S(1) by blast
qed

text \<open>C9: Pagination ends. The loop that takes pages of \<open>n > 0\<close> entries of any scan of an index, each behind
  the cursor of the last entry of the page before, returns, and its pages are the results of
  the scan cut into full pages and a last one: nothing is skipped or repeated.\<close>

theorem pages_end:
  assumes "lawful_item R lt pk_valid rec_ok" "coll_repr R rec_ok T tbl S"
    and "index_of R rec_ok T ltk ik_valid X"
    and "scan_base sc = IndexExecutor (index_name X) MAIN_STORE S"
    and "scan_iter memory_ms Xp sc = Ret it" "scan_collect memory_ms R it = index_entries R X rs" "0 < n"
  shows "\<exists>ps. paginate memory_ms Xp R n sc NoCursor = Some ps \<and> concat ps = index_entries R X rs \<and>
           (\<forall>p \<in> set ps. p \<noteq> [] \<and> length p \<le> n) \<and> (\<forall>p \<in> set (butlast ps). length p = n)"
  using lawful_item.paginate_index [OF assms] by (simp add: pages_of_def)

theorem pages_end_witness:
  "\<exists>S ps. memory_abs two_tasks ''tasks'' = Some S \<and>
     paginate memory_ms (prefix2 u8_key u8_key) task_item 1 (index_scan_new ''by_slot'' S MAIN_STORE) NoCursor = Some ps \<and>
     concat ps = index_entries task_item by_slot [task_a, task_b]"
proof (rule memory_holdsD [OF two_tasks_hold])
  fix S assume S: "memory_abs two_tasks ''tasks'' = Some S"
    "coll_repr task_item (\<lambda>_. True) task_registry both_tasks S"
  let ?sc = "index_scan_new ''by_slot'' S MAIN_STORE :: (stores, 8 word) scan"
  have base: "scan_base ?sc = IndexExecutor (index_name by_slot) MAIN_STORE S"
    by (simp add: index_scan_new_def by_slot_def)
  obtain it where "scan_iter memory_ms (prefix2 u8_key u8_key) ?sc = Ret it"
      "scan_collect memory_ms task_item it = index_entries task_item by_slot [task_a, task_b]"
    using slot_scan [OF S(2)] by blast
  from pages_end [OF tasks.lawful_item_axioms S(2) by_slot_of base this, of 1] S(1) show ?thesis by auto
qed

end
