(* ===== verification/Scan_Backends.thy ===== *)
theory Scan_Backends
  imports Pages
begin

text \<open>
  Scans on any backend that keeps the contract of the storage traits. Opening a scan fails with a
  backend error or does what it does in memory, on the stores the read handle stands for; and
  each item of the iterator is the one that the memory yields at that place, or a backend
  error, for every chain of builders. So what is known of a scan in memory holds of a scan on
  disk, up to storage errors.
\<close>

section \<open>Items\<close>

text \<open>The items of an iterator, one by one: as in memory, or a backend error.\<close>

definition items_agree :: "(std_error \<Rightarrow> bool) \<Rightarrow> (error, 'a) outcome list \<Rightarrow> (error, 'a) outcome list \<Rightarrow> bool" where
  "items_agree may_fail = list_all2 (\<lambda>a b. a = b \<or> (\<exists>e. a = Fail (error_backend e) \<and> may_fail e))"

lemma items_agree_map:
  assumes "list_all2 (\<lambda>a b. a = b \<or> (\<exists>e. a = Fail e \<and> may_fail e)) xs ys"
    and "\<And>a. f a = g a \<or> (\<exists>e. f a = Fail (error_backend e) \<and> may_fail e)"
    and "\<And>e. f (Fail e) = Fail (error_backend e)"
  shows "items_agree may_fail (List.map f xs) (List.map g ys)"
  using assms(1) unfolding items_agree_def
  by (induction rule: list_all2_induct) (use assms(2,3) in auto)

context lawful_multistore
begin

lemma index_fetch_agrees:
  "index_fetch I R primary res = index_fetch memory_ms R (rs_abs primary) res \<or>
   (\<exists>e. index_fetch I R primary res = Fail (error_backend e) \<and> may_fail e)"
proof (cases res)
  case (Ret entry)
  have "rs_get I (snd entry) primary = rs_get memory_ms (snd entry) (rs_abs primary) \<or>
        (\<exists>e. rs_get I (snd entry) primary = Fail e \<and> may_fail e)"
    using read_get_law [of "snd entry" primary] by (auto simp: refines_def ref_get_def memory_get_def)
  then show ?thesis
  proof (elim disjE exE conjE)
    assume "rs_get I (snd entry) primary = rs_get memory_ms (snd entry) (rs_abs primary)"
    then show ?thesis unfolding index_fetch_def Ret map_err.simps and_then.simps by (simp only: simp_thms)
  next
    fix e assume "rs_get I (snd entry) primary = Fail e" "may_fail e"
    then show ?thesis by (simp add: index_fetch_def Ret)
  qed
qed (simp_all add: index_fetch_def)

text \<open>Opening a store of a read handle that is there.\<close>

lemma open_there:
  assumes "rh_abs rh n = Some kv"
  obtains e where "rh_open I n rh = Fail e" "may_fail e"
  | rs where "rh_open I n rh = Ret rs" "rs_abs rs = kv"
  using open_read_law [of n rh] assms
  by (cases "rh_open I n rh") (auto simp: refines_def ref_open_def)

lemma scan_there:
  assumes "\<not> range_panics r" and "memory_scan r d (rs_abs rs) = Ret ys"
  obtains e where "rs_scan I r d rs = Fail e" "may_fail e"
  | xs where "rs_scan I r d rs = Ret xs"
      "list_all2 (\<lambda>a b. a = b \<or> (\<exists>e. a = Fail e \<and> may_fail e)) xs ys"
  using read_scan_law [OF assms(1), of d rs] assms(2)
  by (auto simp: scan_refines_def memory_scan_ref)

lemma index_open_agrees:
  assumes rg: "\<not> range_panics (s, e)"
    and it': "executor_open memory_ms (IndexExecutor n m (rh_abs rh)) s e d = Ret it'"
  shows "(\<exists>err. executor_open I (IndexExecutor n m rh) s e d = Fail (error_backend err) \<and> may_fail err) \<or>
         (\<exists>it. executor_open I (IndexExecutor n m rh) s e d = Ret it \<and>
               items_agree may_fail (scan_collect I R it) (scan_collect memory_ms R it'))"
proof -
  obtain kv ys pkv where mem: "rh_abs rh n = Some kv" "memory_scan (s, e) d kv = Ret ys"
      "rh_abs rh m = Some pkv" "it' = IndexIterator ys pkv"
    using it' by (auto simp: memory_open_def and_then_eq_Ret)
  show ?thesis
  proof (rule open_there [OF mem(1)])
    fix rs assume rs: "rh_open I n rh = Ret rs" "rs_abs rs = kv"
    show ?thesis
    proof (rule scan_there [OF rg mem(2) [folded rs(2)]])
      fix xs assume xs: "rs_scan I (s, e) d rs = Ret xs"
        "list_all2 (\<lambda>a b. a = b \<or> (\<exists>e. a = Fail e \<and> may_fail e)) xs ys"
      show ?thesis
      proof (rule open_there [OF mem(3)])
        fix prs assume prs: "rh_open I m rh = Ret prs" "rs_abs prs = pkv"
        have "items_agree may_fail (List.map (index_fetch I R prs) xs) (List.map (index_fetch memory_ms R pkv) ys)"
          using xs(2) index_fetch_agrees [of R prs] prs(2)
          by (intro items_agree_map) (auto simp: index_fetch_def)
        then show ?thesis
          using rs xs prs mem(4) by (simp add: collect_index_eq)
      qed (use rs xs in simp)
    qed (use rs in simp)
  qed simp
qed

lemma collection_open_agrees:
  assumes rg: "\<not> range_panics (s, e)"
    and it': "executor_open memory_ms (CollectionExecutor m (rh_abs rh)) s e d = Ret it'"
  shows "(\<exists>err. executor_open I (CollectionExecutor m rh) s e d = Fail (error_backend err) \<and> may_fail err) \<or>
         (\<exists>it. executor_open I (CollectionExecutor m rh) s e d = Ret it \<and>
               items_agree may_fail (scan_collect I R it) (scan_collect memory_ms R it'))"
proof -
  obtain kv ys where mem: "rh_abs rh m = Some kv" "memory_scan (s, e) d kv = Ret ys"
      "it' = CollectionIterator ys"
    using it' by (auto simp: memory_open_def and_then_eq_Ret)
  show ?thesis
  proof (rule open_there [OF mem(1)])
    fix rs assume rs: "rh_open I m rh = Ret rs" "rs_abs rs = kv"
    show ?thesis
    proof (rule scan_there [OF rg mem(2) [folded rs(2)]])
      fix xs assume xs: "rs_scan I (s, e) d rs = Ret xs"
        "list_all2 (\<lambda>a b. a = b \<or> (\<exists>e. a = Fail e \<and> may_fail e)) xs ys"
      then have "items_agree may_fail (List.map (collection_fetch R) xs) (List.map (collection_fetch R) ys)"
        by (intro items_agree_map) (auto simp: collection_fetch_def)
      then show ?thesis
        using rs xs mem(3) by (simp add: collect_collection_eq)
    qed (use rs in simp)
  qed simp
qed

end

section \<open>Any chain\<close>

text \<open>A chain with its read handle replaced by what the handle stands for.\<close>

definition retarget :: "('a \<Rightarrow> 'b) \<Rightarrow> 'a compiled_scan \<Rightarrow> 'b compiled_scan" where
  "retarget f c = \<lparr>cs_executor = map_executor f (cs_executor c), cs_range = cs_range c,
                  cs_direction = cs_direction c\<rparr>"

lemma retarget_simps [simp]:
  "cs_range (retarget f c) = cs_range c" "cs_direction (retarget f c) = cs_direction c"
  "cs_executor (retarget f c) = map_executor f (cs_executor c)"
  by (simp_all add: retarget_def)

lemma retarget_update [simp]:
  "retarget f (c\<lparr>cs_range := r\<rparr>) = (retarget f c)\<lparr>cs_range := r\<rparr>"
  "retarget f (c\<lparr>cs_direction := d\<rparr>) = (retarget f c)\<lparr>cs_direction := d\<rparr>"
  by (simp_all add: retarget_def)

lemma map_ret_then: "(\<And>c. map_ret f (g c) = h (f c)) \<Longrightarrow> map_ret f (and_then x g) = and_then (map_ret f x) h"
  by (cases x) auto

lemma compile_map_scan:
  "compile Xp (map_scan f (\<lambda>p. p) sc) = map_ret (retarget f) (compile Xp sc)"
proof (induction sc)
  case (FullScan ex)
  then show ?case by (simp add: retarget_def)
next
  case (AfterScan cur sc)
  then show ?case
    by (simp split: option.splits direction.splits)
      (intro map_ret_then [symmetric]; simp split: option.splits direction.splits)
qed (simp_all add: map_ret_then [symmetric])

text \<open>
  On any backend a chain fails as it does in memory, on the stores its read handle stands for,
  or fails with a backend error, or yields what it yields in memory.
\<close>

context lawful_multistore
begin

lemma executor_open_agrees:
  assumes "executor_open memory_ms (map_executor rh_abs ex) s e d = Ret it'"
  shows "(\<exists>err. executor_open I ex s e d = Fail (error_backend err) \<and> may_fail err) \<or>
         (\<exists>it. executor_open I ex s e d = Ret it \<and>
               items_agree may_fail (scan_collect I R it) (scan_collect memory_ms R it'))"
proof (cases ex)
  case (IndexExecutor n m rh)
  have "\<not> range_panics (s, e)"
    using assms by (auto simp: IndexExecutor memory_scan_def bt_range_def and_then_eq_Ret)
  then show ?thesis
    using index_open_agrees [of s e n m rh d it' R] assms by (simp add: IndexExecutor del: executor_open.simps)
next
  case (CollectionExecutor m rh)
  have "\<not> range_panics (s, e)"
    using assms by (auto simp: CollectionExecutor memory_scan_def bt_range_def and_then_eq_Ret)
  then show ?thesis
    using collection_open_agrees [of s e m rh d it' R] assms by (simp add: CollectionExecutor del: executor_open.simps)
qed

lemma chain_agrees:
  assumes "scan_iter memory_ms Xp (map_scan rh_abs (\<lambda>p. p) sc) = Ret it'"
  shows "(\<exists>err. scan_iter I Xp sc = Fail (error_backend err) \<and> may_fail err) \<or>
         (\<exists>it. scan_iter I Xp sc = Ret it \<and>
               items_agree may_fail (scan_collect I R it) (scan_collect memory_ms R it'))"
proof -
  obtain c where c: "compile Xp sc = Ret c" "compiled_iter memory_ms (retarget rh_abs c) = Ret it'"
    using assms by (auto simp: scan_iter_def compile_map_scan and_then_eq_Ret map_ret_eq_Ret)
  then show ?thesis
    using executor_open_agrees [of "cs_executor c" "fst (cs_range c)" "snd (cs_range c)" "cs_direction c" it' R]
    by (simp add: scan_iter_def compiled_iter_def)
qed

end

lemma range_chain_run:
  "scan_iter J Xp (scan_direction d (scan_in_range E K r (index_scan_new n rh m))) =
   executor_open J (IndexExecutor n m rh) (fst (encode_range E K r)) (snd (encode_range E K r)) d"
  by (simp add: scan_direction_def scan_in_range_def index_scan_new_def scan_iter_def compiled_iter_def)

section \<open>Properties\<close>

text \<open>On any backend that keeps the contract of the storage traits, an index scan over a range of
  keys fails to start with a backend error, or starts and yields, one by one and in the order
  asked, exactly the records of the table whose index key is in the range, with their cursors,
  where any single item may be a backend error instead. It never panics.\<close>

lemma index_scan_on_any_backend:
  assumes L: "lawful_multistore may_fail I db_inv db_abs writing origin rh_abs rs_abs wh_ok wh_abs ws_ok ws_abs"
    and R: "lawful_item R lt pk_valid rec_ok"
    and db: "db_inv db" "db_abs db nm = Some S" "coll_repr R rec_ok T tbl S"
    and X: "index_of R rec_ok T ltk ik_valid X"
    and r: "bound_valid ik_valid (fst r)" "bound_valid ik_valid (snd r)"
    and suc: "bounds_encoder (kind X) = PrefixEncoder \<Longrightarrow> start_has_successor (index_key_key X) (fst r)"
    and rg: "\<not> range_panics (encode_range (bounds_encoder (kind X)) (index_key_key X) r)"
  shows "(\<exists>e. collection_index_scan I nm X db = Fail (error_backend e) \<and> may_fail e) \<or>
         (\<exists>sc. collection_index_scan I nm X db = Ret sc \<and>
            ((\<exists>e. scan_iter I Xp (scan_direction d
                  (scan_in_range (bounds_encoder (kind X)) (index_key_key X) r sc)) = Fail (error_backend e) \<and>
                may_fail e) \<or>
             (\<exists>it rs. scan_iter I Xp (scan_direction d
                  (scan_in_range (bounds_encoder (kind X)) (index_key_key X) r sc)) = Ret it \<and>
                items_agree may_fail (scan_collect I R it) (index_entries R X rs) \<and>
                rows (index_store_key R (erase_index X)) d (\<lambda>x. contains ltk r (index_key X x)) tbl rs)))"
proof (cases "ms_read I nm db")
  case (Ret rh)
  have rh: "rh_abs rh = S"
    using lawful_multistore.read_law [OF L db(1), of nm] db(2) Ret by (auto simp: refines_def ref_read_def)
  let ?rg = "encode_range (bounds_encoder (kind X)) (index_key_key X) r"
  let ?ex = "IndexExecutor (index_name X) MAIN_STORE" and ?sk = "index_store_key R (erase_index X)"
  let ?chain = "\<lambda>h. scan_direction d (scan_in_range (bounds_encoder (kind X)) (index_key_key X) r
                   (index_scan_new (index_name X) h MAIN_STORE))"
  obtain it' rs where mem: "scan_iter memory_ms Xp (?chain S) = Ret it'"
      "scan_collect memory_ms R it' = index_entries R X rs"
      "rows ?sk d (\<lambda>x. contains (<) ?rg (?sk x)) tbl rs"
    using lawful_item.memory_index_rows [OF R db(3) X, where sc = "?chain S" and Xp = Xp] rg
    by (auto simp: scan_direction_def scan_in_range_def index_scan_new_def)
  have sel: "contains (<) ?rg (?sk x) = contains ltk r (index_key X x)" if "tbl pk = Some x" for pk x
    by (rule lawful_item.index_range_iff [OF R])
      (use X r suc table_okD [OF coll_repr_table [OF db(3)] that] in \<open>auto simp: index_of_def\<close>)
  have "rows ?sk d (\<lambda>x. contains ltk r (index_key X x)) tbl rs"
    by (rule rows_cong [THEN iffD1, OF sel mem(3)])
  moreover have "\<not> range_panics (fst ?rg, snd ?rg)"
    using rg by simp
  ultimately show ?thesis
    using lawful_multistore.index_open_agrees [OF L, of "fst ?rg" "snd ?rg" "index_name X" MAIN_STORE rh d it' R]
      mem(1,2) Ret by (auto simp: range_chain_run rh collection_index_scan_def simp del: executor_open.simps)
next
  case (Fail e)
  then show ?thesis
    using lawful_multistore.read_law [OF L db(1), of nm] db(2)
    by (auto simp: refines_def ref_read_def collection_index_scan_def)
qed (use lawful_multistore.read_law [OF L db(1), of nm] db(2) in
      \<open>auto simp: refines_def ref_read_def collection_index_scan_def\<close>)

lemma index_scan_on_any_backend_witness:
  "\<exists>sc it. collection_index_scan memory_ms ''tasks'' by_slot two_tasks = Ret sc \<and>
     scan_iter memory_ms (prefix2 u8_key u8_key)
       (scan_direction RightToLeft (scan_in_range ExactEncoder u8_key (Included 8, Unbounded) sc)) = Ret it \<and>
     items_agree (\<lambda>_. False) (scan_collect memory_ms task_item it) (index_entries task_item by_slot [task_b])"
proof (rule memory_holdsD [OF two_tasks_hold])
  fix S assume S: "memory_inv two_tasks" "memory_abs two_tasks ''tasks'' = Some S"
    "coll_repr task_item (\<lambda>_. True) task_registry both_tasks S"
  have enc: "bounds_encoder (kind by_slot) = ExactEncoder" "index_key_key by_slot = u8_key"
    by (simp_all add: by_slot_def unique_kind_def)
  have range_ok: "\<not> range_panics (encode_range (bounds_encoder (kind by_slot)) (index_key_key by_slot) (Included 8, Unbounded))"
    unfolding enc by (simp add: encode_range_def)
  obtain sc it rs where w: "collection_index_scan memory_ms ''tasks'' by_slot two_tasks = Ret sc"
      "scan_iter memory_ms (prefix2 u8_key u8_key)
         (scan_direction RightToLeft (scan_in_range ExactEncoder u8_key (Included 8, Unbounded) sc)) = Ret it"
      "items_agree (\<lambda>_. False) (scan_collect memory_ms task_item it) (index_entries task_item by_slot rs)"
      "rows (index_store_key task_item (erase_index by_slot)) RightToLeft
         (\<lambda>x. contains (<) (Included 8, Unbounded) (index_key by_slot x)) both_tasks rs"
    using index_scan_on_any_backend [OF mem.lawful_multistore_axioms, OF tasks.lawful_item_axioms,
        OF S, OF by_slot_of, OF _ _ _ range_ok, of "prefix2 u8_key u8_key" RightToLeft]
    unfolding enc by (simp del: contains.simps) blast
  moreover have "rows (index_store_key task_item (erase_index by_slot)) RightToLeft
      (\<lambda>x. contains (<) (Included 8, Unbounded) (index_key by_slot x)) both_tasks [task_b]"
    unfolding both_tasks_rows by (auto simp: ordered_def by_slot_def task_a_def task_b_def)
  ultimately show ?thesis using rows_unique by blast
qed

text \<open>The store keys a scan runs over, by its executor.\<close>

definition scan_keys ::
  "('r, 'pk) item \<Rightarrow> ('r, 'pk) registry \<Rightarrow> 'rh \<Rightarrow> 'rh executor \<Rightarrow> ('r \<Rightarrow> bytes) \<Rightarrow> bool" where
  "scan_keys R T rh ex sk \<longleftrightarrow>
     ex = CollectionExecutor MAIN_STORE rh \<and> sk = main_store_key R \<or>
     (\<exists>X \<in> set T. ex = IndexExecutor (ix_name X) MAIN_STORE rh \<and> sk = index_store_key R X)"

lemma scan_base_map: "scan_base (map_scan f g sc) = map_executor f (scan_base sc)"
  by (induction sc) simp_all

text \<open>C38: Any scan on any backend that keeps the storage contract, once its read handle is open, whatever
  chain of builders is called on a scan of the collection or of one of its indexes, with any range,
  prefix, direction and cursor. Either the chain does not compile, and then the scan fails with
  \<open>CursorOutOfBounds\<close>; or it compiles to a range of bytes. Unless that range is malformed, of which
  the contract says nothing, the scan then fails to start with a backend error, or starts and
  yields, one by one and in the direction of the chain, exactly the records of the table whose store
  key is in the compiled range, where any single item may be a backend error instead.\<close>

lemma scan_on_any_backend:
  assumes L: "lawful_multistore may_fail I db_inv db_abs writing origin rh_abs rs_abs wh_ok wh_abs ws_ok ws_abs"
    and R: "lawful_item R lt pk_valid rec_ok"
    and db: "db_inv db" "db_abs db nm = Some S" "coll_repr R rec_ok T tbl S"
    and rh: "ms_read I nm db = Ret rh" and base: "scan_keys R T rh (scan_base sc) sk"
  shows "compile Xp sc = Fail CursorOutOfBounds \<and> scan_iter I Xp sc = Fail CursorOutOfBounds \<or>
         (\<exists>c. compile Xp sc = Ret c \<and>
            (\<not> range_panics (cs_range c) \<longrightarrow>
               (\<exists>e. scan_iter I Xp sc = Fail (error_backend e) \<and> may_fail e) \<or>
               (\<exists>it rs. scan_iter I Xp sc = Ret it \<and>
                  items_agree may_fail (scan_collect I R it) (List.map (\<lambda>r. Ret (entry_of sk r)) rs) \<and>
                  rows sk (cs_direction c) (\<lambda>r. contains (<) (cs_range c) (sk r)) tbl rs)))"
proof (cases "compile Xp sc")
  case (Fail e)
  then show ?thesis using compile_only_cursor_fails [OF Fail] by (simp add: scan_iter_def)
next
  case (Ret c)
  let ?sc = "map_scan rh_abs (\<lambda>p. p) sc"
  have "rh_abs rh = S"
    using lawful_multistore.read_law [OF L db(1), of nm] db(2) rh by (auto simp: refines_def ref_read_def)
  then have y: "yields_rows R sk tbl (scan_base ?sc)"
    using base lawful_item.main_yields_rows [OF R db(3)] lawful_item.index_yields_rows [OF R db(3)]
    by (auto simp: scan_keys_def scan_base_map)
  have c': "compile Xp ?sc = Ret (retarget rh_abs c)" by (simp add: compile_map_scan Ret)
  have "(\<exists>e. scan_iter I Xp sc = Fail (error_backend e) \<and> may_fail e) \<or>
      (\<exists>it rs. scan_iter I Xp sc = Ret it \<and>
         items_agree may_fail (scan_collect I R it) (List.map (\<lambda>r. Ret (entry_of sk r)) rs) \<and>
         rows sk (cs_direction c) (\<lambda>r. contains (<) (cs_range c) (sk r)) tbl rs)"
    if ok: "\<not> range_panics (cs_range c)"
  proof -
    obtain it' where it': "scan_iter memory_ms Xp ?sc = Ret it'"
      using chain_opens [OF y c'] ok by auto
    show ?thesis
      using chain_rows [OF y c' it'] lawful_multistore.chain_agrees [OF L it', of R] by fastforce
  qed
  then show ?thesis using Ret by blast
qed (use compile_returns in blast)+

text \<open>A scan of the collection backwards from the key of the second task, which it skips.\<close>

lemma scan_on_any_backend_witness:
  "\<exists>rh it. ms_read memory_ms ''tasks'' two_tasks = Ret rh \<and>
     scan_iter memory_ms (prefix2 u8_key u8_key)
       (scan_after (CursorKey (encode u64_key 2)) (scan_direction RightToLeft (collection_scan_new rh MAIN_STORE))) = Ret it \<and>
     items_agree (\<lambda>_. False) (scan_collect memory_ms task_item it)
       (List.map (\<lambda>r. Ret (entry_of (main_store_key task_item) r)) [task_a])"
proof (rule memory_holdsD [OF two_tasks_hold])
  fix S assume S: "memory_inv two_tasks" "memory_abs two_tasks ''tasks'' = Some S"
    "coll_repr task_item (\<lambda>_. True) task_registry both_tasks S"
  let ?sc = "scan_after (CursorKey (encode u64_key 2))
               (scan_direction RightToLeft (collection_scan_new S MAIN_STORE)) :: (stores, 8 word) scan"
  let ?sk = "main_store_key task_item" and ?rg = "(Unbounded, Excluded (encode u64_key 2))"
  have rh: "ms_read memory_ms ''tasks'' two_tasks = Ret S"
    using S(2) by (auto simp: memory_read_def memory_abs_def)
  have base: "scan_keys task_item task_registry S (scan_base ?sc) ?sk"
    by (simp add: scan_keys_def scan_after_def scan_direction_def collection_scan_new_def)
  have c: "compile (prefix2 u8_key u8_key) ?sc =
      Ret \<lparr>cs_executor = CollectionExecutor MAIN_STORE S, cs_range = ?rg, cs_direction = RightToLeft\<rparr>"
    by (simp add: scan_after_def scan_direction_def collection_scan_new_def)
  obtain it rs where it: "scan_iter memory_ms (prefix2 u8_key u8_key) ?sc = Ret it"
      "items_agree (\<lambda>_. False) (scan_collect memory_ms task_item it) (List.map (\<lambda>r. Ret (entry_of ?sk r)) rs)"
      "rows ?sk RightToLeft (\<lambda>r. contains (<) ?rg (?sk r)) both_tasks rs"
    using scan_on_any_backend [OF mem.lawful_multistore_axioms tasks.lawful_item_axioms S rh base,
        of "prefix2 u8_key u8_key"] c by auto
  have "rows ?sk RightToLeft (\<lambda>r. contains (<) ?rg (?sk r)) both_tasks [task_a]"
    unfolding both_tasks_rows
    by (auto simp: ordered_def main_store_key_def u64.encode_less_iff task_a_def task_b_def)
  then have "rs = [task_a]" using it(3) rows_unique by blast
  then show ?thesis using rh it by blast
qed

end
