(* ===== verification/Registered.thy ===== *)
theory Registered
  imports Scan_Backends
begin

text \<open>
  The static check that an index is registered: \<open>ContainsIndex\<close> of \<open>src/index_registry.rs\<close>, which
  \<open>Collection::index_scan\<close> and the scans by a unique key demand of the registry. An
  implementation of the trait is found by a proof, \<open>Here\<close> or \<open>There\<close> of a proof, that the compiler
  infers and that must be the only one. The builder calls before \<open>build\<close> decide the registry; the
  property joins the two with the stores that \<open>build\<close> prepares.
\<close>

section \<open>Proofs of membership\<close>

datatype index_proof = Here | There index_proof

fun contains_index :: "('r, 'pk) registry \<Rightarrow> ('r, 'pk) any_index \<Rightarrow> index_proof \<Rightarrow> bool" where
  "contains_index [] X p \<longleftrightarrow> False"
| "contains_index (Head # Tail) X Here \<longleftrightarrow> Head = X"
| "contains_index (Head # Tail) X (There p) \<longleftrightarrow> contains_index Tail X p"

text \<open>The place in the registry that a proof stands for.\<close>

fun place :: "index_proof \<Rightarrow> nat" where
  "place Here = 0"
| "place (There p) = Suc (place p)"

lemma place_inject: "place p = place q \<longleftrightarrow> p = q"
proof (induction p arbitrary: q)
  case Here
  then show ?case by (cases q) auto
next
  case (There p)
  then show ?case by (cases q) auto
qed

lemma contains_index_iff: "contains_index T X p \<longleftrightarrow> place p < length T \<and> T ! place p = X"
  by (induction T X p rule: contains_index.induct) auto

lemma contains_index_in: "contains_index T X p \<Longrightarrow> X \<in> set T"
  by (auto simp: contains_index_iff)

text \<open>Inference finds a proof of every index of the registry and, with distinct store names, no other.\<close>

lemma contains_index_exists: "X \<in> set T \<Longrightarrow> \<exists>p. contains_index T X p"
proof (induction T)
  case (Cons Head Tail)
  show ?case
  proof (cases "Head = X")
    case True
    then have "contains_index (Head # Tail) X Here" by simp
    then show ?thesis by blast
  next
    case False
    then obtain p where "contains_index Tail X p" using Cons by auto
    then have "contains_index (Head # Tail) X (There p)" by simp
    then show ?thesis by blast
  qed
qed simp

lemma contains_index_unique:
  "distinct (List.map ix_name T) \<Longrightarrow> contains_index T X p \<Longrightarrow> contains_index T X q \<Longrightarrow> p = q"
  using nth_eq_iff_index_eq [of T]
  by (auto simp: contains_index_iff distinct_map place_inject [symmetric])

lemma contains_index_one:
  assumes "distinct (List.map ix_name T)"
  shows "if X \<in> set T then \<exists>!p. contains_index T X p else \<nexists>p. contains_index T X p"
  using contains_index_exists [of X T] contains_index_in [of T X] contains_index_unique [OF assms, of X]
  by auto

section \<open>A chain of calls of the builder\<close>

fun with_indexes ::
  "('r, 'pk) any_index list \<Rightarrow> ('db, 'r, 'pk) builder \<Rightarrow> (error, ('db, 'r, 'pk) builder) outcome" where
  "with_indexes [] B = Ret B"
| "with_indexes (X # Xs) B = and_then (with_index X B) (with_indexes Xs)"

lemma with_indexes_keeps:
  "with_indexes Xs B = Ret B' \<Longrightarrow> distinct (List.map ix_name (builder_indexes B)) \<Longrightarrow>
   builder_indexes B' = rev Xs @ builder_indexes B \<and> builder_name B' = builder_name B \<and>
   builder_db B' = builder_db B \<and> distinct (List.map ix_name (builder_indexes B'))"
proof (induction Xs B rule: with_indexes.induct)
  case (2 X Xs B)
  let ?B = "B\<lparr>builder_indexes := X # builder_indexes B\<rparr>"
  have X: "with_index X B = Ret ?B" "ix_name X \<notin> ix_name ` set (builder_indexes B)"
    using 2(2) by (auto simp: with_index_def registry_has_index_iff split: if_splits)
  then have IH: "builder_indexes B' = rev Xs @ builder_indexes ?B \<and> builder_name B' = builder_name ?B \<and>
      builder_db B' = builder_db ?B \<and> distinct (List.map ix_name (builder_indexes B'))"
    using 2(2,3) by (intro 2(1)) simp_all
  then have "builder_indexes B' = rev (X # Xs) @ builder_indexes B" "builder_name B' = builder_name B"
      "builder_db B' = builder_db B"
    by simp_all
  then show ?case using IH by blast
qed simp

section \<open>Prepared stores\<close>

context lawful_multistore
begin

lemma build_dom:
  assumes "db_inv (builder_db B)" "build I B = Ret db'"
  shows "db_inv db' \<and>
    (\<exists>S. db_abs db' (builder_name B) = Some S \<and> dom S = insert MAIN_STORE (ix_name ` set (builder_indexes B)))"
  using prepare_law [OF assms(1), of "builder_name B" "registry_store_names (builder_indexes B) [MAIN_STORE]"] assms(2)
  by (auto simp: build_def collection_new_def prepared_def registry_store_names_eq)

text \<open>A chain on an index whose stores are there opens, unless its range is malformed.\<close>

lemma index_chain_opens:
  assumes "rh_abs rh (index_name X) \<noteq> None" "rh_abs rh MAIN_STORE \<noteq> None"
    and base: "scan_base sc = IndexExecutor (index_name X) MAIN_STORE rh" and c: "compile Xp sc = Ret c"
    and "\<not> range_panics (cs_range c)"
  shows "(\<exists>e. scan_iter I Xp sc = Fail (error_backend e) \<and> may_fail e) \<or> (\<exists>it. scan_iter I Xp sc = Ret it)"
proof -
  obtain s e where r: "cs_range c = (s, e)" by fastforce
  obtain it' where "executor_open memory_ms (IndexExecutor (index_name X) MAIN_STORE (rh_abs rh)) s e
      (cs_direction c) = Ret it'"
    using assms(1,2,5) by (auto simp: r memory_open_def memory_scan_def bt_range_def)
  from index_open_agrees [OF _ this] show ?thesis
    using compile_executor [OF c] assms(5) base r
    by (auto simp: c scan_iter_def compiled_iter_def simp del: executor_open.simps)
qed

lemma registered_index_scan:
  assumes "db_inv db" "db_abs db nm = Some S" "S (index_name X) \<noteq> None" "S MAIN_STORE \<noteq> None"
  shows "(\<exists>e. collection_index_scan I nm X db = Fail (error_backend e) \<and> may_fail e) \<or>
         (\<exists>rh. collection_index_scan I nm X db = Ret (index_scan_new (index_name X) rh MAIN_STORE) \<and>
            rh_abs rh (index_name X) \<noteq> None \<and> rh_abs rh MAIN_STORE \<noteq> None)"
  using read_law [OF assms(1), of nm] assms(2-4)
  by (cases "ms_read I nm db") (auto simp: refines_def ref_read_def collection_index_scan_def)

end

section \<open>Property\<close>

text \<open>C39: A scan of an index that type checks finds its stores. Once the calls of \<open>with_index\<close> have not
  panicked and the collection is built, the indexes that were registered have exactly one proof of
  \<open>ContainsIndex\<close> each, so that the compiler can infer it, and all others have none. On any backend
  that keeps the storage contract, starting a scan of an index that has a proof fails with a backend
  error or reads its handle; and whatever chain of builders is called on it, as long as the chain
  compiles to a range of bytes that is not malformed, the scan opens its stores or fails with a
  backend error: it never panics on a store that was not prepared.\<close>

lemma registered_scan_opens:
  fixes Xp :: "('p, 's, 'k) prefixing"
  assumes L: "lawful_multistore may_fail I db_inv db_abs writing origin rh_abs rs_abs wh_ok wh_abs ws_ok ws_abs"
    and db: "db_inv db" and B: "with_indexes Xs (collection nm db) = Ret B" and built: "build I B = Ret db'"
  shows "(if Y \<in> set Xs then \<exists>!p. contains_index (builder_indexes B) Y p
          else \<nexists>p. contains_index (builder_indexes B) Y p) \<and>
         (contains_index (builder_indexes B) (erase_index X) p \<longrightarrow>
            (\<exists>e. (collection_index_scan I nm X db' :: (error, ('rh, 'p) scan) outcome) = Fail (error_backend e) \<and> may_fail e) \<or>
            (\<exists>rh. collection_index_scan I nm X db' = Ret (index_scan_new (index_name X) rh MAIN_STORE :: ('rh, 'p) scan) \<and>
               (\<forall>sc c. scan_base sc = IndexExecutor (index_name X) MAIN_STORE rh \<and> compile Xp sc = Ret c \<and>
                    \<not> range_panics (cs_range c) \<longrightarrow>
                  (\<exists>e. scan_iter I Xp sc = Fail (error_backend e) \<and> may_fail e) \<or>
                  (\<exists>it. scan_iter I Xp sc = Ret it))))"
proof -
  have k: "builder_indexes B = rev Xs" "builder_name B = nm" "builder_db B = db"
      "distinct (List.map ix_name (builder_indexes B))"
    using with_indexes_keeps [OF B] by (auto simp: collection_def)
  obtain S where S: "db_inv db'" "db_abs db' nm = Some S" "dom S = insert MAIN_STORE (ix_name ` set Xs)"
    using lawful_multistore.build_dom [OF L _ built] db k by auto
  have opens: "(\<exists>e. (collection_index_scan I nm X db' :: (error, ('rh, 'p) scan) outcome) = Fail (error_backend e) \<and> may_fail e) \<or>
      (\<exists>rh. collection_index_scan I nm X db' = Ret (index_scan_new (index_name X) rh MAIN_STORE :: ('rh, 'p) scan) \<and>
         rh_abs rh (index_name X) \<noteq> None \<and> rh_abs rh MAIN_STORE \<noteq> None)"
    if p: "contains_index (builder_indexes B) (erase_index X) p"
  proof -
    have "erase_index X \<in> set Xs" using contains_index_in [OF p] k(1) by simp
    then have "index_name X \<in> dom S" "MAIN_STORE \<in> dom S"
      using S(3) ix_name_erase [of X] by (auto intro: rev_image_eqI)
    then show ?thesis by (intro lawful_multistore.registered_index_scan [OF L S(1,2)]) auto
  qed
  have chains: "(\<exists>e. scan_iter I Xp sc = Fail (error_backend e) \<and> may_fail e) \<or> (\<exists>it. scan_iter I Xp sc = Ret it)"
    if "rh_abs rh (index_name X) \<noteq> None" "rh_abs rh MAIN_STORE \<noteq> None"
      and "scan_base sc = IndexExecutor (index_name X) MAIN_STORE rh \<and> compile Xp sc = Ret c \<and>
           \<not> range_panics (cs_range c)" for rh sc c
    using lawful_multistore.index_chain_opens [OF L that(1,2)] that(3) by blast
  have "if Y \<in> set Xs then \<exists>!p. contains_index (builder_indexes B) Y p
        else \<nexists>p. contains_index (builder_indexes B) Y p"
    using contains_index_one [OF k(4), of Y] k(1) by simp
  moreover have "(\<exists>e. (collection_index_scan I nm X db' :: (error, ('rh, 'p) scan) outcome) = Fail (error_backend e) \<and> may_fail e) \<or>
      (\<exists>rh. collection_index_scan I nm X db' = Ret (index_scan_new (index_name X) rh MAIN_STORE :: ('rh, 'p) scan) \<and>
         (\<forall>sc c. scan_base sc = IndexExecutor (index_name X) MAIN_STORE rh \<and> compile Xp sc = Ret c \<and>
              \<not> range_panics (cs_range c) \<longrightarrow>
            (\<exists>e. scan_iter I Xp sc = Fail (error_backend e) \<and> may_fail e) \<or>
            (\<exists>it. scan_iter I Xp sc = Ret it)))"
    if p: "contains_index (builder_indexes B) (erase_index X) p"
    using opens [OF p] by (elim disjE) (blast, use chains in blast)
  ultimately show ?thesis by blast
qed

lemma registered_scan_opens_witness:
  "\<exists>B db sc. with_indexes [erase_index by_slot, erase_index by_status, erase_index by_board]
       (collection ''tasks'' memory_new) = Ret B \<and>
     build memory_ms B = Ret db \<and>
     (\<exists>!p. contains_index (builder_indexes B) (erase_index by_slot) p) \<and>
     collection_index_scan memory_ms ''tasks'' by_slot db = Ret sc \<and>
     (\<exists>it. scan_iter memory_ms (prefix2 u8_key u8_key) (scan_direction RightToLeft sc) = Ret it)"
proof -
  let ?Xs = "[erase_index by_slot, erase_index by_status, erase_index by_board]"
  let ?B = "\<lparr>builder_name = ''tasks'', builder_db = memory_new, builder_indexes = rev ?Xs\<rparr>"
  have B: "with_indexes ?Xs (collection ''tasks'' memory_new) = Ret ?B"
    by (simp add: collection_def with_index_def by_slot_def by_status_def by_board_def)
  obtain db where db: "build memory_ms ?B = Ret db"
    by (simp add: build_def collection_new_def memory_prepare_eq Let_def)
  have inv: "memory_inv memory_new" by (simp add: memory_inv_def memory_new_def memory_stores_ok_def)
  have p: "contains_index (builder_indexes ?B) (erase_index by_slot) (There (There Here))" by simp
  note opens = registered_scan_opens [OF mem.lawful_multistore_axioms inv B db]
  obtain rh where rh: "collection_index_scan memory_ms ''tasks'' by_slot db =
        Ret (index_scan_new (index_name by_slot) rh MAIN_STORE :: (stores, 8 word) scan)"
    and chains: "\<And>sc c. scan_base sc = IndexExecutor (index_name by_slot) MAIN_STORE rh \<Longrightarrow>
      compile (prefix2 u8_key u8_key) sc = Ret c \<Longrightarrow> \<not> range_panics (cs_range c) \<Longrightarrow>
      \<exists>it. scan_iter memory_ms (prefix2 u8_key u8_key) sc = Ret it"
    using opens [THEN conjunct2, THEN mp, OF p, of "prefix2 u8_key u8_key"]
    by (elim disjE exE conjE, blast) (rule that, assumption, blast)
  have "\<exists>it. scan_iter memory_ms (prefix2 u8_key u8_key)
      (scan_direction RightToLeft (index_scan_new (index_name by_slot) rh MAIN_STORE)) = Ret it"
    by (rule chains [of _ "\<lparr>cs_executor = IndexExecutor (index_name by_slot) MAIN_STORE rh,
          cs_range = (Unbounded, Unbounded), cs_direction = RightToLeft\<rparr>"])
      (simp_all add: scan_direction_def index_scan_new_def)
  moreover have "\<exists>!p. contains_index (builder_indexes ?B) (erase_index by_slot) p"
    using opens [THEN conjunct1, of "erase_index by_slot"] by simp
  ultimately show ?thesis using B db rh by blast
qed

end
