(* ===== verification/Namespaces.thy ===== *)
theory Namespaces
  imports Locks
begin

text \<open>
  The in-memory backend with all its namespaces: \<open>prepare\<close>, \<open>read\<close> and \<open>write\<close> of
  \<open>src/backend/memory.rs\<close>, called by any threads on any namespaces, one of which may not be there
  yet: \<open>prepare\<close> creates it, and \<open>read\<close> and \<open>write\<close> panic on it. All namespaces share the \<open>RwLock\<close>
  around their map, and each has a writer gate of its own, so that a thread may have write handles
  on several. The last section shows that they do not see each other: what happens on
  one namespace is a run of the system of a single namespace, from the stores it was created
  with.
\<close>

section \<open>State\<close>

text \<open>
  The call a thread is in, with its namespace. The stores a namespace was created with, the read
  handles given out on it, and how often \<open>prepare\<close> got the lock for it since then are recorded for
  the statements.
\<close>

record backend_state =
  spaces :: "name \<Rightarrow> threads option"
  calls :: "thread \<Rightarrow> name \<times> call"
  handed :: "name \<Rightarrow> stores list"
  prepares :: "name \<Rightarrow> nat"
  born :: "name \<Rightarrow> stores"

definition backend_new :: backend_state where
  "backend_new = \<lparr>spaces = (\<lambda>_. None), calls = (\<lambda>_. ([], Idle)), handed = (\<lambda>_. []), prepares = (\<lambda>_. 0),
                  born = (\<lambda>_ _. None)\<rparr>"

definition enters :: "thread \<Rightarrow> name \<Rightarrow> call \<Rightarrow> backend_state \<Rightarrow> backend_state" where
  "enters t n c s = s\<lparr>calls := (calls s)(t := (n, c))\<rparr>"

definition set_space :: "name \<Rightarrow> threads \<Rightarrow> backend_state \<Rightarrow> backend_state" where
  "set_space n g s = s\<lparr>spaces := (spaces s)(n \<mapsto> g)\<rparr>"

definition hand_stores :: "name \<Rightarrow> stores \<Rightarrow> backend_state \<Rightarrow> backend_state" where
  "hand_stores n S s = s\<lparr>handed := (handed s)(n := handed s n @ [S])\<rparr>"

definition count_prepare :: "name \<Rightarrow> backend_state \<Rightarrow> backend_state" where
  "count_prepare n s = s\<lparr>prepares := (prepares s)(n := Suc (prepares s n))\<rparr>"

text \<open>The branch of \<open>prepare\<close> for a namespace that is not there.\<close>

definition fresh_stores :: "name list \<Rightarrow> stores" where
  "fresh_stores names = collect_map (List.map (\<lambda>store. (store, [])) names)"

definition create_space :: "name \<Rightarrow> name list \<Rightarrow> backend_state \<Rightarrow> backend_state" where
  "create_space n names s =
     s\<lparr>spaces := (spaces s)(n \<mapsto> threads_new (fresh_stores names)), handed := (handed s)(n := []),
       prepares := (prepares s)(n := 0), born := (born s)(n := fresh_stores names)\<rparr>"

definition may_read_map :: "(backend_state \<Rightarrow> bool) \<Rightarrow> backend_state \<Rightarrow> bool" where
  "may_read_map pol s \<longleftrightarrow>
     (\<forall>u. \<not> owns_map (snd (calls s u))) \<and> ((\<forall>u. \<not> wants_map (snd (calls s u))) \<or> pol s)"

definition may_write_map :: "backend_state \<Rightarrow> bool" where
  "may_write_map s \<longleftrightarrow> (\<forall>u. \<not> owns_map (snd (calls s u)) \<and> \<not> guards_map (snd (calls s u)))"

section \<open>Steps\<close>

inductive space_step :: "(backend_state \<Rightarrow> bool) \<Rightarrow> thread \<Rightarrow> backend_state \<Rightarrow> backend_state \<Rightarrow> bool" for pol where
  read_lock: "calls s t = (n, ReadWait) \<Longrightarrow> may_read_map pol s \<Longrightarrow> space_step pol t s (enters t n ReadHeld s)"
| read_return: "calls s t = (n, ReadHeld) \<Longrightarrow> spaces s n = Some g \<Longrightarrow>
    space_step pol t s (enters t n Idle (hand_stores n (ns_stores (shared g)) s))"
| read_panic: "calls s t = (n, ReadHeld) \<Longrightarrow> spaces s n = None \<Longrightarrow> space_step pol t s (enters t n Idle s)"
| write_lock: "calls s t = (n, WriteWait) \<Longrightarrow> may_read_map pol s \<Longrightarrow> spaces s n = Some g \<Longrightarrow>
    space_step pol t s (enters t n InWrite (set_space n (move t Locking g) s))"
| write_panic: "calls s t = (n, WriteWait) \<Longrightarrow> may_read_map pol s \<Longrightarrow> spaces s n = None \<Longrightarrow>
    space_step pol t s (enters t n Idle s)"
| at_gate: "spaces s n = Some g \<Longrightarrow> gate_step t g g' \<Longrightarrow> space_step pol t s (set_space n g' s)"
| write_return: "calls s t = (n, InWrite) \<Longrightarrow> spaces s n = Some g \<Longrightarrow> has_handle (at_pc g t) \<Longrightarrow>
    space_step pol t s (enters t n Idle s)"
| prepare_lock: "calls s t = (n, PrepareWait names) \<Longrightarrow> may_write_map s \<Longrightarrow>
    space_step pol t s (enters t n (PrepareHeld names) (count_prepare n s))"
| prepare_insert: "calls s t = (n, PrepareHeld names) \<Longrightarrow> spaces s n = None \<Longrightarrow>
    space_step pol t s (enters t n Idle (create_space n names s))"
| prepare_current: "calls s t = (n, PrepareHeld names) \<Longrightarrow> spaces s n = Some g \<Longrightarrow>
    space_step pol t s (enters t n (PrepareNext (next_stores names (ns_stores (shared g)))) s)"
| prepare_return: "calls s t = (n, PrepareNext S) \<Longrightarrow> spaces s n = Some g \<Longrightarrow>
    space_step pol t s (enters t n Idle (set_space n (replace_stores S g) s))"

text \<open>A thread that is in no call and is not dropping a handle, on any namespace.\<close>

definition hands_free :: "backend_state \<Rightarrow> thread \<Rightarrow> bool" where
  "hands_free s t \<longleftrightarrow> snd (calls s t) = Idle \<and>
     (\<forall>n g. spaces s n = Some g \<longrightarrow> at_pc g t = Outside \<or> has_handle (at_pc g t))"

inductive space_caller :: "thread \<Rightarrow> backend_state \<Rightarrow> backend_state \<Rightarrow> bool" where
  call_read: "hands_free s t \<Longrightarrow> space_caller t s (enters t n ReadWait s)"
| call_prepare: "hands_free s t \<Longrightarrow> space_caller t s (enters t n (PrepareWait names) s)"
| call_write: "hands_free s t \<Longrightarrow> (\<And>g. spaces s n = Some g \<Longrightarrow> at_pc g t = Outside) \<Longrightarrow>
    space_caller t s (enters t n WriteWait s)"
| use_handle: "hands_free s t \<Longrightarrow> spaces s n = Some g \<Longrightarrow> has_handle (at_pc g t) \<Longrightarrow> client_step t g g' \<Longrightarrow>
    space_caller t s (set_space n g' s)"
| wake: "spaces s n = Some g \<Longrightarrow> at_pc g t = Waiting \<Longrightarrow> client_step t g g' \<Longrightarrow>
    space_caller t s (set_space n g' s)"

inductive backend_reachable :: "(backend_state \<Rightarrow> bool) \<Rightarrow> backend_state \<Rightarrow> bool" for pol where
  start: "backend_reachable pol backend_new"
| backend: "backend_reachable pol s \<Longrightarrow> space_step pol t s s' \<Longrightarrow> backend_reachable pol s'"
| caller: "backend_reachable pol s \<Longrightarrow> space_caller t s s' \<Longrightarrow> backend_reachable pol s'"

inductive_cases space_stepE: "space_step pol t s s'"
inductive_cases space_callerE: "space_caller t s s'"

lemma backend_state_simps [simp]:
  "spaces (enters t n c s) = spaces s" "calls (enters t n c s) = (calls s)(t := (n, c))"
  "handed (enters t n c s) = handed s" "prepares (enters t n c s) = prepares s" "born (enters t n c s) = born s"
  "spaces (set_space n g s) = (spaces s)(n \<mapsto> g)" "calls (set_space n g s) = calls s"
  "handed (set_space n g s) = handed s" "prepares (set_space n g s) = prepares s" "born (set_space n g s) = born s"
  "spaces (hand_stores n S s) = spaces s" "calls (hand_stores n S s) = calls s"
  "handed (hand_stores n S s) = (handed s)(n := handed s n @ [S])" "prepares (hand_stores n S s) = prepares s"
  "born (hand_stores n S s) = born s"
  "spaces (count_prepare n s) = spaces s" "calls (count_prepare n s) = calls s"
  "handed (count_prepare n s) = handed s" "prepares (count_prepare n s) = (prepares s)(n := Suc (prepares s n))"
  "born (count_prepare n s) = born s"
  "spaces (create_space n names s) = (spaces s)(n \<mapsto> threads_new (fresh_stores names))"
  "calls (create_space n names s) = calls s" "handed (create_space n names s) = (handed s)(n := [])"
  "prepares (create_space n names s) = (prepares s)(n := 0)"
  "born (create_space n names s) = (born s)(n := fresh_stores names)"
  by (simp_all add: enters_def set_space_def hand_stores_def count_prepare_def create_space_def)

section \<open>Invariant\<close>

fun waits :: "call \<Rightarrow> bool" where
  "waits ReadWait = True" | "waits WriteWait = True" | "waits (PrepareWait names) = True" | "waits c = False"

definition one_owner :: "backend_state \<Rightarrow> bool" where
  "one_owner s \<longleftrightarrow> (\<forall>t u. owns_map (snd (calls s t)) \<and> u \<noteq> t \<longrightarrow>
     \<not> owns_map (snd (calls s u)) \<and> \<not> guards_map (snd (calls s u)))"

definition waits_at :: "backend_state \<Rightarrow> bool" where
  "waits_at s \<longleftrightarrow> (\<forall>t n c g. calls s t = (n, c) \<and> waits c \<and> spaces s n = Some g \<longrightarrow> call_at c (at_pc g t))"

lemma one_owner_enters:
  assumes "one_owner s" "calls s' = calls s"
    and "owns_map c \<Longrightarrow> owns_map (snd (calls s t)) \<or> may_write_map s"
    and "guards_map c \<Longrightarrow> guards_map (snd (calls s t)) \<or> (\<forall>u. \<not> owns_map (snd (calls s u)))"
  shows "one_owner (enters t n c s')"
proof -
  have "\<not> (owns_map c \<and> guards_map c)" by (cases c) auto
  then show ?thesis
    using assms unfolding one_owner_def may_write_map_def by (auto split: if_splits) metis+
qed

lemma one_owner_step: "space_step pol t s s' \<Longrightarrow> one_owner s \<Longrightarrow> one_owner s'"
proof (induction rule: space_step.induct)
  case (at_gate s n g t g')
  then show ?case by (simp add: one_owner_def)
qed (erule one_owner_enters; simp add: may_read_map_def)+

lemma one_owner_caller: "space_caller t s s' \<Longrightarrow> one_owner s \<Longrightarrow> one_owner s'"
  by (erule space_callerE) (simp_all add: one_owner_enters, simp_all add: one_owner_def)

lemma waits_at_space:
  assumes "waits_at s" "spaces s n = Some g"
    and "\<And>c u. calls s u = (n, c) \<Longrightarrow> waits c \<Longrightarrow> call_at c (at_pc g u) \<Longrightarrow> call_at c (at_pc g' u)"
  shows "waits_at (set_space n g' s)"
  using assms unfolding waits_at_def by (auto split: if_splits)

lemma waits_at_enters:
  "waits_at s \<Longrightarrow> (\<And>g. waits c \<Longrightarrow> spaces s n = Some g \<Longrightarrow> call_at c (at_pc g t)) \<Longrightarrow> waits_at (enters t n c s)"
  unfolding waits_at_def by (auto split: if_splits)

lemma waits_at_step: "space_step pol t s s' \<Longrightarrow> waits_at s \<Longrightarrow> waits_at s'"
proof (induction rule: space_step.induct)
  case (write_lock s t n g)
  then show ?case by (auto simp: waits_at_def split: if_splits)
next
  case (at_gate s n g t g')
  then show ?case by (auto intro: waits_at_space gate_step_call_at)
next
  case (prepare_insert s t n names)
  then show ?case by (auto simp: waits_at_def threads_new_def split: if_splits elim: waits.elims)
next
  case (prepare_return s t n S g)
  then show ?case by (auto simp: waits_at_def split: if_splits)
qed (auto simp: waits_at_def split: if_splits)

lemma waits_at_caller: "space_caller t s s' \<Longrightarrow> waits_at s \<Longrightarrow> waits_at s'"
proof (induction rule: space_caller.induct)
  case (use_handle s t n g g')
  show ?case
  proof (rule waits_at_space [OF use_handle.prems use_handle.hyps(2)])
    fix c u assume u: "calls s u = (n, c)" "waits c" "call_at c (at_pc g u)"
    have "snd (calls s t) = Idle" using use_handle.hyps(1) by (simp add: hands_free_def)
    with u have "u \<noteq> t" by auto
    moreover have "at_pc g t \<noteq> Outside" using use_handle.hyps(3) by (auto simp: has_handle_def)
    ultimately show "call_at c (at_pc g' u)"
      using u(3) client_step_call_at [OF use_handle.hyps(4)] by blast
  qed
next
  case (wake s n g t g')
  show ?case
    by (rule waits_at_space [OF wake.prems wake.hyps(1)], rule client_step_call_at [OF wake.hyps(3)])
      (use wake.hyps(2) in simp_all)
qed (simp_all add: waits_at_enters hands_free_def)

lemma backend_reachable_inv: "backend_reachable pol s \<Longrightarrow> one_owner s \<and> waits_at s"
proof (induction rule: backend_reachable.induct)
  case start
  then show ?case by (simp add: one_owner_def waits_at_def backend_new_def)
qed (auto intro: one_owner_step waits_at_step one_owner_caller waits_at_caller)

section \<open>One namespace of many\<close>

text \<open>
  What the system of one namespace sees: its gate, and the calls on it that have the lock. A call
  that waits for the lock, on any namespace, is not seen yet.
\<close>

fun seen :: "name \<Rightarrow> name \<times> call \<Rightarrow> call" where
  "seen n (m, c) = (if m = n \<and> \<not> waits c then c else Idle)"

definition view_of :: "name \<Rightarrow> threads \<Rightarrow> backend_state \<Rightarrow> system" where
  "view_of n g s =
     \<lparr>gate = g, doing = (\<lambda>t. seen n (calls s t)), read_handles = handed s n, prepare_calls = prepares s n\<rparr>"

lemma view_of_simps [simp]:
  "gate (view_of n g s) = g" "doing (view_of n g s) = (\<lambda>t. seen n (calls s t))"
  "read_handles (view_of n g s) = handed s n" "prepare_calls (view_of n g s) = prepares s n"
  by (simp_all add: view_of_def)

lemma seen_view:
  "may_read_map pol s \<Longrightarrow> may_read (\<lambda>_. True) (view_of n g s)"
  "may_write_map s \<Longrightarrow> may_write (view_of n g s)"
proof -
  have "owns_map (seen n (calls s u)) \<Longrightarrow> owns_map (snd (calls s u))"
    "guards_map (seen n (calls s u)) \<Longrightarrow> guards_map (snd (calls s u))" for u
    by (cases "calls s u"; auto split: if_splits)+
  then show "may_read_map pol s \<Longrightarrow> may_read (\<lambda>_. True) (view_of n g s)"
    "may_write_map s \<Longrightarrow> may_write (view_of n g s)"
    by (auto simp: may_read_map_def may_read_def may_write_map_def may_write_def)
qed

lemma system_eqI:
  "gate a = gate b \<Longrightarrow> doing a = doing b \<Longrightarrow> read_handles a = read_handles b \<Longrightarrow> prepare_calls a = prepare_calls b \<Longrightarrow>
   a = (b :: system)"
  by simp

text \<open>Runs of the system of one namespace, with readers that may overtake.\<close>

abbreviation runs :: "system \<Rightarrow> system \<Rightarrow> bool" where
  "runs \<equiv> (any_step (\<lambda>_. True))\<^sup>*\<^sup>*"

lemma runs_step: "system_step (\<lambda>_. True) t a b \<Longrightarrow> runs a b"
  unfolding any_step_def by (rule r_into_rtranclp) blast

lemma runs_caller: "caller_step t a b \<Longrightarrow> runs a b"
  unfolding any_step_def by (rule r_into_rtranclp) blast

lemma runs_call: "caller_step t a b \<Longrightarrow> system_step (\<lambda>_. True) t b c \<Longrightarrow> runs a c"
  by (rule rtranclp_trans [OF runs_caller runs_step])

lemma runs_reachable: "runs a b \<Longrightarrow> system_reachable (\<lambda>_. True) S a \<Longrightarrow> system_reachable (\<lambda>_. True) S b"
  by (induction rule: rtranclp_induct)
    (auto simp: any_step_def intro: system_reachable.system system_reachable.caller)

text \<open>A step on another namespace, or one that only waits, is not seen.\<close>

lemma view_enters:
  "view_of n g (enters t m c s) = goes t (seen n (m, c)) (view_of n g s)"
  by (rule system_eqI) (auto simp: fun_eq_iff)

lemma seen_idle: "\<not> owns_map c \<Longrightarrow> \<not> guards_map c \<Longrightarrow> seen n (m, c) = Idle"
  by (cases c) simp_all

lemma goes_same: "doing a t = c \<Longrightarrow> goes t c a = a"
  by (rule system_eqI) (auto simp: fun_eq_iff)

lemma view_other:
  "view_of n g (set_space m g' s) = view_of n g s"
  "m \<noteq> n \<Longrightarrow> view_of n g (hand_stores m S s) = view_of n g s"
  "m \<noteq> n \<Longrightarrow> view_of n g (count_prepare m s) = view_of n g s"
  "m \<noteq> n \<Longrightarrow> view_of n g (create_space m names s) = view_of n g s"
  by (simp_all add: view_of_def)

lemma goes_goes: "goes t c (goes t d a) = goes t c a"
  by (simp add: goes_def)

text \<open>How the step of a namespace that is there is seen by it.\<close>

definition sees :: "name \<Rightarrow> threads \<Rightarrow> backend_state \<Rightarrow> backend_state \<Rightarrow> bool" where
  "sees n g' s s' \<longleftrightarrow>
     (\<exists>g. spaces s n = Some g \<and> born s' n = born s n \<and> runs (view_of n g s) (view_of n g' s')) \<or>
     view_of n g' s' = system_new (born s' n)"

lemma sees_nothing:
  "spaces s n = Some g \<Longrightarrow> born s' n = born s n \<Longrightarrow> view_of n g s' = view_of n g s \<Longrightarrow> sees n g s s'"
  by (simp add: sees_def)

lemma sees_runs:
  "spaces s n = Some g \<Longrightarrow> born s' n = born s n \<Longrightarrow> runs (view_of n g s) (view_of n g' s') \<Longrightarrow> sees n g' s s'"
  by (auto simp: sees_def)

text \<open>A thread that waits for the lock on a namespace that is there.\<close>

lemma waiting_at:
  "waits_at s \<Longrightarrow> calls s t = (n, c) \<Longrightarrow> waits c \<Longrightarrow> spaces s n = Some g \<Longrightarrow>
   call_at c (at_pc g t) \<and> seen n (calls s t) = Idle"
  unfolding waits_at_def by fastforce

lemma runs_read_lock:
  assumes "seen n (calls s t) = Idle" "call_at ReadWait (at_pc g t)" "may_read_map pol s"
  shows "runs (view_of n g s) (goes t ReadHeld (view_of n g s))"
proof -
  let ?v = "view_of n g s"
  have "caller_step t ?v (goes t ReadWait ?v)"
    using assms(1,2) by (intro caller_step.call_read) simp_all
  moreover have "may_read (\<lambda>_. True) (goes t ReadWait ?v)"
    using seen_view(1) [OF assms(3), of n g] by (simp add: may_read_def)
  then have "system_step (\<lambda>_. True) t (goes t ReadWait ?v) (goes t ReadHeld (goes t ReadWait ?v))"
    by (intro system_step.read_lock) simp_all
  ultimately show ?thesis by (metis runs_call goes_goes)
qed

lemma runs_write_lock:
  assumes "seen n (calls s t) = Idle" "at_pc g t = Outside" "may_read_map pol s"
  shows "runs (view_of n g s) (goes t InWrite (view_of n (move t Locking g) s))"
proof -
  let ?v = "view_of n g s" and ?w = "goes t WriteWait (view_of n g s)"
  have "caller_step t ?v ?w"
    using assms(1,2) by (intro caller_step.call_write) simp_all
  moreover have "may_read (\<lambda>_. True) ?w"
    using seen_view(1) [OF assms(3), of n g] by (simp add: may_read_def)
  then have "system_step (\<lambda>_. True) t ?w (goes t InWrite (?w\<lparr>gate := move t Locking (gate ?w)\<rparr>))"
    by (intro system_step.write_lock) simp_all
  moreover have "goes t InWrite (?w\<lparr>gate := move t Locking (gate ?w)\<rparr>) = goes t InWrite (view_of n (move t Locking g) s)"
    by (simp add: goes_def view_of_def)
  ultimately show ?thesis by (metis runs_call)
qed

lemma runs_prepare_lock:
  assumes "seen n (calls s t) = Idle" "at_pc g t = Outside \<or> has_handle (at_pc g t)" "may_write_map s"
  shows "runs (view_of n g s) (goes t (PrepareHeld names) (view_of n g (count_prepare n s)))"
proof -
  let ?v = "view_of n g s"
  let ?w = "goes t (PrepareWait names) (?v\<lparr>prepare_calls := Suc (prepare_calls ?v)\<rparr>)"
  have "caller_step t ?v ?w"
    using assms(1,2) by (intro caller_step.call_prepare) simp_all
  moreover have "may_write ?w"
    using seen_view(2) [OF assms(3), of n g] by (simp add: may_write_def)
  then have "system_step (\<lambda>_. True) t ?w (goes t (PrepareHeld names) ?w)"
    by (intro system_step.prepare_lock) simp_all
  moreover have "goes t (PrepareHeld names) ?w = goes t (PrepareHeld names) (view_of n g (count_prepare n s))"
    by (rule system_eqI) (auto simp: fun_eq_iff)
  ultimately show ?thesis by (metis runs_call)
qed

lemma space_step_seen:
  "space_step pol t s s' \<Longrightarrow> one_owner s \<Longrightarrow> waits_at s \<Longrightarrow> spaces s' n = Some g' \<Longrightarrow> sees n g' s s'"
proof (induction rule: space_step.induct)
  case (read_lock s t m)
  show ?case
  proof (cases "m = n")
    case True
    then have w: "call_at ReadWait (at_pc g' t)" "seen n (calls s t) = Idle"
      using waiting_at [of s t n ReadWait g'] read_lock by auto
    show ?thesis
      using read_lock runs_read_lock [OF w(2,1) read_lock(2)] True
      by (intro sees_runs) (simp_all add: view_enters)
  qed (use read_lock in \<open>auto intro: sees_nothing simp: view_enters goes_same\<close>)
next
  case (read_return s t m g)
  show ?case
  proof (cases "m = n")
    case True
    then have "system_step (\<lambda>_. True) t (view_of n g s) (goes t Idle (open_read (view_of n g s)))"
      using read_return by (intro system_step.read_return) simp
    moreover have "goes t Idle (open_read (view_of n g s)) = goes t Idle (view_of n g (hand_stores n (ns_stores (shared g)) s))"
      by (rule system_eqI) simp_all
    ultimately show ?thesis
      using read_return True by (intro sees_runs [of s n g]) (simp_all add: view_enters runs_step)
  qed (use read_return in \<open>auto intro: sees_nothing simp: view_enters view_other goes_same\<close>)
next
  case (read_panic s t m)
  then show ?case by (cases "m = n") (auto intro: sees_nothing simp: view_enters goes_same)
next
  case (write_lock s t m g)
  show ?case
  proof (cases "m = n")
    case True
    then have w: "at_pc g t = Outside" "seen n (calls s t) = Idle"
      using waiting_at [of s t n WriteWait g] write_lock by auto
    show ?thesis
      using write_lock runs_write_lock [OF w(2,1) write_lock(2)] True
      by (intro sees_runs [of s n g]) (auto simp: view_enters view_other)
  qed (use write_lock in \<open>auto intro: sees_nothing simp: view_enters view_other goes_same\<close>)
next
  case (write_panic s t m)
  then show ?case by (cases "m = n") (auto intro: sees_nothing simp: view_enters goes_same)
next
  case (at_gate s m g t h)
  show ?case
  proof (cases "m = n")
    case True
    have "system_step (\<lambda>_. True) t (view_of n g s) ((view_of n g s)\<lparr>gate := h\<rparr>)"
      using at_gate by (intro system_step.at_gate) simp
    moreover have "(view_of n g s)\<lparr>gate := h\<rparr> = view_of n h (set_space n h s)"
      by (rule system_eqI) simp_all
    ultimately show ?thesis
      using at_gate True by (intro sees_runs [of s n g]) (auto simp: runs_step)
  qed (use at_gate in \<open>auto intro: sees_nothing simp: view_other\<close>)
next
  case (write_return s t m g)
  show ?case
  proof (cases "m = n")
    case True
    then have "system_step (\<lambda>_. True) t (view_of n g s) (goes t Idle (view_of n g s))"
      using write_return by (intro system_step.write_return) simp_all
    then show ?thesis
      using write_return True by (intro sees_runs [of s n g]) (simp_all add: view_enters runs_step)
  qed (use write_return in \<open>auto intro: sees_nothing simp: view_enters goes_same\<close>)
next
  case (prepare_lock s t m names)
  show ?case
  proof (cases "m = n")
    case True
    then have w: "at_pc g' t = Outside \<or> has_handle (at_pc g' t)" "seen n (calls s t) = Idle"
      using waiting_at [of s t n "PrepareWait names" g'] prepare_lock by auto
    show ?thesis
      using prepare_lock runs_prepare_lock [OF w(2,1) prepare_lock(2)] True
      by (intro sees_runs) (simp_all add: view_enters)
  qed (use prepare_lock in \<open>auto intro: sees_nothing simp: view_enters view_other goes_same\<close>)
next
  case (prepare_insert s t m names)
  show ?case
  proof (cases "m = n")
    case True
    have "\<not> owns_map (snd (calls s u))" "\<not> guards_map (snd (calls s u))" if "u \<noteq> t" for u
      using prepare_insert that unfolding one_owner_def by (metis owns_map.simps(1) snd_conv)+
    then have "seen n (calls s u) = Idle" if "u \<noteq> t" for u
      using that seen_idle [of "snd (calls s u)" n "fst (calls s u)"] by simp
    then have "view_of n g' (enters t m Idle (create_space m names s)) = system_new (fresh_stores names)"
      using prepare_insert True by (intro system_eqI) (auto simp: fun_eq_iff)
    then show ?thesis using True by (simp add: sees_def)
  qed (use prepare_insert in \<open>auto intro: sees_nothing simp: view_enters view_other goes_same\<close>)
next
  case (prepare_current s t m names g)
  show ?case
  proof (cases "m = n")
    case True
    then have "system_step (\<lambda>_. True) t (view_of n g s)
        (goes t (PrepareNext (next_stores names (ns_stores (shared (gate (view_of n g s)))))) (view_of n g s))"
      using prepare_current by (intro system_step.prepare_current) simp
    then show ?thesis
      using prepare_current True by (intro sees_runs [of s n g]) (simp_all add: view_enters runs_step)
  qed (use prepare_current in \<open>auto intro: sees_nothing simp: view_enters goes_same\<close>)
next
  case (prepare_return s t m S g)
  show ?case
  proof (cases "m = n")
    case True
    then have "system_step (\<lambda>_. True) t (view_of n g s)
        (goes t Idle ((view_of n g s)\<lparr>gate := replace_stores S (gate (view_of n g s))\<rparr>))"
      using prepare_return by (intro system_step.prepare_return) simp
    then have "runs (view_of n g s) (goes t Idle ((view_of n g s)\<lparr>gate := replace_stores S (gate (view_of n g s))\<rparr>))"
      by (rule runs_step)
    also have "goes t Idle ((view_of n g s)\<lparr>gate := replace_stores S (gate (view_of n g s))\<rparr>) =
        goes t Idle (view_of n (replace_stores S g) s)"
      by (rule system_eqI) simp_all
    finally show ?thesis
      using prepare_return True by (intro sees_runs [of s n g]) (auto simp: view_enters view_other)
  qed (use prepare_return in \<open>auto intro: sees_nothing simp: view_enters view_other goes_same\<close>)
qed

lemma space_caller_seen:
  "space_caller t s s' \<Longrightarrow> spaces s' n = Some g' \<Longrightarrow> sees n g' s s'"
proof (induction rule: space_caller.induct)
  case (use_handle s t m g h)
  have idle: "seen n (calls s t) = Idle"
    using use_handle(1) by (cases "calls s t") (simp add: hands_free_def)
  show ?case
  proof (cases "m = n")
    case True
    have "caller_step t (view_of n g s) ((view_of n g s)\<lparr>gate := h\<rparr>)"
      using use_handle idle by (intro caller_step.use_handle) simp_all
    moreover have "(view_of n g s)\<lparr>gate := h\<rparr> = view_of n h (set_space n h s)"
      by (rule system_eqI) simp_all
    ultimately show ?thesis
      using use_handle True by (intro sees_runs [of s n g]) (auto simp: runs_caller)
  qed (use use_handle in \<open>auto intro: sees_nothing simp: view_other\<close>)
next
  case (wake s m g t h)
  show ?case
  proof (cases "m = n")
    case True
    have "caller_step t (view_of n g s) ((view_of n g s)\<lparr>gate := h\<rparr>)"
      using wake by (intro caller_step.wake) simp_all
    moreover have "(view_of n g s)\<lparr>gate := h\<rparr> = view_of n h (set_space n h s)"
      by (rule system_eqI) simp_all
    ultimately show ?thesis
      using wake True by (intro sees_runs [of s n g]) (auto simp: runs_caller)
  qed (use wake in \<open>auto intro: sees_nothing simp: view_other\<close>)
next
  case (call_read s t m)
  then have "seen n (calls s t) = Idle" by (cases "calls s t") (simp add: hands_free_def)
  then show ?case using call_read by (auto intro: sees_nothing simp: view_enters goes_same)
next
  case (call_prepare s t m names)
  then have "seen n (calls s t) = Idle" by (cases "calls s t") (simp add: hands_free_def)
  then show ?case using call_prepare by (auto intro: sees_nothing simp: view_enters goes_same)
next
  case (call_write s t m)
  then have "seen n (calls s t) = Idle" by (cases "calls s t") (simp add: hands_free_def)
  then show ?case using call_write by (auto intro: sees_nothing simp: view_enters goes_same)
qed

text \<open>Every namespace is a run of the system of one.\<close>

lemma namespace_runs:
  "backend_reachable pol s \<Longrightarrow> spaces s n = Some g \<Longrightarrow>
   system_reachable (\<lambda>_. True) (born s n) (view_of n g s)"
proof (induction arbitrary: g rule: backend_reachable.induct)
  case start
  then show ?case by (simp add: backend_new_def)
next
  case (backend s t s')
  from space_step_seen [OF backend.hyps(2) _ _ backend.prems] backend_reachable_inv [OF backend.hyps(1)]
  have "sees n g s s'" by blast
  then show ?case
    using backend.IH by (auto simp: sees_def intro: system_reachable.start runs_reachable)
next
  case (caller s t s')
  from space_caller_seen [OF caller.hyps(2) caller.prems]
  show ?case
    using caller.IH by (auto simp: sees_def intro: system_reachable.start runs_reachable)
qed

section \<open>A \<open>prepare\<close> of any namespace beside a writer\<close>

text \<open>
  A thread that has a write handle on \<open>n\<close> is about to call \<open>prepare\<close>, of any namespace, and another
  one waits for the gate of \<open>n\<close> in \<open>write\<close>.
\<close>

definition embraced_at :: "name \<Rightarrow> thread \<Rightarrow> thread \<Rightarrow> backend_state \<Rightarrow> bool" where
  "embraced_at n t u s \<longleftrightarrow>
     (\<exists>m names. calls s t = (m, PrepareWait names)) \<and> calls s u = (n, InWrite) \<and>
     (\<exists>g. spaces s n = Some g \<and> has_handle (at_pc g t) \<and> at_pc g u \<in> {Locking, Testing, Waiting, Woken})"

definition any_space_step :: "(backend_state \<Rightarrow> bool) \<Rightarrow> backend_state \<Rightarrow> backend_state \<Rightarrow> bool" where
  "any_space_step pol s s' \<longleftrightarrow> (\<exists>t. space_step pol t s s' \<or> space_caller t s s')"

lemma embraced_at_space:
  assumes "embraced_at n t u s" "spaces s m = Some g"
    and "m = n \<Longrightarrow> has_handle (at_pc g t) \<Longrightarrow> at_pc g u \<in> {Locking, Testing, Waiting, Woken} \<Longrightarrow>
         has_handle (at_pc g' t) \<and> at_pc g' u \<in> {Locking, Testing, Waiting, Woken}"
  shows "embraced_at n t u (set_space m g' s)"
  using assms unfolding embraced_at_def by (cases "m = n") auto

lemma embraced_at_enters:
  "embraced_at n t u s \<Longrightarrow> v \<noteq> t \<Longrightarrow> v \<noteq> u \<Longrightarrow> embraced_at n t u (enters v m c s)"
  by (simp add: embraced_at_def)

lemma embraced_at_others:
  "embraced_at n t u (hand_stores m S s) = embraced_at n t u s"
  "embraced_at n t u (count_prepare m s) = embraced_at n t u s"
  "spaces s m = None \<Longrightarrow> embraced_at n t u s \<Longrightarrow> embraced_at n t u (create_space m names s)"
  by (auto simp: embraced_at_def)

lemma gate_of_space:
  assumes "backend_reachable pol s" "spaces s n = Some g"
  shows "owner_inv g"
  using system_reachable_inv [OF namespace_runs [OF assms]] by (simp add: system_inv_def gate_inv_def)

lemma embraced_at_step:
  assumes "space_step pol v s s'" "backend_reachable pol s" "embraced_at n t u s"
  shows "embraced_at n t u s' \<and> calls s' t = calls s t \<and> calls s' u = calls s u"
  using assms
proof (induction rule: space_step.induct)
  case (at_gate s m g v g')
  have "embraced_at n t u (set_space m g' s)"
    by (rule embraced_at_space [OF at_gate(4,1)])
      (rule gate_step_others [OF at_gate(2) gate_of_space [OF at_gate(3,1)]])
  then show ?case by simp
next
  case (write_lock s v m g)
  then have "v \<noteq> t" "v \<noteq> u" by (auto simp: embraced_at_def)
  moreover have "embraced_at n t u (set_space m (move v Locking g) s)"
    using write_lock calculation by (intro embraced_at_space [OF write_lock(5,3)]) simp
  ultimately show ?case by (simp add: embraced_at_enters)
next
  case (write_return s v m g)
  then have "v \<noteq> t" "v \<noteq> u" by (auto simp: embraced_at_def has_handle_def)
  with write_return show ?case by (simp add: embraced_at_enters)
next
  case (prepare_lock s v m names)
  have "guards_map (snd (calls s u))" using prepare_lock by (auto simp: embraced_at_def)
  then show ?case using prepare_lock by (auto simp: may_write_map_def)
next
  case (prepare_return s v m S g)
  then have "v \<noteq> t" "v \<noteq> u" by (auto simp: embraced_at_def)
  moreover have "embraced_at n t u (set_space m (replace_stores S g) s)"
    by (intro embraced_at_space [OF prepare_return(4,2)]) simp
  ultimately show ?case by (simp add: embraced_at_enters)
next
  case (prepare_insert s v m names)
  then have "v \<noteq> t" "v \<noteq> u" by (auto simp: embraced_at_def)
  with prepare_insert show ?case by (simp add: embraced_at_enters embraced_at_others)
next
  case (read_lock s v m)
  then have "v \<noteq> t" "v \<noteq> u" by (auto simp: embraced_at_def)
  with read_lock show ?case by (simp add: embraced_at_enters)
next
  case (read_return s v m g)
  then have "v \<noteq> t" "v \<noteq> u" by (auto simp: embraced_at_def)
  with read_return show ?case by (simp add: embraced_at_enters embraced_at_others)
next
  case (read_panic s v m)
  then have "v \<noteq> t" "v \<noteq> u" by (auto simp: embraced_at_def)
  with read_panic show ?case by (simp add: embraced_at_enters)
next
  case (write_panic s v m)
  then have "v \<noteq> t" "v \<noteq> u" by (auto simp: embraced_at_def)
  with write_panic show ?case by (simp add: embraced_at_enters)
next
  case (prepare_current s v m names g)
  then have "v \<noteq> t" "v \<noteq> u" by (auto simp: embraced_at_def)
  with prepare_current show ?case by (simp add: embraced_at_enters)
qed

lemma hands_free_not_embraced: "hands_free s v \<Longrightarrow> embraced_at n t u s \<Longrightarrow> v \<noteq> t \<and> v \<noteq> u"
  by (auto simp: embraced_at_def hands_free_def)

lemma embraced_at_caller:
  assumes "space_caller v s s'" "embraced_at n t u s"
  shows "embraced_at n t u s' \<and> calls s' t = calls s t \<and> calls s' u = calls s u"
  using assms
proof (induction rule: space_caller.induct)
  case (use_handle s v m g g')
  then have v: "v \<noteq> t" "v \<noteq> u" using hands_free_not_embraced by blast+
  have "embraced_at n t u (set_space m g' s)"
    using use_handle(4) v
    by (intro embraced_at_space [OF use_handle(5,2)]) (elim client_stepE; simp)
  then show ?case by simp
next
  case (wake s m g v g')
  have "embraced_at n t u (set_space m g' s)"
    using wake(2,3)
    by (intro embraced_at_space [OF wake(4,1)]) (elim client_stepE; auto simp: has_handle_def)
  then show ?case by simp
qed (use hands_free_not_embraced in \<open>force simp: embraced_at_enters\<close>)+

lemma embraced_at_forever:
  assumes "(any_space_step pol)\<^sup>*\<^sup>* s s'" "backend_reachable pol s" "embraced_at n t u s"
  shows "backend_reachable pol s' \<and> embraced_at n t u s' \<and> calls s' t = calls s t \<and> calls s' u = calls s u"
  using assms(1)
proof (induction rule: rtranclp_induct)
  case (step s1 s2)
  then obtain v where "space_step pol v s1 s2 \<or> space_caller v s1 s2" by (auto simp: any_space_step_def)
  then show ?case
    using step.IH embraced_at_step [of pol v s1 s2 n t u] embraced_at_caller [of v s1 s2 n t u]
      backend_reachable.backend backend_reachable.caller by metis
qed (use assms in simp)

section \<open>Runs\<close>

definition all_idle :: "backend_state \<Rightarrow> bool" where
  "all_idle s \<longleftrightarrow> (\<forall>t. snd (calls s t) = Idle)"

lemma backend_eqI:
  "spaces a = spaces b \<Longrightarrow> calls a = calls b \<Longrightarrow> handed a = handed b \<Longrightarrow> prepares a = prepares b \<Longrightarrow> born a = born b \<Longrightarrow>
   a = (b :: backend_state)"
  by simp

lemma enters_enters: "enters t n c (enters t n d s) = enters t n c s"
  by (simp add: enters_def)

lemma reach_create:
  assumes s: "backend_reachable pol s" and idle: "all_idle s" and t: "hands_free s t" and n: "spaces s n = None"
  shows "backend_reachable pol (enters t n Idle (create_space n names s))"
proof -
  let ?s1 = "enters t n (PrepareWait names) s"
  let ?s2 = "enters t n (PrepareHeld names) (count_prepare n ?s1)"
  let ?s3 = "enters t n Idle (create_space n names ?s2)"
  have s1: "backend_reachable pol ?s1"
    by (rule backend_reachable.caller [OF s space_caller.call_prepare [OF t]])
  have "space_step pol t ?s1 ?s2"
    using idle by (intro space_step.prepare_lock) (simp_all add: may_write_map_def all_idle_def)
  note s2 = backend_reachable.backend [OF s1 this]
  have "space_step pol t ?s2 ?s3"
    using n by (intro space_step.prepare_insert) simp_all
  note s3 = backend_reachable.backend [OF s2 this]
  moreover have "?s3 = enters t n Idle (create_space n names s)"
    by (rule backend_eqI) (simp_all add: fun_eq_iff)
  ultimately show ?thesis by simp
qed

lemma reach_at_gate:
  "backend_reachable pol (enters t n c (set_space n g s)) \<Longrightarrow> gate_step t g g' \<Longrightarrow>
   backend_reachable pol (enters t n c (set_space n g' s))"
proof -
  assume s: "backend_reachable pol (enters t n c (set_space n g s))" and step: "gate_step t g g'"
  have "space_step pol t (enters t n c (set_space n g s)) (set_space n g' (enters t n c (set_space n g s)))"
    by (rule space_step.at_gate [OF _ step]) simp
  moreover have "set_space n g' (enters t n c (set_space n g s)) = enters t n c (set_space n g' s)"
    by (rule backend_eqI) simp_all
  ultimately show ?thesis using backend_reachable.backend [OF s] by simp
qed

lemma reach_open_handle:
  assumes s: "backend_reachable pol s" and idle: "all_idle s" and t: "hands_free s t"
    and n: "spaces s n = Some g" "at_pc g t = Outside" and gate_free: "mutex g = None" "\<not> writer_open (shared g)"
  shows "backend_reachable pol
           (enters t n Idle (set_space n (move t (Writing [] (ns_stores (shared g))) (set_open True g)) s))"
proof -
  let ?g1 = "move t Locking g"
  let ?g2 = "move t Testing (?g1\<lparr>mutex := Some t\<rparr>)"
  let ?g3 = "move t Opened (set_open True ?g2)"
  let ?g4 = "move t Permitted (?g3\<lparr>mutex := None\<rparr>)"
  let ?g5 = "move t (Writing [] (ns_stores (shared g))) ?g4"
  let ?s0 = "enters t n WriteWait s"
  have s0: "backend_reachable pol ?s0"
    by (rule backend_reachable.caller [OF s space_caller.call_write [OF t]]) (use n in simp)
  have "space_step pol t ?s0 (enters t n InWrite (set_space n ?g1 ?s0))"
    using idle n by (intro space_step.write_lock) (simp_all add: may_read_map_def all_idle_def)
  moreover have "enters t n InWrite (set_space n ?g1 ?s0) = enters t n InWrite (set_space n ?g1 s)"
    by (rule backend_eqI) simp_all
  ultimately have "backend_reachable pol (enters t n InWrite (set_space n ?g1 s))"
    using backend_reachable.backend [OF s0] by simp
  moreover have "gate_step t ?g1 ?g2" "gate_step t ?g2 ?g3" "gate_step t ?g3 ?g4"
    using gate_free by (auto intro!: gate_step.lock gate_step.take gate_step.leave)
  moreover have "gate_step t ?g4 ?g5" using gate_step.copy [of ?g4 t] by simp
  ultimately have s5: "backend_reachable pol (enters t n InWrite (set_space n ?g5 s))"
    by (blast intro: reach_at_gate)
  have "space_step pol t (enters t n InWrite (set_space n ?g5 s)) (enters t n Idle (enters t n InWrite (set_space n ?g5 s)))"
    by (rule space_step.write_return [where g = ?g5]) (simp_all add: has_handle_def)
  from backend_reachable.backend [OF s5 this]
  have "backend_reachable pol (enters t n Idle (set_space n ?g5 s))" by (simp add: enters_enters)
  moreover have "?g5 = move t (Writing [] (ns_stores (shared g))) (set_open True g)"
    using gate_free(1) by (cases g) (simp add: move_def set_open_def)
  ultimately show ?thesis by simp
qed

lemma reach_client:
  "backend_reachable pol s \<Longrightarrow> hands_free s t \<Longrightarrow> spaces s n = Some g \<Longrightarrow> at_pc g t = Writing es S \<Longrightarrow>
   client_step t g g' \<Longrightarrow> backend_reachable pol (set_space n g' s)"
  by (rule backend_reachable.caller, assumption, rule space_caller.use_handle) (auto simp: has_handle_def)

text \<open>
  Thread 0 creates the first namespace and edits its store through a write handle, thread 1 creates
  the second one meanwhile, then thread 0 commits.
\<close>

abbreviation users :: name where "users \<equiv> ''users''"
abbreviation logs :: name where "logs \<equiv> ''logs''"

definition users_new :: stores where
  "users_new = fresh_stores [''__main'']"

definition users_editing :: threads where
  "users_editing = move 0 (Writing [main_set] (apply_edit main_set users_new)) (set_open True (threads_new users_new))"

definition two_spaces :: backend_state where
  "two_spaces = enters 1 logs Idle (create_space logs [''events'']
     (set_space users users_editing (enters 0 users Idle (create_space users [''__main''] backend_new))))"

lemma users_new_there: "users_new (edited_store main_set) \<noteq> None"
  by (simp add: users_new_def fresh_stores_def collect_map_def main_set_def)

lemma two_spaces_reachable: "backend_reachable pol two_spaces"
proof -
  let ?s1 = "enters 0 users Idle (create_space users [''__main''] backend_new)"
  let ?g2 = "move 0 (Writing [] users_new) (set_open True (threads_new users_new))"
  let ?s2 = "set_space users ?g2 ?s1" and ?s3 = "set_space users users_editing ?s1"
  have at: "threads_new (fresh_stores [''__main'']) = threads_new users_new" by (simp add: users_new_def)
  have s1: "backend_reachable pol ?s1"
    by (rule reach_create [OF backend_reachable.start]) (simp_all add: all_idle_def hands_free_def backend_new_def)
  have "backend_reachable pol (enters 0 users Idle (set_space users ?g2 ?s1))"
    using reach_open_handle [OF s1, of 0 users "threads_new users_new"]
    by (simp add: all_idle_def hands_free_def backend_new_def at)
  moreover have "enters 0 users Idle (set_space users ?g2 ?s1) = ?s2"
    by (rule backend_eqI) simp_all
  ultimately have s2: "backend_reachable pol ?s2" by simp
  have "client_step 0 ?g2 (move 0 (Writing ([] @ [main_set]) (apply_edit main_set users_new)) ?g2)"
    using users_new_there by (intro client_step.edit) simp_all
  moreover have "move 0 (Writing ([] @ [main_set]) (apply_edit main_set users_new)) ?g2 = users_editing"
    by (simp add: users_editing_def move_def set_open_def)
  ultimately have "backend_reachable pol (set_space users users_editing ?s2)"
    by (intro reach_client [OF s2, where t = 0 and g = ?g2 and es = "[]" and S = users_new])
      (simp_all add: hands_free_def has_handle_def backend_new_def)
  moreover have "set_space users users_editing ?s2 = ?s3"
    by (rule backend_eqI) simp_all
  ultimately have "backend_reachable pol ?s3" by simp
  then show ?thesis
    unfolding two_spaces_def
    by (rule reach_create) (simp_all add: all_idle_def hands_free_def backend_new_def users_editing_def)
qed

section \<open>Properties\<close>

text \<open>C27: Namespaces of the in-memory backend are independent, under any threads and with namespaces
  created on the way. What happens on one namespace is a run of the system of that namespace alone,
  from the stores it was created with. So as long as no later \<open>prepare\<close> of it got the lock, its
  published stores are its own committed transactions one after the other, every write handle on it
  has staged its edits on top of all of them, and its read handles see ever longer prefixes of
  them, whatever was called on the other namespaces.\<close>

lemma namespaces_isolated:
  assumes "backend_reachable pol s" and "spaces s n = Some g"
  shows "system_reachable (\<lambda>_. True) (born s n) (view_of n g s) \<and>
         (prepares s n = 0 \<longrightarrow>
            ns_stores (shared g) = replay (journal g) (born s n) \<and>
            (\<forall>t es T. at_pc g t = Writing es T \<longrightarrow> T = replay (journal g @ [es]) (born s n)) \<and>
            (\<exists>ks. sorted ks \<and> set ks \<subseteq> {..length (journal g)} \<and>
               handed s n = List.map (\<lambda>k. replay (take k (journal g)) (born s n)) ks))"
  using namespace_runs [OF assms] snapshot_isolation [OF namespace_runs [OF assms]] by simp

lemma namespaces_isolated_witness:
  "\<exists>s g. backend_reachable (\<lambda>_. False) s \<and> spaces s users = Some g \<and> spaces s logs \<noteq> None \<and>
     journal g = [[main_set]] \<and> ns_stores (shared g) = apply_edit main_set users_new"
proof -
  let ?g = "move 0 Dropping (publish [main_set] (apply_edit main_set users_new) users_editing)"
  let ?s = "set_space users ?g two_spaces"
  have "client_step 0 users_editing ?g"
    by (rule client_step.commit) (simp add: users_editing_def)
  then have reach: "backend_reachable (\<lambda>_. False) ?s"
    by (intro reach_client [OF two_spaces_reachable, where t = 0 and g = users_editing])
      (simp_all add: two_spaces_def hands_free_def has_handle_def backend_new_def users_editing_def)
  have at: "spaces ?s users = Some ?g" "prepares ?s users = 0" "born ?s users = users_new"
    by (simp_all add: two_spaces_def users_new_def)
  have "ns_stores (shared ?g) = replay (journal ?g) users_new"
    using namespaces_isolated [OF reach at(1)] at(2,3) by simp
  then show ?thesis
    using reach at(1) by (intro exI [of _ ?s] exI [of _ ?g]) (simp add: two_spaces_def users_editing_def replay_def)
qed

text \<open>C35: \<open>prepare\<close> can hang for ever, of whatever namespace. \<open>write\<close> waits for the writer gate of its
  namespace while it holds the map of all namespaces locked for reading. If a thread that has a
  write handle calls \<open>prepare\<close>, even to create another namespace, while another thread waits in
  \<open>write\<close> for that handle, then in every continuation, whatever all threads do and under any policy
  of the \<open>RwLock\<close>, neither call ever returns.\<close>

lemma prepare_elsewhere_hangs:
  assumes "backend_reachable pol s" and "calls s t = (m, PrepareWait names)" and "calls s u = (n, InWrite)"
    and "spaces s n = Some g" and "has_handle (at_pc g t)" and "at_pc g u \<in> {Locking, Testing, Waiting, Woken}"
    and "(any_space_step pol)\<^sup>*\<^sup>* s s'"
  shows "calls s' t = (m, PrepareWait names) \<and> calls s' u = (n, InWrite) \<and>
         (\<exists>g'. spaces s' n = Some g' \<and> \<not> has_handle (at_pc g' u))"
proof -
  have "embraced_at n t u s" using assms(2-6) by (auto simp: embraced_at_def)
  from embraced_at_forever [OF assms(7,1) this] show ?thesis
    using assms(2,3) by (auto simp: embraced_at_def has_handle_def)
qed

text \<open>Thread 0 has a write handle on the first namespace and creates a third one.\<close>

definition entangled :: backend_state where
  "entangled = enters 0 ''audit'' (PrepareWait [''__main''])
     (enters 2 users InWrite (set_space users (move 2 Locking users_editing) two_spaces))"

lemma two_spaces_simps [simp]:
  "spaces two_spaces = [users \<mapsto> users_editing, logs \<mapsto> threads_new (fresh_stores [''events''])]"
  "calls two_spaces = (\<lambda>_. ([], Idle))(0 := (users, Idle), 1 := (logs, Idle))"
  by (auto simp: two_spaces_def backend_new_def fun_eq_iff)

lemma entangled_reachable: "backend_reachable pol entangled"
proof -
  let ?s1 = "enters 2 users WriteWait two_spaces"
  let ?s2 = "enters 2 users InWrite (set_space users (move 2 Locking users_editing) ?s1)"
  let ?s3 = "enters 2 users InWrite (set_space users (move 2 Locking users_editing) two_spaces)"
  have "space_caller 2 two_spaces ?s1"
    by (rule space_caller.call_write) (auto simp: hands_free_def users_editing_def split: if_splits)
  note s1 = backend_reachable.caller [OF two_spaces_reachable this]
  have "space_step pol 2 ?s1 ?s2"
    by (rule space_step.write_lock) (auto simp: may_read_map_def)
  note s2 = backend_reachable.backend [OF s1 this]
  moreover have "?s2 = ?s3" by (rule backend_eqI) simp_all
  ultimately have s3: "backend_reachable pol ?s3" by simp
  have "space_caller 0 ?s3 (enters 0 ''audit'' (PrepareWait [''__main'']) ?s3)"
    by (rule space_caller.call_prepare) (auto simp: hands_free_def users_editing_def has_handle_def split: if_splits)
  from backend_reachable.caller [OF s3 this] show ?thesis by (simp add: entangled_def)
qed

lemma prepare_elsewhere_hangs_witness:
  "backend_reachable (\<lambda>_. True) entangled \<and>
   {s'. (any_space_step (\<lambda>_. True))\<^sup>*\<^sup>* entangled s'} \<subseteq>
   {s'. calls s' 0 = (''audit'', PrepareWait [''__main'']) \<and> calls s' 2 = (users, InWrite)}"
proof -
  have at: "calls entangled 0 = (''audit'', PrepareWait [''__main''])" "calls entangled 2 = (users, InWrite)"
    "spaces entangled users = Some (move 2 Locking users_editing)"
    "has_handle (at_pc (move 2 Locking users_editing) 0)"
    "at_pc (move 2 Locking users_editing) 2 \<in> {Locking, Testing, Waiting, Woken}"
    by (simp_all add: entangled_def users_editing_def has_handle_def)
  show ?thesis
    using entangled_reachable prepare_elsewhere_hangs [OF entangled_reachable at] by blast
qed

end
