(* ===== verification/Redb_Threads.thy ===== *)
theory Redb_Threads
  imports Redb_Spec Gate
begin

text \<open>
  The calls of the redb backend by many threads. \<open>read\<close> and \<open>write\<close> of \<open>src/backend/redb.rs\<close> copy the
  registry of prepared tables under a read guard of its \<open>RwLock\<close>, which is a temporary of the
  expression that ends the function: it is held until the call returns, in \<open>write\<close> while
  \<open>begin_write\<close> waits for the open transaction. \<open>prepare\<close> takes the lock for writing only after its
  own transaction is committed. The database is the parameter of the crate; its documentation
  lets one write transaction be open at a time, \<open>begin_write\<close> waits for it, and \<open>begin_read\<close> never
  waits. As for the other \<open>RwLock\<close>, whether a reader may overtake a waiting writer is a
  parameter of the steps. When a table cannot be opened, \<open>prepare\<close> drops its transaction; the step
  aborts it as it was begun, since the tables it has created by then are forgotten with it.
\<close>

section \<open>State\<close>

text \<open>
  The call a thread is in: none; \<open>read\<close> or \<open>write\<close> before the lock of the registry, and with the
  read guard and the copied registry; \<open>prepare\<close> before its transaction, with it open, and after
  its commit, before the lock.
\<close>

datatype 'wtx redb_call =
    RIdle
  | RReadWait name | RReadHeld name prepared_tables
  | RWriteWait name | RWriteHeld name prepared_tables
  | RPrepareWait name "name list" | RPrepareOpen name "name list" 'wtx | RPublish name "name list"

fun guards_registry :: "'wtx redb_call \<Rightarrow> bool" where
  "guards_registry (RReadHeld ns reg) = True" | "guards_registry (RWriteHeld ns reg) = True"
| "guards_registry c = False"

fun wants_registry :: "'wtx redb_call \<Rightarrow> bool" where
  "wants_registry (RPublish ns names) = True" | "wants_registry c = False"

fun prepares_open :: "'wtx redb_call \<Rightarrow> bool" where
  "prepares_open (RPrepareOpen ns names tx) = True" | "prepares_open c = False"

text \<open>
  The read handles that were given out and the calls of \<open>prepare\<close> that published their tables are
  recorded for the statements.
\<close>

record ('db, 'rtx, 'wtx) redb_system =
  shared_store :: "'db redb_multi_store"
  in_call :: "thread \<Rightarrow> 'wtx redb_call"
  write_handles :: "thread \<Rightarrow> 'wtx redb_write_handle option"
  readers :: "'rtx redb_read_handle list"
  published :: "(name \<times> name list) list"

definition redb_start :: "'db \<Rightarrow> ('db, 'rtx, 'wtx) redb_system" where
  "redb_start db = \<lparr>shared_store = redb_from_database db, in_call = (\<lambda>_. RIdle), write_handles = (\<lambda>_. None),
                    readers = [], published = []\<rparr>"

definition calls_now :: "thread \<Rightarrow> 'wtx redb_call \<Rightarrow> ('db, 'rtx, 'wtx) redb_system \<Rightarrow> ('db, 'rtx, 'wtx) redb_system" where
  "calls_now t c s = s\<lparr>in_call := (in_call s)(t := c)\<rparr>"

definition holds_now ::
  "thread \<Rightarrow> 'wtx redb_write_handle option \<Rightarrow> ('db, 'rtx, 'wtx) redb_system \<Rightarrow> ('db, 'rtx, 'wtx) redb_system" where
  "holds_now t h s = s\<lparr>write_handles := (write_handles s)(t := h)\<rparr>"

definition set_db :: "'db \<Rightarrow> ('db, 'rtx, 'wtx) redb_system \<Rightarrow> ('db, 'rtx, 'wtx) redb_system" where
  "set_db db s = s\<lparr>shared_store := (shared_store s)\<lparr>rms_db := db\<rparr>\<rparr>"

text \<open>The last lines of \<open>prepare\<close>, under the write guard of the registry.\<close>

definition publish_registry :: "name \<Rightarrow> name list \<Rightarrow> prepared_tables \<Rightarrow> prepared_tables" where
  "publish_registry ns names reg =
     (let prepared = List.map (\<lambda>store. ((ns, store), table_name ns store)) names;
          retained = (\<lambda>k. if fst k \<noteq> ns then reg k else None)
      in fold (\<lambda>(key, t) m. m(key \<mapsto> t)) prepared retained)"

definition set_registry ::
  "name \<Rightarrow> name list \<Rightarrow> ('db, 'rtx, 'wtx) redb_system \<Rightarrow> ('db, 'rtx, 'wtx) redb_system" where
  "set_registry ns names s =
     s\<lparr>shared_store := (shared_store s)\<lparr>rms_tables := publish_registry ns names (rms_tables (shared_store s))\<rparr>,
       published := published s @ [(ns, names)]\<rparr>"

definition hand_out :: "'rtx redb_read_handle \<Rightarrow> ('db, 'rtx, 'wtx) redb_system \<Rightarrow> ('db, 'rtx, 'wtx) redb_system" where
  "hand_out rh s = s\<lparr>readers := readers s @ [rh]\<rparr>"

text \<open>A thread with an open write transaction: its own, or that of a \<open>prepare\<close> it is in.\<close>

definition transacts :: "('db, 'rtx, 'wtx) redb_system \<Rightarrow> thread \<Rightarrow> bool" where
  "transacts s t \<longleftrightarrow> write_handles s t \<noteq> None \<or> prepares_open (in_call s t)"

definition may_begin :: "('db, 'rtx, 'wtx) redb_system \<Rightarrow> bool" where
  "may_begin s \<longleftrightarrow> (\<forall>t. \<not> transacts s t)"

text \<open>The \<open>RwLock\<close> around the registry.\<close>

definition may_copy :: "(('db, 'rtx, 'wtx) redb_system \<Rightarrow> bool) \<Rightarrow> ('db, 'rtx, 'wtx) redb_system \<Rightarrow> bool" where
  "may_copy pol s \<longleftrightarrow> (\<forall>t. \<not> wants_registry (in_call s t)) \<or> pol s"

definition may_publish :: "('db, 'rtx, 'wtx) redb_system \<Rightarrow> bool" where
  "may_publish s \<longleftrightarrow> (\<forall>t. \<not> guards_registry (in_call s t))"

section \<open>Steps\<close>

text \<open>
  The steps of the backend. A call that fails gives its guard back, and \<open>prepare\<close> drops its
  transaction.
\<close>

inductive redb_step ::
  "('db, 'rtx, 'rtab, 'wtx, 'wtab) redb_crate \<Rightarrow> (('db, 'rtx, 'wtx) redb_system \<Rightarrow> bool) \<Rightarrow> thread \<Rightarrow>
   ('db, 'rtx, 'wtx) redb_system \<Rightarrow> ('db, 'rtx, 'wtx) redb_system \<Rightarrow> bool" for C pol where
  read_copy: "in_call s t = RReadWait ns \<Longrightarrow> may_copy pol s \<Longrightarrow>
    redb_step C pol t s (calls_now t (RReadHeld ns (rms_tables (shared_store s))) s)"
| read_begin: "in_call s t = RReadHeld ns reg \<Longrightarrow> begin_read C (rms_db (shared_store s)) = Ret rtx \<Longrightarrow>
    redb_step C pol t s
      (calls_now t RIdle (hand_out \<lparr>rrh_namespace = ns, rrh_tables = reg, rrh_read = rtx\<rparr> s))"
| read_fail: "in_call s t = RReadHeld ns reg \<Longrightarrow> begin_read C (rms_db (shared_store s)) = Fail e \<Longrightarrow>
    redb_step C pol t s (calls_now t RIdle s)"
| write_copy: "in_call s t = RWriteWait ns \<Longrightarrow> may_copy pol s \<Longrightarrow>
    redb_step C pol t s (calls_now t (RWriteHeld ns (rms_tables (shared_store s))) s)"
| write_begin: "in_call s t = RWriteHeld ns reg \<Longrightarrow> may_begin s \<Longrightarrow>
    begin_write C (rms_db (shared_store s)) = Ret (tx, db) \<Longrightarrow>
    redb_step C pol t s
      (calls_now t RIdle (holds_now t (Some \<lparr>rwh_namespace = ns, rwh_tables = reg, rwh_write = tx\<rparr>) (set_db db s)))"
| write_fail: "in_call s t = RWriteHeld ns reg \<Longrightarrow> may_begin s \<Longrightarrow>
    begin_write C (rms_db (shared_store s)) = Fail e \<Longrightarrow> redb_step C pol t s (calls_now t RIdle s)"
| prepare_begin: "in_call s t = RPrepareWait ns names \<Longrightarrow> may_begin s \<Longrightarrow>
    begin_write C (rms_db (shared_store s)) = Ret (tx, db) \<Longrightarrow>
    redb_step C pol t s (calls_now t (RPrepareOpen ns names tx) (set_db db s))"
| prepare_fail: "in_call s t = RPrepareWait ns names \<Longrightarrow> may_begin s \<Longrightarrow>
    begin_write C (rms_db (shared_store s)) = Fail e \<Longrightarrow> redb_step C pol t s (calls_now t RIdle s)"
| prepare_commit: "in_call s t = RPrepareOpen ns names tx \<Longrightarrow>
    open_all C (List.map (table_name ns) names) tx = Ret tx' \<Longrightarrow>
    wtx_commit C tx' (rms_db (shared_store s)) = (Ret (), db) \<Longrightarrow>
    redb_step C pol t s (calls_now t (RPublish ns names) (set_db db s))"
| prepare_commit_fail: "in_call s t = RPrepareOpen ns names tx \<Longrightarrow>
    open_all C (List.map (table_name ns) names) tx = Ret tx' \<Longrightarrow>
    wtx_commit C tx' (rms_db (shared_store s)) = (Fail e, db) \<Longrightarrow>
    redb_step C pol t s (calls_now t RIdle (set_db db s))"
| prepare_open_fail: "in_call s t = RPrepareOpen ns names tx \<Longrightarrow>
    open_all C (List.map (table_name ns) names) tx = Fail e \<Longrightarrow>
    redb_step C pol t s (calls_now t RIdle (set_db (wtx_abort C tx (rms_db (shared_store s))) s))"
| prepare_publish: "in_call s t = RPublish ns names \<Longrightarrow> may_publish s \<Longrightarrow>
    redb_step C pol t s (calls_now t RIdle (set_registry ns names s))"

text \<open>
  What the callers decide: to call, with a write handle or without; to set or remove a key
  through the handle; to commit it or drop it.
\<close>

inductive redb_caller_step ::
  "('db, 'rtx, 'rtab, 'wtx, 'wtab) redb_crate \<Rightarrow> thread \<Rightarrow>
   ('db, 'rtx, 'wtx) redb_system \<Rightarrow> ('db, 'rtx, 'wtx) redb_system \<Rightarrow> bool" for C where
  call_read: "in_call s t = RIdle \<Longrightarrow> redb_caller_step C t s (calls_now t (RReadWait ns) s)"
| call_write: "in_call s t = RIdle \<Longrightarrow> redb_caller_step C t s (calls_now t (RWriteWait ns) s)"
| call_prepare: "in_call s t = RIdle \<Longrightarrow> redb_caller_step C t s (calls_now t (RPrepareWait ns names) s)"
| handle_set: "in_call s t = RIdle \<Longrightarrow> write_handles s t = Some h \<Longrightarrow> redb_write_open C n h = Ret ws \<Longrightarrow>
    redb_set C k v ws = Ret ws' \<Longrightarrow> redb_caller_step C t s (holds_now t (Some (redb_close C ws')) s)"
| handle_remove: "in_call s t = RIdle \<Longrightarrow> write_handles s t = Some h \<Longrightarrow> redb_write_open C n h = Ret ws \<Longrightarrow>
    redb_remove C k ws = Ret ws' \<Longrightarrow> redb_caller_step C t s (holds_now t (Some (redb_close C ws')) s)"
| handle_commit: "in_call s t = RIdle \<Longrightarrow> write_handles s t = Some h \<Longrightarrow>
    wtx_commit C (rwh_write h) (rms_db (shared_store s)) = (res, db) \<Longrightarrow>
    redb_caller_step C t s (holds_now t None (set_db db s))"
| handle_drop: "in_call s t = RIdle \<Longrightarrow> write_handles s t = Some h \<Longrightarrow>
    redb_caller_step C t s (holds_now t None (set_db (wtx_abort C (rwh_write h) (rms_db (shared_store s))) s))"

inductive redb_reachable ::
  "('db, 'rtx, 'rtab, 'wtx, 'wtab) redb_crate \<Rightarrow> (('db, 'rtx, 'wtx) redb_system \<Rightarrow> bool) \<Rightarrow> 'db \<Rightarrow>
   ('db, 'rtx, 'wtx) redb_system \<Rightarrow> bool" for C pol db where
  start: "redb_reachable C pol db (redb_start db)"
| backend: "redb_reachable C pol db s \<Longrightarrow> redb_step C pol t s s' \<Longrightarrow> redb_reachable C pol db s'"
| caller: "redb_reachable C pol db s \<Longrightarrow> redb_caller_step C t s s' \<Longrightarrow> redb_reachable C pol db s'"

inductive_cases redb_stepE: "redb_step C pol t s s'"
inductive_cases redb_caller_stepE: "redb_caller_step C t s s'"

lemma redb_system_simps [simp]:
  "shared_store (calls_now t c s) = shared_store s" "in_call (calls_now t c s) = (in_call s)(t := c)"
  "write_handles (calls_now t c s) = write_handles s" "readers (calls_now t c s) = readers s"
  "published (calls_now t c s) = published s"
  "shared_store (holds_now t h s) = shared_store s" "in_call (holds_now t h s) = in_call s"
  "write_handles (holds_now t h s) = (write_handles s)(t := h)" "readers (holds_now t h s) = readers s"
  "published (holds_now t h s) = published s"
  "rms_db (shared_store (set_db db s)) = db" "rms_tables (shared_store (set_db db s)) = rms_tables (shared_store s)"
  "in_call (set_db db s) = in_call s" "write_handles (set_db db s) = write_handles s"
  "readers (set_db db s) = readers s" "published (set_db db s) = published s"
  "rms_db (shared_store (set_registry ns names s)) = rms_db (shared_store s)"
  "rms_tables (shared_store (set_registry ns names s)) = publish_registry ns names (rms_tables (shared_store s))"
  "in_call (set_registry ns names s) = in_call s" "write_handles (set_registry ns names s) = write_handles s"
  "readers (set_registry ns names s) = readers s" "published (set_registry ns names s) = published s @ [(ns, names)]"
  "shared_store (hand_out rh s) = shared_store s" "in_call (hand_out rh s) = in_call s"
  "write_handles (hand_out rh s) = write_handles s" "readers (hand_out rh s) = readers s @ [rh]"
  "published (hand_out rh s) = published s"
  by (simp_all add: calls_now_def holds_now_def set_db_def set_registry_def hand_out_def)

lemma redb_start_simps [simp]:
  "rms_db (shared_store (redb_start db)) = db" "rms_tables (shared_store (redb_start db)) = (\<lambda>_. None)"
  "in_call (redb_start db) = (\<lambda>_. RIdle)" "write_handles (redb_start db) = (\<lambda>_. None)"
  "readers (redb_start db) = []" "published (redb_start db) = []"
  by (simp_all add: redb_start_def redb_from_database_def)

lemma holds_same: "write_handles s t = h \<Longrightarrow> holds_now t h s = s"
  by (auto simp: holds_now_def)

lemma calls_same: "in_call s t = c \<Longrightarrow> calls_now t c s = s"
  by (auto simp: calls_now_def)

lemma publish_registry_next: "publish_registry ns names reg = next_registry ns names reg"
  by (simp add: publish_registry_def next_registry_fold)

text \<open>The steps of the lock are those of \<open>redb_prepare\<close> run by one thread.\<close>

lemma redb_prepare_publishes:
  "redb_prepare C ns names s =
     and_then (map_err redb_error (begin_write C (rms_db s))) (\<lambda>(tx, db).
     and_then (open_all C (List.map (table_name ns) names) tx) (\<lambda>tx.
     let (res, db) = wtx_commit C tx db in
     and_then (map_err redb_error res) (\<lambda>_.
     Ret (s\<lparr>rms_db := db, rms_tables := publish_registry ns names (rms_tables s)\<rparr>))))"
  by (simp add: redb_prepare_def publish_registry_def comp_def Let_def)

section \<open>The crate with threads\<close>

text \<open>A read transaction begins while a write transaction is open, and sees what is committed.\<close>

locale redb_threads =
  redb_backend storage_error C db_ready db_writing db_tables rtx_tables rtab_content wtx_ok wtx_tables wtab_ok wtab_open
  for storage_error and C :: "('db, 'rtx, 'rtab, 'wtx, 'wtab) redb_crate"
    and db_ready db_writing db_tables rtx_tables rtab_content wtx_ok wtx_tables wtab_ok wtab_open +
  assumes begin_read_busy_doc: "db_writing db \<Longrightarrow>
    refines storage_error (\<lambda>_. True) rtx_tables (begin_read C db) (Ret (db_tables db))"
begin

text \<open>A transaction has every table that is committed: tables are never deleted.\<close>

definition tx_inv :: "'db \<Rightarrow> 'wtx \<Rightarrow> bool" where
  "tx_inv db tx \<longleftrightarrow> wtx_ok tx \<and> dom (db_tables db) \<subseteq> dom (wtx_tables tx)"

fun call_ok :: "'db \<Rightarrow> 'wtx redb_call \<Rightarrow> bool" where
  "call_ok db (RReadHeld ns reg) \<longleftrightarrow> registered reg (db_tables db)"
| "call_ok db (RWriteHeld ns reg) \<longleftrightarrow> registered reg (db_tables db)"
| "call_ok db (RPrepareOpen ns names tx) \<longleftrightarrow> tx_inv db tx"
| "call_ok db (RPublish ns names) \<longleftrightarrow> table_name ns ` set names \<subseteq> dom (db_tables db)"
| "call_ok db c \<longleftrightarrow> True"

definition handle_ok :: "'db \<Rightarrow> 'wtx redb_write_handle \<Rightarrow> bool" where
  "handle_ok db h \<longleftrightarrow> tx_inv db (rwh_write h) \<and> registered (rwh_tables h) (db_tables db)"

definition reader_ok :: "'rtx redb_read_handle \<Rightarrow> bool" where
  "reader_ok rh \<longleftrightarrow> registered (rrh_tables rh) (rtx_tables (rrh_read rh))"

definition one_transaction :: "('db, 'rtx, 'wtx) redb_system \<Rightarrow> bool" where
  "one_transaction s \<longleftrightarrow>
     (\<forall>t. write_handles s t \<noteq> None \<longrightarrow> \<not> prepares_open (in_call s t)) \<and>
     (\<forall>t u. transacts s t \<and> transacts s u \<longrightarrow> t = u)"

definition threads_inv :: "('db, 'rtx, 'wtx) redb_system \<Rightarrow> bool" where
  "threads_inv s \<longleftrightarrow>
     (let db = rms_db (shared_store s) in
      (if may_begin s then db_ready db else db_writing db) \<and> one_transaction s \<and>
      registered (rms_tables (shared_store s)) (db_tables db) \<and> (\<forall>t. call_ok db (in_call s t)) \<and>
      (\<forall>t h. write_handles s t = Some h \<longrightarrow> handle_ok db h) \<and> (\<forall>rh \<in> set (readers s). reader_ok rh))"

lemma registered_mono: "registered reg T \<Longrightarrow> dom T \<subseteq> dom U \<Longrightarrow> registered reg U"
  unfolding registered_def by blast

text \<open>A transaction that begins leaves the committed tables, and starts from them.\<close>

lemma begin_write_tx:
  assumes "db_ready db" "begin_write C db = Ret (tx, db')"
  shows "tx_inv db tx" "db_writing db'" "db_tables db' = db_tables db"
  using begin_write_doc [OF assms(1)] by (simp_all add: assms(2) refines_def tx_inv_def)

lemma begin_read_tx:
  assumes "db_ready db \<or> db_writing db" "begin_read C db = Ret rtx"
  shows "rtx_tables rtx = db_tables db"
  using begin_read_doc [of db] begin_read_busy_doc [of db] assms by (auto simp: refines_def)

lemma call_ok_mono:
  "call_ok db c \<Longrightarrow> dom (db_tables db) \<subseteq> dom (db_tables db') \<Longrightarrow> \<not> prepares_open c \<Longrightarrow> call_ok db' c"
  by (cases c) (auto intro: registered_mono)

lemma call_ok_same: "db_tables db' = db_tables db \<Longrightarrow> call_ok db' c = call_ok db c"
  by (cases c) (simp_all add: tx_inv_def)

lemma handle_ok_same: "db_tables db' = db_tables db \<Longrightarrow> handle_ok db' h = handle_ok db h"
  by (simp add: handle_ok_def tx_inv_def)

text \<open>The one open transaction ends: the database is ready again, with at least its old tables.\<close>

lemma transaction_ends:
  assumes inv: "threads_inv s" and t: "transacts s t"
    and db: "db_ready db" "dom (db_tables (rms_db (shared_store s))) \<subseteq> dom (db_tables db)"
    and c: "\<not> prepares_open c" "call_ok db c"
  shows "threads_inv (calls_now t c (holds_now t None (set_db db s)))"
proof -
  have others: "\<not> transacts s u" if "u \<noteq> t" for u
    using inv t that by (auto simp: threads_inv_def one_transaction_def Let_def)
  then have quiet: "write_handles s u = None" "\<not> prepares_open (in_call s u)" if "u \<noteq> t" for u
    using that by (auto simp: transacts_def)
  have "call_ok db (in_call s u)" if "u \<noteq> t" for u
    using inv db(2) quiet(2) [OF that] by (auto simp: threads_inv_def Let_def intro: call_ok_mono)
  moreover have "registered (rms_tables (shared_store s)) (db_tables db)"
    using inv db(2) by (auto simp: threads_inv_def Let_def intro: registered_mono)
  moreover have "\<not> transacts (calls_now t c (holds_now t None (set_db db s))) u" for u
    using quiet [of u] c(1) by (auto simp: transacts_def)
  ultimately show ?thesis
    using inv db(1) c quiet(1)
    by (auto simp: threads_inv_def Let_def may_begin_def one_transaction_def)
qed

text \<open>A thread begins the only transaction.\<close>

lemma transaction_begins:
  assumes inv: "threads_inv s" and free: "may_begin s"
    and db: "db_writing db" "db_tables db = db_tables (rms_db (shared_store s))"
    and c: "call_ok db c" "\<forall>h'. h = Some h' \<longrightarrow> handle_ok db h'" and one: "h \<noteq> None \<longleftrightarrow> \<not> prepares_open c"
  shows "threads_inv (calls_now t c (holds_now t h (set_db db s)))"
proof -
  let ?s = "calls_now t c (holds_now t h (set_db db s))"
  have none: "write_handles s u = None" "\<not> prepares_open (in_call s u)" for u
    using free by (auto simp: may_begin_def transacts_def)
  have "transacts ?s u \<longleftrightarrow> u = t" for u
    using none [of u] one by (auto simp: transacts_def)
  then show ?thesis
    using inv db c one none call_ok_same [OF db(2)]
    by (auto simp: threads_inv_def Let_def may_begin_def one_transaction_def)
qed

text \<open>A thread goes on without a transaction of its own begun or ended.\<close>

lemma call_goes:
  assumes inv: "threads_inv s" and c: "call_ok (rms_db (shared_store s)) c"
    and same: "\<not> prepares_open c" "\<not> prepares_open (in_call s t)"
  shows "threads_inv (calls_now t c s)"
proof -
  have "transacts (calls_now t c s) = transacts s"
    using same by (auto simp: transacts_def fun_eq_iff)
  then show ?thesis
    using inv c same by (auto simp: threads_inv_def Let_def may_begin_def one_transaction_def)
qed

lemma threads_inv_read:
  assumes inv: "threads_inv s" and t: "in_call s t = RReadHeld ns reg"
    and rtx: "begin_read C (rms_db (shared_store s)) = Ret rtx"
  shows "threads_inv (hand_out \<lparr>rrh_namespace = ns, rrh_tables = reg, rrh_read = rtx\<rparr> s)"
proof -
  have "rtx_tables rtx = db_tables (rms_db (shared_store s))"
    by (rule begin_read_tx [OF _ rtx]) (use inv in \<open>auto simp: threads_inv_def Let_def split: if_splits\<close>)
  moreover have "call_ok (rms_db (shared_store s)) (in_call s t)"
    using inv by (auto simp: threads_inv_def Let_def)
  ultimately have "reader_ok \<lparr>rrh_namespace = ns, rrh_tables = reg, rrh_read = rtx\<rparr>"
    using t by (simp add: reader_ok_def)
  then show ?thesis
    using inv by (auto simp: threads_inv_def Let_def may_begin_def transacts_def one_transaction_def)
qed

text \<open>The tables of a \<open>prepare\<close> are there once it has committed.\<close>

lemma open_all_tx:
  assumes "tx_inv db tx" "open_all C ts tx = Ret tx'"
  shows "wtx_ok tx'" "dom (db_tables db) \<union> set ts \<subseteq> dom (wtx_tables tx')"
proof -
  have "wtx_ok tx'" "wtx_tables tx' = with_tables ts (wtx_tables tx)"
    using open_all_refines [of tx ts] assms by (auto simp: refines_def tx_inv_def)
  then show "wtx_ok tx'" "dom (db_tables db) \<union> set ts \<subseteq> dom (wtx_tables tx')"
    using assms(1) by (auto simp: tx_inv_def with_tables_eq dom_def)
qed

lemma prepare_commit_inv:
  assumes inv: "threads_inv s" and t: "in_call s t = RPrepareOpen ns names tx"
    and opened_all: "open_all C (List.map (table_name ns) names) tx = Ret tx'"
    and commit: "wtx_commit C tx' (rms_db (shared_store s)) = (res, db)"
  shows "threads_inv (calls_now t (if res = Ret () then RPublish ns names else RIdle) (holds_now t None (set_db db s)))"
proof -
  have "transacts s t" using t by (simp add: transacts_def)
  then have "db_writing (rms_db (shared_store s))"
    using inv by (auto simp: threads_inv_def Let_def may_begin_def split: if_splits)
  moreover have "tx_inv (rms_db (shared_store s)) tx"
    using inv t unfolding threads_inv_def Let_def by (metis call_ok.simps(3))
  note tx' = open_all_tx [OF this opened_all]
  ultimately have "db_ready db" "dom (db_tables (rms_db (shared_store s))) \<subseteq> dom (db_tables db)"
    "res = Ret () \<Longrightarrow> db_tables db = wtx_tables tx'"
    using commit_doc [OF _ tx'(1) commit] tx'(2) by auto
  then show ?thesis
    using tx'(2) \<open>transacts s t\<close> by (intro transaction_ends [OF inv]) simp_all
qed

lemma handle_edit_inv:
  assumes inv: "threads_inv s" and h: "write_handles s t = Some h"
    and h': "tx_inv (rms_db (shared_store s)) (rwh_write h')" "rwh_tables h' = rwh_tables h"
  shows "threads_inv (holds_now t (Some h') s)"
proof -
  have "transacts (holds_now t (Some h') s) = transacts s"
    using h by (auto simp: transacts_def fun_eq_iff)
  moreover have "handle_ok (rms_db (shared_store s)) h'"
    using inv h h' by (auto simp: threads_inv_def Let_def handle_ok_def)
  ultimately show ?thesis
    using inv h by (auto simp: threads_inv_def Let_def may_begin_def one_transaction_def)
qed

lemma edit_tx:
  assumes h: "tx_inv db (rwh_write h)" and ws: "redb_write_open C n h = Ret ws"
    and wt: "wtab_ok wt" "wtab_open wt = edit_table f (wtab_open (rws_table ws))"
  shows "tx_inv db (rwh_write (redb_close C (ws\<lparr>rws_table := wt\<rparr>)))"
    and "rwh_tables (redb_close C (ws\<lparr>rws_table := wt\<rparr>)) = rwh_tables h"
proof -
  obtain table w where w: "wtx_open_table C table (rwh_write h) = Ret w"
      "ws = \<lparr>rws_namespace = rwh_namespace h, rws_tables = rwh_tables h, rws_name = n, rws_table = w\<rparr>"
    using ws by (auto simp: redb_write_open_def and_then_eq_Ret map_ret_eq_Ret map_err_eq_Ret)
  have "wtab_open w = (table, with_table table (wtx_tables (rwh_write h)))"
    using create_table_doc [of "rwh_write h" table] h w(1) by (simp add: tx_inv_def refines_def)
  then show "tx_inv db (rwh_write (redb_close C (ws\<lparr>rws_table := wt\<rparr>)))"
    using h wt w(2) drop_table_doc [OF wt(1)]
    by (auto simp: tx_inv_def redb_close_def edit_table_def with_table_def)
  show "rwh_tables (redb_close C (ws\<lparr>rws_table := wt\<rparr>)) = rwh_tables h"
    using w(2) by (simp add: redb_close_def)
qed

lemma opened_ok:
  assumes "tx_inv db (rwh_write h)" "redb_write_open C n h = Ret ws"
  shows "wtab_ok (rws_table ws)"
proof -
  obtain table w where w: "wtx_open_table C table (rwh_write h) = Ret w" "rws_table ws = w"
    using assms(2) by (auto simp: redb_write_open_def and_then_eq_Ret map_ret_eq_Ret map_err_eq_Ret)
  then show ?thesis
    using create_table_doc [of "rwh_write h" table] assms(1) by (simp add: tx_inv_def refines_def)
qed

lemma set_tx:
  assumes "tx_inv db (rwh_write h)" "redb_write_open C n h = Ret ws" "redb_set C k v ws = Ret ws'"
  shows "tx_inv db (rwh_write (redb_close C ws'))" "rwh_tables (redb_close C ws') = rwh_tables h"
proof -
  obtain old wt where wt: "wtab_insert C k v (rws_table ws) = Ret (old, wt)" "ws' = ws\<lparr>rws_table := wt\<rparr>"
    using assms(3) by (auto simp: redb_set_def map_ret_eq_Ret map_err_eq_Ret)
  have "wtab_ok wt" "wtab_open wt = edit_table (bt_insert k v) (wtab_open (rws_table ws))"
    using insert_doc [OF opened_ok [OF assms(1,2)], of k v] by (simp_all add: wt(1) refines_def)
  then show "tx_inv db (rwh_write (redb_close C ws'))" "rwh_tables (redb_close C ws') = rwh_tables h"
    using edit_tx [OF assms(1,2)] wt(2) by auto
qed

lemma remove_tx:
  assumes "tx_inv db (rwh_write h)" "redb_write_open C n h = Ret ws" "redb_remove C k ws = Ret ws'"
  shows "tx_inv db (rwh_write (redb_close C ws'))" "rwh_tables (redb_close C ws') = rwh_tables h"
proof -
  obtain old wt where wt: "wtab_remove C k (rws_table ws) = Ret (old, wt)" "ws' = ws\<lparr>rws_table := wt\<rparr>"
    using assms(3) by (auto simp: redb_remove_def map_ret_eq_Ret map_err_eq_Ret)
  have "wtab_ok wt" "wtab_open wt = edit_table (bt_remove k) (wtab_open (rws_table ws))"
    using remove_doc [OF opened_ok [OF assms(1,2)], of k] by (simp_all add: wt(1) refines_def)
  then show "tx_inv db (rwh_write (redb_close C ws'))" "rwh_tables (redb_close C ws') = rwh_tables h"
    using edit_tx [OF assms(1,2)] wt(2) by auto
qed

text \<open>A transaction is dropped, or its commit answered.\<close>

lemma handle_ends:
  assumes inv: "threads_inv s" and h: "write_handles s t = Some h" "in_call s t = RIdle"
    and db: "db_ready db" "dom (db_tables (rms_db (shared_store s))) \<subseteq> dom (db_tables db)"
  shows "threads_inv (holds_now t None (set_db db s))"
proof -
  have "threads_inv (calls_now t RIdle (holds_now t None (set_db db s)))"
    using h by (intro transaction_ends [OF inv _ db]) (simp_all add: transacts_def)
  then show ?thesis using h(2) by (simp add: calls_same)
qed

lemma busy_tx:
  assumes "threads_inv s" "transacts s t"
  shows "db_writing (rms_db (shared_store s))"
  using assms by (auto simp: threads_inv_def Let_def may_begin_def split: if_splits)

lemma ready_db: "threads_inv s \<Longrightarrow> may_begin s \<Longrightarrow> db_ready (rms_db (shared_store s))"
  by (simp add: threads_inv_def Let_def)

lemma call_okD: "threads_inv s \<Longrightarrow> in_call s t = c \<Longrightarrow> call_ok (rms_db (shared_store s)) c"
  by (auto simp: threads_inv_def Let_def)

lemma handle_okD: "threads_inv s \<Longrightarrow> write_handles s t = Some h \<Longrightarrow> handle_ok (rms_db (shared_store s)) h"
  by (simp add: threads_inv_def Let_def)

lemma registry_ok: "threads_inv s \<Longrightarrow> registered (rms_tables (shared_store s)) (db_tables (rms_db (shared_store s)))"
  by (simp add: threads_inv_def Let_def)

text \<open>\<open>prepare\<close> has no handle of its own while its transaction is open.\<close>

lemma holds_none:
  assumes "threads_inv s" "in_call s t = RPrepareOpen ns names tx"
  shows "holds_now t None (set_db db s) = set_db db s"
proof (rule holds_same)
  have "prepares_open (in_call s t)" using assms(2) by simp
  then show "write_handles (set_db db s) t = None"
    using assms(1) unfolding threads_inv_def Let_def one_transaction_def by auto
qed

lemma threads_inv_publish:
  assumes inv: "threads_inv s" and t: "in_call s t = RPublish ns names"
  shows "threads_inv (set_registry ns names s)"
proof -
  have "registered (publish_registry ns names (rms_tables (shared_store s))) (db_tables (rms_db (shared_store s)))"
    using registry_ok [OF inv] call_okD [OF inv t]
    by (auto simp: publish_registry_next registered_def next_registry_names)
      (auto simp: next_registry_def split: if_splits)
  then show ?thesis
    using inv by (auto simp: threads_inv_def Let_def may_begin_def transacts_def one_transaction_def)
qed

lemma threads_inv_step: "redb_step C pol t s s' \<Longrightarrow> threads_inv s \<Longrightarrow> threads_inv s'"
proof (induction rule: redb_step.induct)
  case (read_copy s t ns)
  then show ?case by (intro call_goes) (auto simp: registry_ok)
next
  case (read_begin s t ns reg rtx)
  then show ?case
    using threads_inv_read [of s t ns reg rtx] by (intro call_goes) auto
next
  case (write_copy s t ns)
  then show ?case by (intro call_goes) (auto simp: registry_ok)
next
  case (write_begin s t ns reg tx db)
  note tx = begin_write_tx [OF ready_db [OF write_begin(4,2)] write_begin(3)]
  show ?case
    using tx call_okD [OF write_begin(4,1)]
    by (intro transaction_begins write_begin) (simp_all add: handle_ok_def tx_inv_def)
next
  case (prepare_begin s t ns names tx db)
  note tx = begin_write_tx [OF ready_db [OF prepare_begin(4,2)] prepare_begin(3)]
  have "holds_now t None (set_db db s) = set_db db s"
    using prepare_begin(2) by (intro holds_same) (simp add: may_begin_def transacts_def)
  then show ?case
    using transaction_begins [OF prepare_begin(4,2) tx(2,3), of "RPrepareOpen ns names tx" None t] tx
    by (simp add: tx_inv_def)
next
  case (prepare_commit s t ns names tx tx' db)
  then show ?case
    using prepare_commit_inv [of s t ns names tx tx' "Ret ()" db] holds_none [of s t ns names tx db] by simp
next
  case (prepare_commit_fail s t ns names tx tx' e db)
  then show ?case
    using prepare_commit_inv [of s t ns names tx tx' "Fail e" db] holds_none [of s t ns names tx db] by simp
next
  case (prepare_open_fail s t ns names tx e)
  let ?db = "wtx_abort C tx (rms_db (shared_store s))"
  have "transacts s t" using prepare_open_fail by (simp add: transacts_def)
  moreover have "wtx_ok tx" using call_okD [OF prepare_open_fail(3,1)] by (simp add: tx_inv_def)
  ultimately have "db_ready ?db" "db_tables ?db = db_tables (rms_db (shared_store s))"
    using abort_doc busy_tx [OF prepare_open_fail(3)] by auto
  then show ?case
    using transaction_ends [OF prepare_open_fail(3) \<open>transacts s t\<close>, of ?db RIdle]
      holds_none [OF prepare_open_fail(3,1), of ?db] by simp
next
  case (prepare_publish s t ns names)
  then show ?case
    using threads_inv_publish [of s t ns names] by (intro call_goes) auto
qed (auto intro: call_goes)

lemma threads_inv_caller: "redb_caller_step C t s s' \<Longrightarrow> threads_inv s \<Longrightarrow> threads_inv s'"
proof (induction rule: redb_caller_step.induct)
  case (handle_set s t h n ws k v ws')
  then have "tx_inv (rms_db (shared_store s)) (rwh_write h)"
    using handle_okD [of s t h] by (simp add: handle_ok_def)
  from set_tx [OF this handle_set(3,4)] show ?case
    by (rule handle_edit_inv [OF handle_set(5,2)])
next
  case (handle_remove s t h n ws k ws')
  then have "tx_inv (rms_db (shared_store s)) (rwh_write h)"
    using handle_okD [of s t h] by (simp add: handle_ok_def)
  from remove_tx [OF this handle_remove(3,4)] show ?case
    by (rule handle_edit_inv [OF handle_remove(5,2)])
next
  case (handle_commit s t h res db)
  have tx: "tx_inv (rms_db (shared_store s)) (rwh_write h)"
    using handle_okD [OF handle_commit(4,2)] by (simp add: handle_ok_def)
  have "db_writing (rms_db (shared_store s))"
    using handle_commit(2) by (intro busy_tx [OF handle_commit(4), of t]) (simp add: transacts_def)
  then have "db_ready db" "dom (db_tables (rms_db (shared_store s))) \<subseteq> dom (db_tables db)"
    using commit_doc [OF _ _ handle_commit(3)] tx by (auto simp: tx_inv_def)
  then show ?case by (rule handle_ends [OF handle_commit(4,2,1)])
next
  case (handle_drop s t h)
  have tx: "wtx_ok (rwh_write h)"
    using handle_okD [OF handle_drop(3,2)] by (simp add: handle_ok_def tx_inv_def)
  have "db_writing (rms_db (shared_store s))"
    using handle_drop(2) by (intro busy_tx [OF handle_drop(3), of t]) (simp add: transacts_def)
  then show ?case
    using abort_doc [OF _ tx] by (intro handle_ends [OF handle_drop(3,2,1)]) simp_all
qed (auto intro: call_goes)

lemma threads_inv_start: "db_ready db \<Longrightarrow> threads_inv (redb_start db)"
  by (auto simp: threads_inv_def one_transaction_def may_begin_def transacts_def registered_def registry_names_def)

lemma reachable_inv: "redb_reachable C pol db s \<Longrightarrow> db_ready db \<Longrightarrow> threads_inv s"
  by (induction rule: redb_reachable.induct) (auto intro: threads_inv_start threads_inv_step threads_inv_caller)

text \<open>What a read handle opens.\<close>

lemma reader_opens:
  assumes "reader_ok rh" and "rrh_tables rh (rrh_namespace rh, n) \<noteq> None"
  shows "\<exists>kv. rtx_tables (rrh_read rh) (table_name (rrh_namespace rh) n) = Some kv \<and>
           refines backend_error (\<lambda>_. True) rtab_content (redb_open C n rh) (Ret kv)"
proof -
  obtain t where t: "rrh_tables rh (rrh_namespace rh, n) = Some t" using assms(2) by blast
  then have "t = table_name (rrh_namespace rh) n"
    using assms(1) by (auto simp: reader_ok_def registered_def registry_names_def)
  moreover obtain kv where "rtx_tables (rrh_read rh) t = Some kv"
    using assms(1) t unfolding reader_ok_def registered_def by blast
  ultimately show ?thesis
    using redb_call [OF open_table_doc] t by (auto simp: redb_open_def prepared_table_name_def)
qed

end

section \<open>The registry\<close>

text \<open>The registry is what the calls of \<open>prepare\<close> published, one after the other.\<close>

definition registry_after :: "(name \<times> name list) list \<Rightarrow> prepared_tables" where
  "registry_after ps = fold (\<lambda>(ns, names). publish_registry ns names) ps (\<lambda>_. None)"

lemma registry_published:
  "redb_reachable C pol db s \<Longrightarrow> rms_tables (shared_store s) = registry_after (published s)"
proof (induction rule: redb_reachable.induct)
  case start
  then show ?case by (simp add: registry_after_def)
next
  case (backend s t s')
  from backend.hyps(2) backend.IH show ?case
    by (elim redb_stepE) (simp_all add: registry_after_def)
next
  case (caller s t s')
  from caller.hyps(2) caller.IH show ?case
    by (elim redb_caller_stepE) simp_all
qed

text \<open>A registry that was published at some point; every copy of it is one of these.\<close>

definition was_published :: "prepared_tables \<Rightarrow> (name \<times> name list) list \<Rightarrow> bool" where
  "was_published reg ps \<longleftrightarrow> (\<exists>k \<le> length ps. reg = registry_after (take k ps))"

lemma was_published_now: "was_published (registry_after ps) ps"
  by (auto simp: was_published_def)

lemma was_published_later: "was_published reg ps \<Longrightarrow> was_published reg (ps @ [p])"
  unfolding was_published_def by (metis le_SucI length_append_singleton take_append diff_is_0_eq take_0 append_Nil2)

fun copied :: "'wtx redb_call \<Rightarrow> prepared_tables option" where
  "copied (RReadHeld ns reg) = Some reg" | "copied (RWriteHeld ns reg) = Some reg" | "copied c = None"

definition copies_inv :: "('db, 'rtx, 'wtx) redb_system \<Rightarrow> bool" where
  "copies_inv s \<longleftrightarrow>
     (\<forall>t reg. copied (in_call s t) = Some reg \<longrightarrow> was_published reg (published s)) \<and>
     (\<forall>t h. write_handles s t = Some h \<longrightarrow> was_published (rwh_tables h) (published s)) \<and>
     (\<forall>rh \<in> set (readers s). was_published (rrh_tables rh) (published s))"

lemma handle_edit_tables:
  "redb_write_open C n h = Ret ws \<Longrightarrow> redb_set C k v ws = Ret ws' \<Longrightarrow> rwh_tables (redb_close C ws') = rwh_tables h"
  "redb_write_open C n h = Ret ws \<Longrightarrow> redb_remove C k ws = Ret ws' \<Longrightarrow> rwh_tables (redb_close C ws') = rwh_tables h"
  by (auto simp: redb_write_open_def redb_set_def redb_remove_def redb_close_def
      and_then_eq_Ret map_ret_eq_Ret map_err_eq_Ret)

lemma copies_published: "redb_reachable C pol db s \<Longrightarrow> copies_inv s"
proof (induction rule: redb_reachable.induct)
  case start
  then show ?case by (simp add: copies_inv_def)
next
  case (backend s t s')
  have now: "was_published (rms_tables (shared_store s)) (published s)"
    using registry_published [OF backend.hyps(1)] was_published_now by simp
  have "was_published reg (published s)" if "in_call s t = RReadHeld ns reg \<or> in_call s t = RWriteHeld ns reg" for ns reg
    using that backend.IH unfolding copies_inv_def by (metis copied.simps(1,2))
  then show ?case
    using backend.hyps(2) backend.IH now
    by (elim redb_stepE) (auto simp: copies_inv_def intro: was_published_later)
next
  case (caller s t s')
  from caller.hyps(2) caller.IH show ?case
    by (elim redb_caller_stepE) (auto simp: copies_inv_def handle_edit_tables)
qed

context redb_threads
begin

lemma handles_open:
  assumes "redb_reachable C pol db s" and "db_ready db"
  shows "rms_tables (shared_store s) = registry_after (published s) \<and>
         (\<forall>t h. write_handles s t = Some h \<longrightarrow> was_published (rwh_tables h) (published s)) \<and>
         (\<forall>rh \<in> set (readers s). was_published (rrh_tables rh) (published s) \<and>
            (\<forall>n. rrh_tables rh (rrh_namespace rh, n) \<noteq> None \<longrightarrow>
               (\<exists>kv. rtx_tables (rrh_read rh) (table_name (rrh_namespace rh) n) = Some kv \<and>
                     refines backend_error (\<lambda>_. True) rtab_content (redb_open C n rh) (Ret kv))))"
  using registry_published [OF assms(1)] copies_published [OF assms(1)] reachable_inv [OF assms] reader_opens
  by (auto simp: copies_inv_def threads_inv_def Let_def)

end

section \<open>Progress\<close>

fun redb_rank :: "'wtx redb_call \<Rightarrow> nat" where
  "redb_rank RIdle = 0" | "redb_rank (RReadWait ns) = 2" | "redb_rank (RReadHeld ns reg) = 1"
| "redb_rank (RWriteWait ns) = 2" | "redb_rank (RWriteHeld ns reg) = 1" | "redb_rank (RPrepareWait ns names) = 3"
| "redb_rank (RPrepareOpen ns names tx) = 2" | "redb_rank (RPublish ns names) = 1"

text \<open>The threads in a call are among the first \<open>n\<close>; none of them has a write handle.\<close>

definition redb_below :: "nat \<Rightarrow> ('db, 'rtx, 'wtx) redb_system \<Rightarrow> bool" where
  "redb_below n s \<longleftrightarrow> (\<forall>t\<ge>n. in_call s t = RIdle)"

definition redb_holders_free :: "('db, 'rtx, 'wtx) redb_system \<Rightarrow> bool" where
  "redb_holders_free s \<longleftrightarrow> (\<forall>t. write_handles s t \<noteq> None \<longrightarrow> in_call s t = RIdle)"

definition redb_work :: "nat \<Rightarrow> ('db, 'rtx, 'wtx) redb_system \<Rightarrow> nat" where
  "redb_work n s = (\<Sum>t<n. redb_rank (in_call s t))"

text \<open>However the steps are scheduled, some thread comes to have a write handle, or all calls return.\<close>

inductive redb_settles ::
  "('db, 'rtx, 'rtab, 'wtx, 'wtab) redb_crate \<Rightarrow> (('db, 'rtx, 'wtx) redb_system \<Rightarrow> bool) \<Rightarrow>
   ('db, 'rtx, 'wtx) redb_system \<Rightarrow> bool" for C pol where
  handed: "write_handles s t \<noteq> None \<Longrightarrow> in_call s t = RIdle \<Longrightarrow> redb_settles C pol s"
| quiet: "\<forall>t. in_call s t = RIdle \<Longrightarrow> redb_settles C pol s"
| moves: "\<exists>t s'. redb_step C pol t s s' \<Longrightarrow> (\<And>t s'. redb_step C pol t s s' \<Longrightarrow> redb_settles C pol s') \<Longrightarrow>
    redb_settles C pol s"

text \<open>Every step moves its own thread to a call of a smaller rank, and no other thread.\<close>

lemma redb_step_call:
  "redb_step C pol t s s' \<Longrightarrow> \<exists>c. in_call s' = (in_call s)(t := c) \<and> redb_rank c < redb_rank (in_call s t)"
  by (erule redb_stepE) auto

lemma redb_step_work:
  assumes "redb_step C pol t s s'" "redb_below n s"
  shows "redb_work n s' < redb_work n s" "redb_below n s'"
proof -
  obtain c where c: "in_call s' = (in_call s)(t := c)" "redb_rank c < redb_rank (in_call s t)"
    using redb_step_call [OF assms(1)] by blast
  have "in_call s t \<noteq> RIdle" using c(2) by auto
  then have "t < n" using assms(2) by (metis redb_below_def not_less)
  then show "redb_work n s' < redb_work n s" "redb_below n s'"
    using c assms(2) by (auto simp: redb_work_def redb_below_def sum.remove [of "{..<n}" t])
qed

lemma redb_holders_step:
  "redb_step C pol t s s' \<Longrightarrow> redb_holders_free s \<Longrightarrow> redb_holders_free s'"
  unfolding redb_holders_free_def by (erule redb_stepE) auto

context redb_threads
begin

text \<open>The calls of the crate return, with a result or an error.\<close>

lemma crate_answers:
  "db_ready db \<Longrightarrow> (\<exists>tx db'. begin_write C db = Ret (tx, db')) \<or> (\<exists>e. begin_write C db = Fail e)"
  "db_ready db \<or> db_writing db \<Longrightarrow> (\<exists>rtx. begin_read C db = Ret rtx) \<or> (\<exists>e. begin_read C db = Fail e)"
  "wtx_ok tx \<Longrightarrow> (\<exists>tx'. open_all C ts tx = Ret tx' \<and> wtx_ok tx') \<or> (\<exists>e. open_all C ts tx = Fail e)"
  using begin_write_doc [of db] begin_read_doc [of db] begin_read_busy_doc [of db] open_all_refines [of tx ts]
  by (auto simp: refines_def map_ret_eq_Ret)

lemma prepare_moves:
  assumes inv: "threads_inv s" and t: "in_call s t = RPrepareOpen ns names tx"
  shows "\<exists>s'. redb_step C pol t s s'"
proof -
  have "wtx_ok tx" using call_okD [OF inv t] by (simp add: tx_inv_def)
  from crate_answers(3) [OF this] consider tx' where
      "open_all C (List.map (table_name ns) names) tx = Ret tx'" "wtx_ok tx'"
    | e where "open_all C (List.map (table_name ns) names) tx = Fail e" by blast
  then show ?thesis
  proof cases
    case (1 tx')
    obtain res db where c: "wtx_commit C tx' (rms_db (shared_store s)) = (res, db)" by fastforce
    have "db_writing (rms_db (shared_store s))"
      using t by (intro busy_tx [OF inv, of t]) (simp add: transacts_def)
    then show ?thesis
      using commit_doc [OF _ 1(2) c] c 1(1) t by (blast intro: prepare_commit prepare_commit_fail)
  qed (use t in \<open>blast intro: prepare_open_fail\<close>)
qed

lemma redb_moves:
  assumes inv: "threads_inv s" and free: "redb_holders_free s"
    and none: "\<And>t. write_handles s t \<noteq> None \<Longrightarrow> in_call s t \<noteq> RIdle" and busy: "in_call s t \<noteq> RIdle"
  shows "\<exists>t s'. redb_step C pol t s s'"
proof (rule ccontr)
  assume "\<not> ?thesis"
  then have stuck: "\<not> redb_step C pol u s s'" for u s' by blast
  have "\<not> transacts s u" for u
    using none [of u] free prepare_moves [OF inv, of u _ _ _ pol] stuck
    by (cases "write_handles s u"; cases "in_call s u") (auto simp: transacts_def redb_holders_free_def)
  then have begins: "may_begin s" by (simp add: may_begin_def)
  note ready = ready_db [OF inv begins]
  note writes = crate_answers(1) [OF ready] and reads = crate_answers(2) [OF disjI1 [OF ready]]
  have "in_call s u \<noteq> RPrepareWait ns names" "in_call s u \<noteq> RWriteHeld ns reg" "in_call s u \<noteq> RReadHeld ns reg" for u ns names reg
    using stuck begins writes reads
    by (blast intro: prepare_begin prepare_fail write_begin write_fail read_begin read_fail)+
  moreover have "\<not> prepares_open (in_call s u)" for u
    using \<open>\<not> transacts s u\<close> by (simp add: transacts_def)
  moreover from calculation have "may_publish s"
    unfolding may_publish_def by (metis guards_registry.elims(2))
  then have "in_call s u \<noteq> RPublish ns names" for u ns names
    using stuck prepare_publish by blast
  moreover from this have "may_copy pol s"
    unfolding may_copy_def by (metis wants_registry.elims(2))
  then have "in_call s u \<noteq> RReadWait ns" "in_call s u \<noteq> RWriteWait ns" for u ns
    using stuck read_copy write_copy by blast+
  ultimately show False using busy by (cases "in_call s t") (auto, metis prepares_open.simps(1))
qed

lemma redb_settle:
  "threads_inv s \<Longrightarrow> redb_below n s \<Longrightarrow> redb_holders_free s \<Longrightarrow> redb_settles C pol s"
proof (induction "redb_work n s" arbitrary: s rule: less_induct)
  case less
  show ?case
  proof (cases "(\<exists>t. write_handles s t \<noteq> None \<and> in_call s t = RIdle) \<or> (\<forall>t. in_call s t = RIdle)")
    case True
    then show ?thesis by (blast intro: redb_settles.handed redb_settles.quiet)
  next
    case False
    have "\<exists>t s'. redb_step C pol t s s'"
      using redb_moves [OF less.prems(1,3)] False by blast
    moreover have "redb_settles C pol s'" if "redb_step C pol t s s'" for t s'
      using that less.prems
      by (intro less.hyps) (auto intro: redb_step_work threads_inv_step redb_holders_step)
    ultimately show ?thesis by (rule redb_settles.moves)
  qed
qed

end

section \<open>A read beside a writer and a \<open>prepare\<close>\<close>

text \<open>
  A thread with a write handle is about to read, another waits in \<open>write\<close> for the transaction
  with the read guard of the registry, and a third waits in \<open>prepare\<close> for that guard.
\<close>

definition knotted :: "thread \<Rightarrow> thread \<Rightarrow> thread \<Rightarrow> ('db, 'rtx, 'wtx) redb_system \<Rightarrow> bool" where
  "knotted t u v s \<longleftrightarrow> write_handles s t \<noteq> None \<and> (\<exists>ns. in_call s t = RReadWait ns) \<and>
     (\<exists>ns reg. in_call s u = RWriteHeld ns reg) \<and> (\<exists>ns names. in_call s v = RPublish ns names)"

definition redb_any_step ::
  "('db, 'rtx, 'rtab, 'wtx, 'wtab) redb_crate \<Rightarrow> (('db, 'rtx, 'wtx) redb_system \<Rightarrow> bool) \<Rightarrow>
   ('db, 'rtx, 'wtx) redb_system \<Rightarrow> ('db, 'rtx, 'wtx) redb_system \<Rightarrow> bool" where
  "redb_any_step C pol s s' \<longleftrightarrow> (\<exists>t. redb_step C pol t s s' \<or> redb_caller_step C t s s')"

text \<open>A step that is taken moves a thread that is none of the three.\<close>

lemma knotted_blocks:
  assumes "redb_step C pol w s s'" "\<not> pol s" "knotted t u v s"
  shows "w \<notin> {t, u, v}"
proof
  have blocked: "\<not> may_copy pol s" "\<not> may_publish s" "\<not> may_begin s"
    using assms(2,3) unfolding knotted_def may_copy_def may_publish_def may_begin_def transacts_def
    by (metis wants_registry.simps(1), metis guards_registry.simps(2), metis)
  assume "w \<in> {t, u, v}"
  then show False
    using assms(1,3) blocked by (elim redb_stepE) (auto simp: knotted_def)
qed

lemma knotted_step:
  assumes "redb_step C pol w s s'" "\<not> pol s" "knotted t u v s"
  shows "knotted t u v s' \<and> in_call s' t = in_call s t \<and> in_call s' u = in_call s u \<and> in_call s' v = in_call s v"
  using knotted_blocks [OF assms] assms(1,3) by (elim redb_stepE) (auto simp: knotted_def)

lemma knotted_caller:
  assumes "redb_caller_step C w s s'" "knotted t u v s"
  shows "knotted t u v s' \<and> in_call s' t = in_call s t \<and> in_call s' u = in_call s u \<and> in_call s' v = in_call s v"
  using assms by (elim redb_caller_stepE) (auto simp: knotted_def)

lemma knotted_forever:
  assumes "(redb_any_step C (\<lambda>_. False))\<^sup>*\<^sup>* s s'" "knotted t u v s"
  shows "knotted t u v s' \<and> in_call s' t = in_call s t \<and> in_call s' u = in_call s u \<and> in_call s' v = in_call s v"
  using assms(1)
proof (induction rule: rtranclp_induct)
  case (step s1 s2)
  then obtain w where w: "redb_step C (\<lambda>_. False) w s1 s2 \<or> redb_caller_step C w s1 s2"
    by (auto simp: redb_any_step_def)
  have k: "knotted t u v s1" using step.IH by blast
  from w show ?case
  proof
    assume "redb_step C (\<lambda>_. False) w s1 s2"
    from knotted_step [OF this _ k] show ?thesis using step.IH by simp
  next
    assume "redb_caller_step C w s1 s2"
    from knotted_caller [OF this k] show ?thesis using step.IH by simp
  qed
qed (simp add: assms(2))

section \<open>Runs\<close>

interpretation ram: redb_threads ram_error ram_crate tables_ok tables_ok "\<lambda>T. T" "\<lambda>T. T" "\<lambda>kv. kv"
  tables_ok "\<lambda>T. T" ram_wtab_ok "\<lambda>wt. wt"
  by unfold_locales (simp add: ram_crate_def refines_def)

text \<open>
  On the crate in memory: thread 2 is in \<open>prepare\<close> with its transaction open, threads 0 and 1 have
  copied the registry in \<open>write\<close>.
\<close>

type_synonym ram_system = "(tables, tables, tables) redb_system"

abbreviation no_tables :: tables where "no_tables \<equiv> (\<lambda>_. None)"

definition crossing :: ram_system where
  "crossing =
     calls_now 1 (RWriteHeld ''users'' (\<lambda>_. None)) (calls_now 0 (RWriteHeld ''users'' (\<lambda>_. None))
       (calls_now 2 (RPrepareOpen ''users'' [''__main''] no_tables) (redb_start no_tables)))"

lemma crossing_simps [simp]:
  "in_call crossing = (\<lambda>_. RIdle)(2 := RPrepareOpen ''users'' [''__main''] no_tables,
     0 := RWriteHeld ''users'' (\<lambda>_. None), 1 := RWriteHeld ''users'' (\<lambda>_. None))"
  "rms_db (shared_store crossing) = no_tables" "rms_tables (shared_store crossing) = (\<lambda>_. None)"
  "write_handles crossing = (\<lambda>_. None)" "readers crossing = []" "published crossing = []"
  by (simp_all add: crossing_def)

lemma calls_now_twice [simp]: "calls_now t c (calls_now t d s) = calls_now t c s"
  by (simp add: calls_now_def)

lemma set_db_same: "rms_db (shared_store s) = db \<Longrightarrow> set_db db s = s"
  by (auto simp: set_db_def)

lemma reach_write_copy:
  assumes "redb_reachable C pol db s" "in_call s t = RIdle" "\<forall>u. \<not> wants_registry (in_call s u)"
  shows "redb_reachable C pol db (calls_now t (RWriteHeld ns (rms_tables (shared_store s))) s)"
proof -
  have "redb_reachable C pol db (calls_now t (RWriteWait ns) s)"
    by (rule redb_reachable.caller [OF assms(1) redb_caller_step.call_write [OF assms(2)]])
  moreover have "redb_step C pol t (calls_now t (RWriteWait ns) s)
      (calls_now t (RWriteHeld ns (rms_tables (shared_store (calls_now t (RWriteWait ns) s)))) (calls_now t (RWriteWait ns) s))"
    by (rule redb_step.write_copy) (use assms(3) in \<open>simp_all add: may_copy_def\<close>)
  ultimately show ?thesis
    using redb_reachable.backend by fastforce
qed

lemma crossing_reachable: "redb_reachable ram_crate pol no_tables crossing"
proof -
  let ?s1 = "calls_now 2 (RPrepareWait ''users'' [''__main'']) (redb_start no_tables) :: ram_system"
  have "redb_reachable ram_crate pol no_tables ?s1"
    by (rule redb_reachable.caller [OF redb_reachable.start redb_caller_step.call_prepare]) simp
  moreover have "redb_step ram_crate pol 2 ?s1
      (calls_now 2 (RPrepareOpen ''users'' [''__main''] no_tables) (set_db no_tables ?s1))"
    by (rule redb_step.prepare_begin) (auto simp: may_begin_def transacts_def ram_crate_def)
  ultimately have "redb_reachable ram_crate pol no_tables
      (calls_now 2 (RPrepareOpen ''users'' [''__main''] no_tables) (set_db no_tables ?s1))"
    by (rule redb_reachable.backend)
  then have "redb_reachable ram_crate pol no_tables
      (calls_now 2 (RPrepareOpen ''users'' [''__main''] no_tables) (redb_start no_tables))"
    by (simp add: set_db_same)
  from reach_write_copy [OF this, of 0 "''users''"] have s3: "redb_reachable ram_crate pol no_tables
      (calls_now 0 (RWriteHeld ''users'' (\<lambda>_. None)) (calls_now 2 (RPrepareOpen ''users'' [''__main''] no_tables)
        (redb_start no_tables)))"
    by simp
  from reach_write_copy [OF s3, of 1 "''users''"] show ?thesis
    by (simp add: crossing_def)
qed

text \<open>\<open>prepare\<close> commits its table, and thread 0 gets the next transaction.\<close>

definition main_table :: tables where
  "main_table = with_table (table_name ''users'' ''__main'') no_tables"

definition committed_then :: ram_system where
  "committed_then = calls_now 2 (RPublish ''users'' [''__main'']) (set_db main_table crossing)"

lemma committed_then_reachable: "redb_reachable ram_crate pol no_tables committed_then"
  unfolding committed_then_def
proof (rule redb_reachable.backend [OF crossing_reachable redb_step.prepare_commit])
  show "in_call crossing 2 = RPrepareOpen ''users'' [''__main''] no_tables" by simp
  show "open_all ram_crate (List.map (table_name ''users'') [''__main'']) no_tables = Ret main_table"
    by (simp add: ram_crate_def main_table_def)
  show "wtx_commit ram_crate main_table (rms_db (shared_store crossing)) = (Ret (), main_table)"
    by (simp add: ram_crate_def)
qed

definition knot :: ram_system where
  "knot = calls_now 0 (RReadWait ''users'')
     (holds_now 0 (Some \<lparr>rwh_namespace = ''users'', rwh_tables = (\<lambda>_. None), rwh_write = main_table\<rparr>) committed_then)"

lemma knot_reachable: "redb_reachable ram_crate pol no_tables knot"
proof -
  let ?h = "\<lparr>rwh_namespace = ''users'', rwh_tables = (\<lambda>_. None), rwh_write = main_table\<rparr>"
  have "redb_step ram_crate pol 0 committed_then
      (calls_now 0 RIdle (holds_now 0 (Some ?h) (set_db main_table committed_then)))"
    by (rule redb_step.write_begin)
      (auto simp: committed_then_def may_begin_def transacts_def ram_crate_def)
  then have "redb_reachable ram_crate pol no_tables (calls_now 0 RIdle (holds_now 0 (Some ?h) committed_then))"
    using redb_reachable.backend [OF committed_then_reachable]
    by (simp add: set_db_same committed_then_def)
  then have "redb_reachable ram_crate pol no_tables
      (calls_now 0 (RReadWait ''users'') (calls_now 0 RIdle (holds_now 0 (Some ?h) committed_then)))"
    by (rule redb_reachable.caller [where t = 0]) (rule redb_caller_step.call_read, simp)
  then show ?thesis by (simp add: knot_def)
qed

section \<open>Properties\<close>

text \<open>C30: The registry of the redb backend under threads. In every interleaving of \<open>read\<close>, \<open>write\<close>,
  \<open>prepare\<close> and transactions, the registry is what the calls of \<open>prepare\<close> published, one after the
  other, none of them lost; every handle has one of the registries that were published; and a
  read handle opens every store its registry names, with the content its snapshot has of it,
  unless the crate fails: its snapshot is never older than its registry.\<close>

lemma redb_handles_open:
  assumes "redb_threads storage_error C db_ready db_writing db_tables rtx_tables rtab_content
             wtx_ok wtx_tables wtab_ok wtab_open"
    and "redb_reachable C pol db s" and "db_ready db"
  shows "rms_tables (shared_store s) = registry_after (published s) \<and>
         (\<forall>t h. write_handles s t = Some h \<longrightarrow> was_published (rwh_tables h) (published s)) \<and>
         (\<forall>rh \<in> set (readers s). was_published (rrh_tables rh) (published s) \<and>
            (\<forall>n. rrh_tables rh (rrh_namespace rh, n) \<noteq> None \<longrightarrow>
               (\<exists>kv. rtx_tables (rrh_read rh) (table_name (rrh_namespace rh) n) = Some kv \<and>
                     refines (redb_backend.backend_error storage_error) (\<lambda>_. True) rtab_content
                       (redb_open C n rh) (Ret kv))))"
  by (rule redb_threads.handles_open [OF assms])

text \<open>Thread 0 reads after a \<open>prepare\<close>: its handle opens the store, which is empty.\<close>

definition read_after :: ram_system where
  "read_after = hand_out \<lparr>rrh_namespace = ''users'', rrh_tables = registry_after [(''users'', [''__main''])],
       rrh_read = main_table\<rparr>
     (set_registry ''users'' [''__main''] (set_db main_table (redb_start no_tables)))"

lemma registry_one: "publish_registry ns names (\<lambda>_. None) = registry_after [(ns, names)]"
  by (simp add: registry_after_def)

lemma read_after_reachable: "redb_reachable ram_crate pol no_tables read_after"
proof -
  let ?s0 = "redb_start no_tables :: ram_system"
  let ?s1 = "calls_now 2 (RPrepareWait ''users'' [''__main'']) ?s0"
  let ?s2 = "calls_now 2 (RPrepareOpen ''users'' [''__main''] no_tables) ?s0"
  let ?s3 = "calls_now 2 (RPublish ''users'' [''__main'']) (set_db main_table ?s2)"
  let ?s4 = "set_registry ''users'' [''__main''] ?s3"
  let ?s5 = "calls_now 2 RIdle ?s4"
  let ?s6 = "calls_now 0 (RReadWait ''users'') ?s5"
  let ?reg = "registry_after [(''users'', [''__main''])]"
  let ?s7 = "calls_now 0 (RReadHeld ''users'' ?reg) ?s6"
  let ?s8 = "calls_now 0 RIdle (hand_out \<lparr>rrh_namespace = ''users'', rrh_tables = ?reg, rrh_read = main_table\<rparr> ?s7)"
  have "redb_reachable ram_crate pol no_tables ?s1"
    by (rule redb_reachable.caller [OF redb_reachable.start redb_caller_step.call_prepare]) simp
  moreover have "redb_step ram_crate pol 2 ?s1 (calls_now 2 (RPrepareOpen ''users'' [''__main''] no_tables) (set_db no_tables ?s1))"
    by (rule redb_step.prepare_begin) (auto simp: may_begin_def transacts_def ram_crate_def)
  ultimately have s2: "redb_reachable ram_crate pol no_tables ?s2"
    using redb_reachable.backend by (fastforce simp: set_db_same)
  have "redb_step ram_crate pol 2 ?s2 ?s3"
    by (rule redb_step.prepare_commit [where tx' = main_table]) (auto simp: ram_crate_def main_table_def)
  note s3 = redb_reachable.backend [OF s2 this]
  have "redb_step ram_crate pol 2 ?s3 ?s5"
    by (rule redb_step.prepare_publish) (simp_all add: may_publish_def)
  note s5 = redb_reachable.backend [OF s3 this]
  have "redb_caller_step ram_crate 0 ?s5 ?s6"
    by (rule redb_caller_step.call_read) simp
  note s6 = redb_reachable.caller [OF s5 this]
  have "redb_step ram_crate pol 0 ?s6 ?s7"
    using redb_step.read_copy [of ?s6 0 "''users''" pol ram_crate]
    by (simp add: may_copy_def registry_one)
  note s7 = redb_reachable.backend [OF s6 this]
  have "redb_step ram_crate pol 0 ?s7 ?s8"
    by (rule redb_step.read_begin) (simp_all add: ram_crate_def)
  note s8 = redb_reachable.backend [OF s7 this]
  moreover have "?s8 = read_after"
    by (simp add: read_after_def calls_now_def hand_out_def set_registry_def set_db_def fun_upd_idem)
  ultimately show ?thesis by simp
qed

lemma redb_handles_open_witness:
  "\<exists>rh \<in> set (readers read_after). redb_reachable ram_crate (\<lambda>_. False) no_tables read_after \<and>
     was_published (rrh_tables rh) (published read_after) \<and>
     refines ram.backend_error (\<lambda>_. True) (\<lambda>kv. kv) (redb_open ram_crate ''__main'' rh) (Ret [])"
proof -
  have ready: "tables_ok no_tables" by (simp add: tables_ok_def)
  have reach: "redb_reachable ram_crate (\<lambda>_. False) no_tables read_after"
    by (rule read_after_reachable)
  show ?thesis
    using redb_handles_open [OF ram.redb_threads_axioms reach, OF ready] reach
    by (force simp: read_after_def registry_after_def publish_registry_def main_table_def with_table_def
        table_or_empty_def)
qed

text \<open>C31: The redb backend does not block as long as no thread that has a write handle is inside another
  call: whatever the order of the steps and the policy of the \<open>RwLock\<close>, a thread comes to have a
  write handle in its hands, or every call of \<open>read\<close>, \<open>write\<close> and \<open>prepare\<close> returns.\<close>

lemma redb_calls_settle:
  assumes "redb_threads storage_error C db_ready db_writing db_tables rtx_tables rtab_content
             wtx_ok wtx_tables wtab_ok wtab_open"
    and "redb_reachable C pol db s" and "db_ready db" and "redb_below n s" and "redb_holders_free s"
  shows "redb_settles C pol s"
  by (rule redb_threads.redb_settle [OF assms(1) redb_threads.reachable_inv [OF assms(1,2), OF assms(3)] assms(4,5)])

lemma redb_calls_settle_witness:
  "redb_reachable ram_crate (\<lambda>_. False) no_tables crossing \<and>
   redb_settles ram_crate (\<lambda>_. False) crossing"
proof -
  have "tables_ok no_tables" by (simp add: tables_ok_def)
  from redb_calls_settle [OF ram.redb_threads_axioms crossing_reachable, OF this, of 3 "\<lambda>_. False"] show ?thesis
    by (simp add: crossing_reachable redb_below_def redb_holders_free_def)
qed

text \<open>C36: A deadlock of the redb backend where the \<open>RwLock\<close> lets a waiting writer go first. \<open>write\<close> waits for
  its transaction with the registry locked for reading. A thread that has a write handle and calls
  \<open>read\<close>, while another waits in \<open>write\<close> and a \<open>prepare\<close> waits for the registry, hangs: in every
  continuation, whatever all threads do, none of the three calls ever returns.\<close>

lemma redb_read_hangs:
  assumes "write_handles s t \<noteq> None" and "in_call s t = RReadWait ns"
    and "in_call s u = RWriteHeld ns' reg" and "in_call s v = RPublish ns'' names"
    and "(redb_any_step C (\<lambda>_. False))\<^sup>*\<^sup>* s s'"
  shows "in_call s' t = RReadWait ns \<and> in_call s' u = RWriteHeld ns' reg \<and> in_call s' v = RPublish ns'' names"
proof -
  have "knotted t u v s" using assms(1-4) by (auto simp: knotted_def)
  from knotted_forever [OF assms(5) this] show ?thesis using assms(2-4) by simp
qed

text \<open>The state is reached: \<open>prepare\<close> commits between the two copies of the registry and the transaction.\<close>

lemma redb_read_hangs_witness:
  "redb_reachable ram_crate (\<lambda>_. False) no_tables knot \<and>
   {s'. (redb_any_step ram_crate (\<lambda>_. False))\<^sup>*\<^sup>* knot s'} \<subseteq>
   {s'. in_call s' 0 = RReadWait ''users'' \<and> in_call s' 1 = RWriteHeld ''users'' (\<lambda>_. None) \<and>
        in_call s' 2 = RPublish ''users'' [''__main'']}"
proof -
  have at: "write_handles knot 0 \<noteq> None" "in_call knot 0 = RReadWait ''users''"
    "in_call knot 1 = RWriteHeld ''users'' (\<lambda>_. None)" "in_call knot 2 = RPublish ''users'' [''__main'']"
    by (simp_all add: knot_def committed_then_def)
  show ?thesis
    using knot_reachable redb_read_hangs [OF at] by blast
qed

end
