(* ===== verification/Key_Vectors.thy ===== *)
theory Key_Vectors
  imports Key_Tuple Key_Int Key_Var
begin

text \<open>
  The unit tests of \<open>src/key.rs\<close> run on the model: one boolean per test function with the cases
  of the test as they are written there, and one lemma that it evaluates to true. They tie the
  definitions of the key theories to bytes the crate's authors wrote down, panics included,
  independently of the theorems about all keys.
\<close>

section \<open>What a test asserts\<close>

text \<open>
  A case of an encoding test, of a decoding test (value and remainder), and an input that
  panics. A string is given as its UTF-8 bytes.
\<close>

definition encodes :: "'k key \<Rightarrow> ('k \<times> bytes) list \<Rightarrow> bool" where
  "encodes K cases = list_all (\<lambda>(k, bs). encode K k = bs) cases"

definition decodes :: "'k key \<Rightarrow> (bytes \<times> 'k) list \<Rightarrow> bool" where
  "decodes K cases = list_all (\<lambda>(bs, k). decode K bs = Some k) cases"

definition decodes_part :: "'k key \<Rightarrow> (bytes \<times> 'k \<times> bytes) list \<Rightarrow> bool" where
  "decodes_part K cases = list_all (\<lambda>(bs, k, r). decode_part K bs = Some (k, r)) cases"

definition panics :: "(bytes \<Rightarrow> 'a option) \<Rightarrow> bytes list \<Rightarrow> bool" where
  "panics f inputs = list_all (\<lambda>bs. f bs = None) inputs"

definition str_hi :: bytes where "str_hi = [0x68, 0x69]"
definition str_hello :: bytes where "str_hello = [0x68, 0xc3, 0xa9, 0x6c, 0x6c, 0x6f]"

section \<open>Escaped bytes\<close>

definition test_decode :: bool where
  "test_decode \<longleftrightarrow>
     decodes u32_key
       [([0x00, 0x00, 0x00, 0x00], 0), ([0x00, 0x00, 0x00, 0x01], 1), ([0xff, 0xff, 0xff, 0xff], - 1)]
   \<and> decodes vec_key
       [([0x00, 0x00], []), ([0x01, 0x02, 0x00, 0x00], [0x01, 0x02]), ([0x00, 0xff, 0x00, 0x00], [0x00])]
   \<and> panics (decode u32_key) [[0x00, 0x00, 0x00, 0x01, 0xff]]
   \<and> panics (decode bool_key) [[0x00, 0x01]]
   \<and> panics (decode string_key) [[0x61, 0xff, 0x62]]"

definition test_encode_unsized :: bool where
  "test_encode_unsized \<longleftrightarrow>
     list_all (\<lambda>(input, expected). encode_unsized_key_bytes input [] = expected)
       [([], [0x00, 0x00]),
        ([0x01, 0x02, 0x03], [0x01, 0x02, 0x03, 0x00, 0x00]),
        ([0xff, 0xfe], [0xff, 0xfe, 0x00, 0x00]),
        ([0x00], [0x00, 0xff, 0x00, 0x00]),
        ([0x00, 0x00], [0x00, 0xff, 0x00, 0xff, 0x00, 0x00]),
        ([0x01, 0x00, 0x02], [0x01, 0x00, 0xff, 0x02, 0x00, 0x00])]"

definition test_decode_unsized :: bool where
  "test_decode_unsized \<longleftrightarrow>
     list_all (\<lambda>(encoded, value, remainder). decode_unsized_key_bytes encoded = Some (value, remainder))
       [([0x00, 0x00], [], []),
        ([0x01, 0x02, 0x03, 0x00, 0x00], [0x01, 0x02, 0x03], []),
        ([0xff, 0xfe, 0x00, 0x00], [0xff, 0xfe], []),
        ([0x00, 0xff, 0x00, 0x00], [0x00], []),
        ([0x00, 0xff, 0x00, 0xff, 0x00, 0x00], [0x00, 0x00], []),
        ([0x01, 0x00, 0xff, 0x02, 0x00, 0x00], [0x01, 0x00, 0x02], []),
        ([0x00, 0x00, 0x42], [], [0x42]),
        ([0x01, 0x00, 0x00, 0x02, 0x03], [0x01], [0x02, 0x03])]
   \<and> panics decode_unsized_key_bytes [[], [0x01, 0x02], [0x00, 0x01]]"

definition test_unsized_round_trip :: bool where
  "test_unsized_round_trip \<longleftrightarrow>
     list_all (\<lambda>input. decode_unsized_key_bytes (encode_unsized_key_bytes input []) = Some (input, []))
       [[], [0x01, 0x02, 0x03], [0xff], [0x00], [0x00, 0x00], [0x01, 0x00, 0x02],
        [0x00, 0x01, 0x00, 0xff, 0x00]]"

section \<open>Integers and booleans\<close>

definition test_encode_integers :: bool where
  "test_encode_integers \<longleftrightarrow>
     encodes u8_key [(0, [0x00]), (1, [0x01]), (- 1, [0xff])]
   \<and> encodes i8_key
       [(signed_min, [0x00]), (- 1, [0x7f]), (0, [0x80]), (1, [0x81]), (signed_min - 1, [0xff])]
   \<and> encodes u128_key
       [(0, replicate 16 0x00), (1, (replicate 16 0x00)[15 := 0x01]), (- 1, replicate 16 0xff)]
   \<and> encodes i128_key
       [(signed_min, replicate 16 0x00),
        (- 1, (replicate 16 0xff)[0 := 0x7f]),
        (0, (replicate 16 0x00)[0 := 0x80]),
        (1, (replicate 16 0x00)[0 := 0x80, 15 := 0x01]),
        (signed_min - 1, replicate 16 0xff)]"

definition test_decode_part_integers :: bool where
  "test_decode_part_integers \<longleftrightarrow>
     decodes_part u8_key
       [([0x00], 0, []), ([0x01], 1, []), ([0xff], - 1, []), ([0x42, 0xde, 0xad], 0x42, [0xde, 0xad])]
   \<and> decodes_part i8_key
       [([0x00], signed_min, []), ([0x7f], - 1, []), ([0x80], 0, []), ([0x81], 1, []),
        ([0xff], signed_min - 1, []), ([0x80, 0xde, 0xad], 0, [0xde, 0xad])]
   \<and> decodes_part u128_key
       [(replicate 16 0x00, 0, []), ((replicate 16 0x00)[15 := 0x01], 1, []),
        (replicate 16 0xff, - 1, []), (replicate 16 0x00 @ [0xca, 0xfe], 0, [0xca, 0xfe])]
   \<and> decodes_part i128_key
       [(replicate 16 0x00, signed_min, []), ((replicate 16 0xff)[0 := 0x7f], - 1, []),
        ((replicate 16 0x00)[0 := 0x80], 0, []), (replicate 16 0xff, signed_min - 1, []),
        (replicate 16 0x00 @ [0xbe, 0xef], signed_min, [0xbe, 0xef])]"

definition test_encode_bool :: bool where
  "test_encode_bool \<longleftrightarrow> encodes bool_key [(False, [0x00]), (True, [0x01])]"

definition test_decode_part_bool :: bool where
  "test_decode_part_bool \<longleftrightarrow>
     decodes_part bool_key
       [([0x00], False, []), ([0x01], True, []), ([0x00, 0xde, 0xad], False, [0xde, 0xad]),
        ([0x01, 0xca, 0xfe], True, [0xca, 0xfe])]
   \<and> panics (decode_part bool_key) [[], [0x02], [0xff]]"

section \<open>Strings, arrays and byte vectors\<close>

definition test_encode_string :: bool where
  "test_encode_string \<longleftrightarrow>
     encodes string_key
       [([], [0xff]), (str_hi, [0x68, 0x69, 0xff]), (str_hello, [0x68, 0xc3, 0xa9, 0x6c, 0x6c, 0x6f, 0xff])]"

definition test_decode_part_string :: bool where
  "test_decode_part_string \<longleftrightarrow>
     decodes_part string_key
       [([0xff], [], []), ([0x68, 0x69, 0xff], str_hi, []),
        ([0x68, 0xc3, 0xa9, 0x6c, 0x6c, 0x6f, 0xff], str_hello, []),
        ([0x68, 0x69, 0xff, 0x01, 0x02], str_hi, [0x01, 0x02]),
        ([0xff, 0xde, 0xad], [], [0xde, 0xad])]
   \<and> panics (decode_part string_key) [[], [0x68, 0x69], [0x80, 0xff]]"

definition test_encode_array :: bool where
  "test_encode_array \<longleftrightarrow>
     encodes (array_key 3)
       [([0x00, 0x00, 0x00], [0x00, 0x00, 0x00]), ([0x01, 0x02, 0x03], [0x01, 0x02, 0x03]),
        ([0x00, 0xff, 0x00], [0x00, 0xff, 0x00])]"

definition test_decode_part_array :: bool where
  "test_decode_part_array \<longleftrightarrow>
     decodes_part (array_key 3)
       [([0x01, 0x02, 0x03], [0x01, 0x02, 0x03], []), ([0x00, 0xff, 0x00], [0x00, 0xff, 0x00], []),
        ([0x01, 0x02, 0x03, 0xde, 0xad], [0x01, 0x02, 0x03], [0xde, 0xad])]
   \<and> panics (decode_part (array_key 3)) [[], [0x01], [0x01, 0x02]]"

definition test_encode_vec :: bool where
  "test_encode_vec \<longleftrightarrow>
     encodes vec_key
       [([], [0x00, 0x00]), ([0x01, 0x02], [0x01, 0x02, 0x00, 0x00]),
        ([0x00], [0x00, 0xff, 0x00, 0x00]),
        ([0x00, 0x01, 0x00], [0x00, 0xff, 0x01, 0x00, 0xff, 0x00, 0x00])]"

definition test_decode_part_vec :: bool where
  "test_decode_part_vec \<longleftrightarrow>
     decodes_part vec_key
       [([0x00, 0x00], [], []), ([0x01, 0x02, 0x00, 0x00], [0x01, 0x02], []),
        ([0x00, 0xff, 0x00, 0x00], [0x00], []),
        ([0x00, 0xff, 0x01, 0x00, 0xff, 0x00, 0x00], [0x00, 0x01, 0x00], []),
        ([0x01, 0x00, 0x00, 0xde, 0xad], [0x01], [0xde, 0xad])]
   \<and> panics (decode_part vec_key) [[], [0x01, 0x02], [0x00, 0x01]]"

section \<open>Tuples, references and appended keys\<close>

definition test_encode_tuples :: bool where
  "test_encode_tuples \<longleftrightarrow>
     encodes (tuple2_key u32_key u8_key)
       [((0, 0), [0x00, 0x00, 0x00, 0x00, 0x00]), ((1, 2), [0x00, 0x00, 0x00, 0x01, 0x02]),
        ((- 1, - 1), [0xff, 0xff, 0xff, 0xff, 0xff])]
   \<and> encodes (tuple2_key string_key u8_key) [((str_hi, 1), [0x68, 0x69, 0xff, 0x01])]
   \<and> encodes (tuple2_key u8_key vec_key) [((1, [0x00, 0x42]), [0x01, 0x00, 0xff, 0x42, 0x00, 0x00])]
   \<and> encodes (tuple3_key u8_key bool_key u8_key)
       [((1, False, 2), [0x01, 0x00, 0x02]), ((0, True, 255), [0x00, 0x01, 0xff])]
   \<and> encodes (tuple3_key u8_key vec_key u8_key) [((1, [0x42], 2), [0x01, 0x42, 0x00, 0x00, 0x02])]
   \<and> encodes (tuple4_key u8_key bool_key u8_key bool_key)
       [((1, True, 2, False), [0x01, 0x01, 0x02, 0x00]),
        ((0, False, 0, False), [0x00, 0x00, 0x00, 0x00])]
   \<and> encodes (tuple4_key u8_key string_key u8_key bool_key)
       [((1, str_hi, 2, True), [0x01, 0x68, 0x69, 0xff, 0x02, 0x01])]"

definition test_decode_part_tuples :: bool where
  "test_decode_part_tuples \<longleftrightarrow>
     decodes_part (tuple2_key u32_key u8_key)
       [([0x00, 0x00, 0x00, 0x01, 0x02], (1, 2), []),
        ([0xff, 0xff, 0xff, 0xff, 0xff], (- 1, - 1), []),
        ([0x00, 0x00, 0x00, 0x01, 0x02, 0xde, 0xad], (1, 2), [0xde, 0xad])]
   \<and> decodes_part (tuple2_key string_key u8_key)
       [([0x68, 0x69, 0xff, 0x01, 0xde, 0xad], (str_hi, 1), [0xde, 0xad])]
   \<and> decodes_part (tuple3_key u8_key bool_key u8_key)
       [([0x01, 0x00, 0x02], (1, False, 2), []),
        ([0x00, 0x01, 0xff, 0xca, 0xfe], (0, True, 255), [0xca, 0xfe])]
   \<and> decodes_part (tuple3_key u8_key vec_key u8_key)
       [([0x01, 0x42, 0x00, 0x00, 0x02, 0xbe, 0xef], (1, [0x42], 2), [0xbe, 0xef])]
   \<and> decodes_part (tuple4_key u8_key bool_key u8_key bool_key)
       [([0x01, 0x01, 0x02, 0x00], (1, True, 2, False), []),
        ([0x00, 0x00, 0x00, 0x00, 0xab], (0, False, 0, False), [0xab])]
   \<and> decodes_part (tuple4_key u8_key string_key u8_key bool_key)
       [([0x01, 0x68, 0x69, 0xff, 0x02, 0x01, 0xee], (1, str_hi, 2, True), [0xee])]"

definition test_encode_ref :: bool where
  "test_encode_ref \<longleftrightarrow>
     encode (ref_key u32_key) 1 = encode u32_key 1
   \<and> encode (ref_key bool_key) True = encode bool_key True
   \<and> encode (ref_key string_key) str_hi = encode string_key str_hi
   \<and> encode (ref_key vec_key) [0x00, 0x42] = encode vec_key [0x00, 0x42]"

definition test_decode_part_ref :: bool where
  "test_decode_part_ref \<longleftrightarrow>
     decodes_part (ref_key u32_key)
       [([0x00, 0x00, 0x00, 0x01], 1, []), ([0x00, 0x00, 0x00, 0x01, 0xde, 0xad], 1, [0xde, 0xad])]
   \<and> decodes_part (ref_key string_key) [([0x68, 0x69, 0xff, 0x01], str_hi, [0x01])]"

definition test_encode_single :: bool where
  "test_encode_single \<longleftrightarrow>
     encode (tuple1_key u32_key) (Tup1 1) = encode u32_key 1
   \<and> encode (tuple1_key bool_key) (Tup1 True) = encode bool_key True
   \<and> encode (tuple1_key string_key) (Tup1 str_hi) = encode string_key str_hi
   \<and> encode (tuple1_key vec_key) (Tup1 [0x00, 0x42]) = encode vec_key [0x00, 0x42]"

definition test_decode_part_single :: bool where
  "test_decode_part_single \<longleftrightarrow>
     decodes_part (tuple1_key u32_key)
       [([0x00, 0x00, 0x00, 0x01], Tup1 1, []),
        ([0x00, 0x00, 0x00, 0x01, 0xde, 0xad], Tup1 1, [0xde, 0xad])]
   \<and> decodes_part (tuple1_key string_key) [([0x68, 0x69, 0xff, 0x01], Tup1 str_hi, [0x01])]"

text \<open>A case of the last test: the index key, the primary key, the encoding of the appended key.\<close>

definition appends :: "('ik, 'pk, 'sk) append_key \<Rightarrow> ('ik \<times> 'pk \<times> bytes) list \<Rightarrow> bool" where
  "appends A cases =
     list_all (\<lambda>(index_key, pk, bs). encode (appended_key A) (append_fn A index_key pk) = bs) cases"

definition test_append_key :: bool where
  "test_append_key \<longleftrightarrow>
     appends (append1 u32_key u8_key)
       [(Tup1 0, 0, [0x00, 0x00, 0x00, 0x00, 0x00]), (Tup1 1, 2, [0x00, 0x00, 0x00, 0x01, 0x02]),
        (Tup1 (- 1), - 1, [0xff, 0xff, 0xff, 0xff, 0xff])]
   \<and> appends (append1 u8_key vec_key) [(Tup1 1, [0x02, 0x03], [0x01, 0x02, 0x03, 0x00, 0x00])]
   \<and> appends (append2 u8_key bool_key u32_key)
       [((1, False), 0, [0x01, 0x00, 0x00, 0x00, 0x00, 0x00]),
        ((2, True), 100, [0x02, 0x01, 0x00, 0x00, 0x00, 0x64])]
   \<and> appends (append2 string_key u8_key u32_key)
       [((str_hi, 1), 42, [0x68, 0x69, 0xff, 0x01, 0x00, 0x00, 0x00, 0x2a])]
   \<and> appends (append3 u8_key bool_key u8_key u8_key)
       [((1, True, 2), 3, [0x01, 0x01, 0x02, 0x03]), ((0, False, 255), 0, [0x00, 0x00, 0xff, 0x00])]
   \<and> appends (append3 u8_key bool_key u8_key string_key)
       [((1, True, 2), [0x70, 0x6b], [0x01, 0x01, 0x02, 0x70, 0x6b, 0xff])]"

section \<open>The model passes them\<close>

lemma to_be_bytes_numeral:
  "to_be_bytes (numeral k) w = ucast (drop_bit (8 * pred_numeral k) w) # to_be_bytes (pred_numeral k) w"
  by (simp add: numeral_eq_Suc)

lemma list_update_numeral: "(x # xs)[numeral k := y] = x # xs[pred_numeral k := y]"
  by (simp add: numeral_eq_Suc)

lemma replicate_numeral: "replicate (numeral k) x = x # replicate (pred_numeral k) x"
  by (simp add: numeral_eq_Suc)

lemmas integer_tests =
  encodes_def decodes_part_def split_at_def u8_key_def i8_key_def u128_key_def i128_key_def
  unsigned_key_def signed_key_def size_of_def signed_min_def from_be_bytes_def
  to_be_bytes_numeral list_update_numeral replicate_numeral
  mask_eq_exp_minus_1 unsigned_minus_1_eq_mask

lemma passes_encode_integers: "test_encode_integers"
  unfolding test_encode_integers_def by (simp add: integer_tests)

lemma passes_decode_part_integers: "test_decode_part_integers"
  unfolding test_decode_part_integers_def by (simp add: integer_tests)

lemma passes_unsized:
  "test_decode" "test_encode_unsized" "test_decode_unsized" "test_unsized_round_trip"
  by code_simp+

lemma passes_keys:
  "test_encode_bool" "test_decode_part_bool" "test_encode_string" "test_decode_part_string"
  "test_encode_array" "test_decode_part_array" "test_encode_vec" "test_decode_part_vec"
  by code_simp+

lemma passes_tuples:
  "test_encode_tuples" "test_decode_part_tuples" "test_encode_ref" "test_decode_part_ref"
  "test_encode_single" "test_decode_part_single" "test_append_key"
  by code_simp+

end
