(* ===== verification/Mock.thy ===== *)
theory Mock
  imports Collection_Spec
begin

text \<open>
  The mock backend of \<open>src/testing.rs\<close>: it serves \<open>get\<close> from data that is fixed beforehand, keeps
  nothing that is written, fails where it is told to, and logs every call in a \<open>TxLog\<close>. In the
  code the log is one shared cell; here it moves from the database into the write handle and the
  store opened from it and back. A read through the interface of a backend hands no state back,
  so the log of \<open>get\<close> and \<open>scan\<close> is what \<open>mock_get\<close> and \<open>mock_scan\<close> return, and \<open>mock_ms\<close> drops it;
  a body that fails drops its handle as it was opened, and with it the log of its calls. What is
  said of the log below is of calls that succeed.
  The mock is no lawful backend; it shows in which order a collection calls one.
\<close>

section \<open>Log\<close>

record scan_log =
  log_left :: scan_bound
  log_right :: scan_bound
  log_direction :: direction

record tx_log =
  opens :: "name list"
  gets :: "bytes list"
  sets :: "(bytes \<times> bytes) list"
  removes :: "bytes list"
  scans :: "scan_log list"
  committed :: bool

definition tx_log_new :: tx_log where
  "tx_log_new = \<lparr>opens = [], gets = [], sets = [], removes = [], scans = [], committed = False\<rparr>"

text \<open>\<open>backend_error\<close>: an \<open>io::Error\<close> of the message, boxed.\<close>

definition backend_error_of :: "string \<Rightarrow> std_error" where
  "backend_error_of msg = backend_error_as_std (BackendError (StdError msg None))"

section \<open>Stores\<close>

type_synonym mock_data = "bytes \<Rightarrow> bytes option"

record mock_store =
  store_log :: tx_log
  store_data :: mock_data

definition mock_get :: "bytes \<Rightarrow> mock_store \<Rightarrow> (std_error, bytes option) outcome \<times> mock_store" where
  "mock_get key st =
     (let st = st\<lparr>store_log := (store_log st)\<lparr>gets := gets (store_log st) @ [key]\<rparr>\<rparr>
      in (Ret (store_data st key), st))"

definition mock_scan ::
  "scan_range \<Rightarrow> direction \<Rightarrow> mock_store \<Rightarrow> (std_error, scan_results) outcome \<times> mock_store" where
  "mock_scan r d st =
     (let entry = \<lparr>log_left = fst r, log_right = snd r, log_direction = d\<rparr>
      in (Ret [], st\<lparr>store_log := (store_log st)\<lparr>scans := scans (store_log st) @ [entry]\<rparr>\<rparr>))"

definition mock_set :: "bytes \<Rightarrow> bytes \<Rightarrow> mock_store \<Rightarrow> mock_store" where
  "mock_set key val st = st\<lparr>store_log := (store_log st)\<lparr>sets := sets (store_log st) @ [(key, val)]\<rparr>\<rparr>"

definition mock_remove :: "bytes \<Rightarrow> mock_store \<Rightarrow> mock_store" where
  "mock_remove key st = st\<lparr>store_log := (store_log st)\<lparr>removes := removes (store_log st) @ [key]\<rparr>\<rparr>"

section \<open>Handles\<close>

text \<open>A read handle has no error to make on commit.\<close>

record mock_handle =
  handle_log :: tx_log
  handle_data :: "name \<Rightarrow> mock_data option"
  handle_commit_err :: "std_error option"

definition mock_open :: "name \<Rightarrow> mock_handle \<Rightarrow> mock_store" where
  "mock_open n h =
     \<lparr>store_log = (handle_log h)\<lparr>opens := opens (handle_log h) @ [n]\<rparr>,
      store_data = (case handle_data h n of None \<Rightarrow> (\<lambda>_. None) | Some data \<Rightarrow> data)\<rparr>"

section \<open>The database\<close>

record mock_db =
  db_log :: tx_log
  db_data :: "name \<Rightarrow> mock_data option"
  read_err :: "std_error option"
  write_err :: "std_error option"
  commit_err :: "std_error option"

definition mock_new :: mock_db where
  "mock_new = \<lparr>db_log = tx_log_new, db_data = (\<lambda>_. None), read_err = None, write_err = None, commit_err = None\<rparr>"

definition with_data :: "name \<Rightarrow> bytes \<Rightarrow> bytes \<Rightarrow> mock_db \<Rightarrow> mock_db" where
  "with_data store key val db =
     (let entry = (case db_data db store of None \<Rightarrow> (\<lambda>_. None) | Some data \<Rightarrow> data)
      in db\<lparr>db_data := (db_data db)(store \<mapsto> entry(key \<mapsto> val))\<rparr>)"

definition with_read_err :: "std_error \<Rightarrow> mock_db \<Rightarrow> mock_db" where
  "with_read_err e db = db\<lparr>read_err := Some e\<rparr>"

definition with_write_err :: "std_error \<Rightarrow> mock_db \<Rightarrow> mock_db" where
  "with_write_err e db = db\<lparr>write_err := Some e\<rparr>"

definition with_commit_err :: "std_error \<Rightarrow> mock_db \<Rightarrow> mock_db" where
  "with_commit_err e db = db\<lparr>commit_err := Some e\<rparr>"

definition mock_read :: "name \<Rightarrow> mock_db \<Rightarrow> (std_error, mock_handle) outcome" where
  "mock_read ns db =
     (case read_err db of
        Some e \<Rightarrow> Fail e
      | None \<Rightarrow> Ret \<lparr>handle_log = db_log db, handle_data = db_data db, handle_commit_err = None\<rparr>)"

definition mock_write :: "name \<Rightarrow> mock_db \<Rightarrow> (std_error, mock_handle \<times> mock_db) outcome" where
  "mock_write ns db =
     (case write_err db of
        Some e \<Rightarrow> Fail e
      | None \<Rightarrow> Ret (\<lparr>handle_log = db_log db, handle_data = db_data db, handle_commit_err = commit_err db\<rparr>, db))"

text \<open>The log goes back into the shared cell, whichever way the handle ends.\<close>

definition mock_drop :: "mock_handle \<Rightarrow> mock_db \<Rightarrow> mock_db" where
  "mock_drop h db = db\<lparr>db_log := handle_log h\<rparr>"

definition mock_commit :: "mock_handle \<Rightarrow> mock_db \<Rightarrow> (std_error, unit) outcome \<times> mock_db" where
  "mock_commit h db =
     (let h = h\<lparr>handle_log := (handle_log h)\<lparr>committed := True\<rparr>\<rparr>
      in (case handle_commit_err h of Some e \<Rightarrow> Fail e | None \<Rightarrow> Ret (), mock_drop h db))"

definition mock_ms ::
  "(mock_db, mock_handle, mock_store, mock_handle, mock_handle \<times> mock_store) multistore" where
  "mock_ms = \<lparr>
     ms_prepare = (\<lambda>ns names db. Ret db), ms_read = mock_read, ms_write = mock_write,
     rh_open = (\<lambda>n h. Ret (mock_open n h)),
     rs_get = (\<lambda>k st. fst (mock_get k st)), rs_scan = (\<lambda>r d st. fst (mock_scan r d st)),
     wh_open = (\<lambda>n h. Ret (h, mock_open n h)),
     ws_get = (\<lambda>k ws. fst (mock_get k (snd ws))),
     ws_set = (\<lambda>k v ws. Ret (fst ws, mock_set k v (snd ws))),
     ws_remove = (\<lambda>k ws. Ret (fst ws, mock_remove k (snd ws))),
     ws_scan = (\<lambda>r d ws. fst (mock_scan r d (snd ws))),
     ws_close = (\<lambda>ws. (fst ws)\<lparr>handle_log := store_log (snd ws)\<rparr>),
     ms_drop = mock_drop, ms_commit = mock_commit\<rparr>"

section \<open>The spy registry\<close>

text \<open>The thread-local flags of \<open>SpyRegistry\<close>, passed through.\<close>

record spy_flags =
  update_called :: bool
  remove_called :: bool
  should_fail :: bool

definition spy_reset :: "spy_flags \<Rightarrow> spy_flags" where
  "spy_reset fl = \<lparr>update_called = False, remove_called = False, should_fail = False\<rparr>"

definition spy_set_fail :: "bool \<Rightarrow> spy_flags \<Rightarrow> spy_flags" where
  "spy_set_fail b fl = fl\<lparr>should_fail := b\<rparr>"

definition fail_if_needed :: "spy_flags \<Rightarrow> (error, unit) outcome" where
  "fail_if_needed fl = (if should_fail fl then Fail (Unexpected ''injected registry error'') else Ret ())"

definition spy_update :: "spy_flags \<Rightarrow> (error, unit) outcome \<times> spy_flags" where
  "spy_update fl = (let fl = fl\<lparr>update_called := True\<rparr> in (fail_if_needed fl, fl))"

definition spy_remove :: "spy_flags \<Rightarrow> (error, unit) outcome \<times> spy_flags" where
  "spy_remove fl = (let fl = fl\<lparr>remove_called := True\<rparr> in (fail_if_needed fl, fl))"

section \<open>Traces\<close>

lemma mock_ms_simps [simp]:
  "ms_read mock_ms = mock_read" "ms_write mock_ms = mock_write"
  "rh_open mock_ms n h = Ret (mock_open n h)" "wh_open mock_ms n h = Ret (h, mock_open n h)"
  "rs_get mock_ms k st = fst (mock_get k st)" "ws_get mock_ms k ws = fst (mock_get k (snd ws))"
  "ws_set mock_ms k v ws = Ret (fst ws, mock_set k v (snd ws))"
  "ws_remove mock_ms k ws = Ret (fst ws, mock_remove k (snd ws))"
  "ws_close mock_ms ws = (fst ws)\<lparr>handle_log := store_log (snd ws)\<rparr>"
  "ms_drop mock_ms = mock_drop" "ms_commit mock_ms = mock_commit"
  by (simp_all add: mock_ms_def)

text \<open>A log that goes on with the names of opened stores, the pairs set and the keys removed.\<close>

definition logs_on :: "name list \<Rightarrow> (bytes \<times> bytes) list \<Rightarrow> bytes list \<Rightarrow> tx_log \<Rightarrow> tx_log" where
  "logs_on os ss rs L = L\<lparr>opens := opens L @ os, sets := sets L @ ss, removes := removes L @ rs\<rparr>"

lemma logs_on_logs_on [simp]:
  "logs_on os' ss' rs' (logs_on os ss rs L) = logs_on (os @ os') (ss @ ss') (rs @ rs') L"
  by (simp add: logs_on_def)

lemma logs_on_Nil [simp]: "logs_on [] [] [] L = L"
  by (simp add: logs_on_def)

lemma mock_logs [simp]:
  "store_log (mock_open n h) = logs_on [n] [] [] (handle_log h)"
  "store_data (mock_open n h) = (case handle_data h n of None \<Rightarrow> (\<lambda>_. None) | Some data \<Rightarrow> data)"
  "store_log (mock_set k v st) = logs_on [] [(k, v)] [] (store_log st)"
  "store_log (mock_remove k st) = logs_on [] [] [k] (store_log st)"
  "store_data (mock_set k v st) = store_data st" "store_data (mock_remove k st) = store_data st"
  "fst (mock_get k st) = Ret (store_data st k)"
  by (simp_all add: mock_open_def mock_set_def mock_remove_def mock_get_def logs_on_def Let_def)

text \<open>What an index writes for a record, and what it removes.\<close>

definition index_sets :: "'pk key \<Rightarrow> 'pk \<Rightarrow> 'r option \<Rightarrow> 'r \<Rightarrow> ('r, 'pk) any_index \<Rightarrow> (bytes \<times> bytes) list" where
  "index_sets PK pk old new X =
     (if \<exists>r. old = Some r \<and> ix_same_key X r new pk then [] else [(ix_store_key X new pk, encode PK pk)])"

definition index_removes :: "'pk \<Rightarrow> 'r option \<Rightarrow> 'r \<Rightarrow> ('r, 'pk) any_index \<Rightarrow> bytes list" where
  "index_removes pk old new X =
     (case old of
        None \<Rightarrow> []
      | Some r \<Rightarrow> if ix_same_key X r new pk then [] else [ix_store_key X r pk])"

lemma index_update_trace:
  "index_update mock_ms X PK pk old new h = Ret h' \<Longrightarrow>
   h' = h\<lparr>handle_log := logs_on [ix_name X] (index_sets PK pk old new X) (index_removes pk old new X) (handle_log h)\<rparr>"
  by (cases old)
    (auto simp: index_update_def index_write_def index_put_def index_sets_def index_removes_def Let_def
      split: if_splits)

lemma registry_update_trace:
  "registry_update mock_ms T PK pk old new h = Ret h' \<Longrightarrow>
   h' = h\<lparr>handle_log := logs_on (List.map ix_name T) (concat (List.map (index_sets PK pk old new) T))
           (concat (List.map (index_removes pk old new) T)) (handle_log h)\<rparr>"
proof (induction T arbitrary: h)
  case (Cons X T)
  then obtain h1 where h1: "index_update mock_ms X PK pk old new h = Ret h1"
      "registry_update mock_ms T PK pk old new h1 = Ret h'"
    by (auto simp: and_then_eq_Ret)
  show ?case using Cons.IH [OF h1(2)] index_update_trace [OF h1(1)] by simp
qed simp

text \<open>The calls of a method that stores a record, from the first to the commit.\<close>

definition put_log :: "('r, 'pk) item \<Rightarrow> ('r, 'pk) registry \<Rightarrow> 'r option \<Rightarrow> 'r \<Rightarrow> bytes \<Rightarrow> tx_log \<Rightarrow> tx_log" where
  "put_log R T old r bs L =
     (let pk = item_key R r in
      (logs_on (MAIN_STORE # List.map ix_name T)
        ((encode (pk_key R) pk, bs) # concat (List.map (index_sets (pk_key R) pk old r) T))
        (concat (List.map (index_removes pk old r) T)) L)\<lparr>committed := True\<rparr>)"

lemma put_record_trace:
  assumes "put_record mock_ms R T old r (h, mock_open MAIN_STORE h) = Ret e"
  shows "\<exists>bs h'. to_bytes R r = Ret bs \<and> e = Commit h' \<and>
           (handle_log h')\<lparr>committed := True\<rparr> = put_log R T old r bs (handle_log h) \<and>
           handle_commit_err h' = handle_commit_err h"
  using assms
  by (auto simp: put_record_def put_log_def Let_def and_then_eq_Ret map_err_eq_Ret dest!: registry_update_trace)

lemma transact_mock:
  assumes "transact mock_ms nm db body = (Ret (), db')"
  shows "\<exists>h. mock_write nm db = Ret (h, db) \<and> handle_log h = db_log db \<and> handle_data h = db_data db \<and>
           (body h = Ret Leave \<and> db_log db' = db_log db \<or>
            (\<exists>h'. body h = Ret (Commit h') \<and> handle_commit_err h' = None \<and>
                  db_log db' = (handle_log h')\<lparr>committed := True\<rparr>))"
proof -
  obtain h where h: "mock_write nm db = Ret (h, db)" "handle_log h = db_log db" "handle_data h = db_data db"
    using assms by (cases "write_err db") (auto simp: transact_def mock_write_def)
  then show ?thesis
    using assms
    by (auto simp: transact_def mock_commit_def mock_drop_def Let_def
        split: outcome.splits ending.splits option.splits)
qed

section \<open>Property\<close>

text \<open>C40: The calls of a successful \<open>save\<close>, as the mock logs them. It opens the primary store and then the
  store of each index, in the order of the registry; it sets the record under its primary key
  first, then, for each index whose store key changed, removes the old store key and sets the
  new one; the commit follows.\<close>

lemma save_calls:
  assumes "collection_save mock_ms R T nm r db = (Ret (), db')"
  shows "\<exists>old bs.
     decode_stored R (store_data (mock_open MAIN_STORE \<lparr>handle_log = db_log db, handle_data = db_data db,
       handle_commit_err = commit_err db\<rparr>) (encode (pk_key R) (item_key R r))) = Ret old \<and>
     to_bytes R r = Ret bs \<and>
     opens (db_log db') = opens (db_log db) @ MAIN_STORE # List.map ix_name T \<and>
     sets (db_log db') = sets (db_log db) @ (encode (pk_key R) (item_key R r), bs) #
       concat (List.map (index_sets (pk_key R) (item_key R r) old r) T) \<and>
     removes (db_log db') = removes (db_log db) @ concat (List.map (index_removes (item_key R r) old r) T) \<and>
     committed (db_log db')"
proof -
  obtain h e where h: "mock_write nm db = Ret (h, db)" "handle_log h = db_log db" "handle_data h = db_data db"
      "save_body mock_ms R T r h = Ret e"
      "e = Leave \<and> db_log db' = db_log db \<or>
       (\<exists>h'. e = Commit h' \<and> db_log db' = (handle_log h')\<lparr>committed := True\<rparr>)"
    using transact_mock [OF assms [unfolded collection_save_def]] by blast
  obtain old where old: "decode_stored R (store_data (mock_open MAIN_STORE h) (encode (pk_key R) (item_key R r))) = Ret old"
      "put_record mock_ms R T old r (h, mock_open MAIN_STORE h) = Ret e"
    using h(4) by (auto simp: save_body_def Let_def and_then_eq_Ret)
  obtain bs h' where put: "to_bytes R r = Ret bs" "e = Commit h'"
      "(handle_log h')\<lparr>committed := True\<rparr> = put_log R T old r bs (handle_log h)"
    using put_record_trace [OF old(2)] by blast
  then have "db_log db' = put_log R T old r bs (db_log db)" using h by auto
  then show ?thesis using old(1) put(1) h(2,3)
    by (intro exI [of _ old] exI [of _ bs]) (simp add: put_log_def logs_on_def Let_def)
qed

text \<open>The record of the tests of \<open>src/collection.rs\<close>, with an index on its id.\<close>

definition test_item :: "(32 word, 32 word) item" where
  "test_item = \<lparr>item_key = (\<lambda>r. r), to_bytes = (\<lambda>r. Ret (to_be_bytes 4 r)),
     from_bytes = (\<lambda>bs. if length bs = 4 then Ret (from_be_bytes bs) else Fail (StdError ''bad length'' None)),
     pk_key = u32_key, pk_debug = (\<lambda>r. [])\<rparr>"

definition by_id :: "(32 word, 32 word) any_index" where
  "by_id = erase_index \<lparr>index_name = ''by_id'', index_key = (\<lambda>r. r), index_key_key = u32_key,
     kind = unique_kind u32_key (\<lambda>k. [])\<rparr>"

lemma save_calls_witness:
  "\<exists>db. collection_save mock_ms test_item [by_id] ''col'' 1 mock_new = (Ret (), db) \<and>
     opens (db_log db) = [''__main'', ''by_id''] \<and> committed (db_log db)"
proof -
  obtain db where db: "collection_save mock_ms test_item [by_id] ''col'' 1 mock_new = (Ret (), db)"
    by (simp add: collection_save_def transact_def save_body_def mock_write_def mock_new_def put_record_def
        test_item_def by_id_def erase_index_def unique_kind_def index_update_def index_write_def index_put_def
        mock_commit_def mock_open_def mock_get_def mock_set_def Let_def)
  show ?thesis
    using save_calls [OF db] db by (auto simp: mock_new_def tx_log_new_def MAIN_STORE_def by_id_def erase_index_def Let_def)
qed

end
