(* ===== verification/Scan_Vectors.thy ===== *)
theory Scan_Vectors
  imports Scan Mock
begin

text \<open>
  The unit tests of \<open>src/prefix.rs\<close>, \<open>src/bounds.rs\<close> and \<open>src/scan.rs\<close>, and the two of
  \<open>src/index.rs\<close>, run on the model: one boolean per test function (per group of them in
  \<open>src/scan.rs\<close>), and one lemma per group that they evaluate to true. The scans run against
  the mock backend, whose log they read.
\<close>

section \<open>Prefixes\<close>

definition test_prefix_end :: bool where
  "test_prefix_end \<longleftrightarrow>
     list_all (\<lambda>(p, expected). prefix_end p = expected)
       [([], Unbounded), ([0x01], Excluded [0x02]), ([0x01, 0x02], Excluded [0x01, 0x03]),
        ([0x01, 0xff], Excluded [0x02]), ([0xff], Unbounded), ([0xff, 0xff], Unbounded)]"

definition test_encoded_prefix_range :: bool where
  "test_encoded_prefix_range \<longleftrightarrow>
     list_all (\<lambda>(p, expected). encoded_prefix_range p = expected)
       [([], Unbounded, Unbounded), ([0x01, 0x02], Included [0x01, 0x02], Excluded [0x01, 0x03]),
        ([0xff], Included [0xff], Unbounded)]"

definition test_encode_prefix :: bool where
  "test_encode_prefix \<longleftrightarrow>
     encode_prefix u32_key 42 = encode u32_key 42
   \<and> encode_prefix (tuple2_key u8_key u16_key) (1, 2) = encode (tuple2_key u8_key u16_key) (1, 2)"

definition test_compose :: bool where
  "test_compose \<longleftrightarrow>
     compose (prefix2 u8_key u16_key) 1 2 = (1, 2)
   \<and> compose (prefix3_1 u8_key u16_key u32_key) 1 (2, 3) = (1, 2, 3)
   \<and> compose (prefix3_2 u8_key u16_key u32_key) (1, 2) 3 = (1, 2, 3)
   \<and> compose (prefix4_1 u8_key u16_key u32_key u64_key) 1 (2, 3, 4) = (1, 2, 3, 4)
   \<and> compose (prefix4_2 u8_key u16_key u32_key u64_key) (1, 2) (3, 4) = (1, 2, 3, 4)
   \<and> compose (prefix4_3 u8_key u16_key u32_key u64_key) (1, 2, 3) 4 = (1, 2, 3, 4)"

lemma passes_prefix: "test_prefix_end" "test_encoded_prefix_range" "test_encode_prefix" "test_compose"
  by code_simp+

section \<open>Bounds\<close>

definition pair_key :: "(32 word \<times> 16 word) key" where
  "pair_key = tuple2_key u32_key u16_key"

definition pair_prefix :: "(32 word, 16 word, 32 word \<times> 16 word) prefixing" where
  "pair_prefix = prefix2 u32_key u16_key"

definition test_encode_range :: bool where
  "test_encode_range \<longleftrightarrow>
     encode_range ExactEncoder pair_key (Included (1, 10), Excluded (2, 20)) =
       (Included (encode pair_key (1, 10)), Excluded (encode pair_key (2, 20)))
   \<and> encode_range PrefixEncoder pair_key (Excluded (1, 10), Unbounded) =
       (prefix_end (encode pair_key (1, 10)), Unbounded)
   \<and> encode_range PrefixEncoder pair_key (Unbounded, Included (1, 10)) =
       (Unbounded, prefix_end (encode pair_key (1, 10)))"

definition test_exact_prefixed_range :: bool where
  "test_exact_prefixed_range \<longleftrightarrow>
     encode_prefixed_range ExactEncoder pair_key pair_prefix 7 (Excluded 10, Included 20) =
       (Excluded (encode pair_key (7, 10)), Included (encode pair_key (7, 20)))
   \<and> encode_prefixed_range ExactEncoder pair_key pair_prefix 7 (Unbounded, Unbounded) =
       (Included (encode u32_key 7), prefix_end (encode u32_key 7))"

definition test_prefix_prefixed_range :: bool where
  "test_prefix_prefixed_range \<longleftrightarrow>
     encode_prefixed_range PrefixEncoder pair_key pair_prefix 7 (Unbounded, Included 20) =
       (Included (encode u32_key 7), prefix_end (encode pair_key (7, 20)))
   \<and> encode_prefixed_range PrefixEncoder pair_key pair_prefix 7 (Excluded 10, Unbounded) =
       (prefix_end (encode pair_key (7, 10)), prefix_end (encode u32_key 7))"

lemma passes_bounds: "test_encode_range" "test_exact_prefixed_range" "test_prefix_prefixed_range"
  by code_simp+

section \<open>Cursors of an index\<close>

record indexed_record =
  ir_id :: "32 word"
  ir_email_id :: "16 word"
  ir_group :: "16 word"

definition indexed_item :: "(indexed_record, 32 word) item" where
  "indexed_item = \<lparr>item_key = ir_id, to_bytes = (\<lambda>r. Ret []),
     from_bytes = (\<lambda>bs. Ret \<lparr>ir_id = 0, ir_email_id = 0, ir_group = 0\<rparr>), pk_key = u32_key, pk_debug = (\<lambda>k. [])\<rparr>"

definition by_email_id :: "(indexed_record, 16 word, 32 word, 16 word) index_type" where
  "by_email_id = \<lparr>index_name = ''by_email_id'', index_key = ir_email_id, index_key_key = u16_key,
     kind = unique_kind u16_key (\<lambda>k. [])\<rparr>"

definition by_group :: "(indexed_record, 16 word tup1, 32 word, 16 word \<times> 32 word) index_type" where
  "by_group = \<lparr>index_name = ''by_group'', index_key = (\<lambda>r. Tup1 (ir_group r)), index_key_key = tuple1_key u16_key,
     kind = multi_kind (append1 u16_key u32_key) (\<lambda>k. [])\<rparr>"

definition test_index_cursor :: bool where
  "test_index_cursor \<longleftrightarrow>
     (let r = \<lparr>ir_id = 42, ir_email_id = 7, ir_group = 3\<rparr> in
      cursor_into_key_vec (index_cursor indexed_item by_email_id r) = Some (encode u16_key 7)
    \<and> cursor_into_key_vec (index_cursor indexed_item by_group r) =
        Some (encode (tuple2_key u16_key u32_key) (3, 42)))"

lemma passes_index_cursor: "test_index_cursor"
  by code_simp

section \<open>Scans\<close>

text \<open>
  The record and the two indexes of the tests; only the id of a record is stored. The
  non-unique index has a pair as its key, and its first component as prefix.
\<close>

record scan_record =
  sr_id :: "32 word"
  sr_group :: "32 word"
  sr_number :: "32 word"

definition scan_item :: "(scan_record, 32 word) item" where
  "scan_item = \<lparr>item_key = sr_id, to_bytes = (\<lambda>r. Ret (to_be_bytes 4 (sr_id r))),
     from_bytes = (\<lambda>bs. if length bs = 4 then Ret \<lparr>sr_id = from_be_bytes bs, sr_group = 0, sr_number = 0\<rparr>
                        else Fail (StdError ''bad length'' None)),
     pk_key = u32_key, pk_debug = (\<lambda>k. [])\<rparr>"

definition number_key :: "(32 word \<times> 32 word) key" where
  "number_key = tuple2_key u32_key u32_key"

definition number_store_key :: "(32 word \<times> 32 word \<times> 32 word) key" where
  "number_store_key = tuple3_key u32_key u32_key (ref_key u32_key)"

definition number_prefix :: "(32 word, 32 word, 32 word \<times> 32 word) prefixing" where
  "number_prefix = prefix2 u32_key u32_key"

definition encode_index_key :: "32 word \<Rightarrow> 32 word \<Rightarrow> bytes" where
  "encode_index_key grp number = encode number_key (grp, number)"

definition encode_store_key :: "32 word \<Rightarrow> 32 word \<Rightarrow> 32 word \<Rightarrow> bytes" where
  "encode_store_key grp number pk = encode number_store_key (grp, number, pk)"

text \<open>
  \<open>assert_scan\<close> and \<open>assert_collection_scan\<close>: the chain of builder calls is applied to a fresh
  scan of an empty mock, and the one call the mock logs is compared; \<open>None\<close> expects
  \<open>CursorOutOfBounds\<close>, and no store opened.
\<close>

definition logged_scan :: "name \<Rightarrow> mock_handle compiled_scan \<Rightarrow> scan_log list" where
  "logged_scan n c =
     scans (store_log (snd (mock_scan (fst (cs_range c), snd (cs_range c)) (cs_direction c)
       (mock_open n (read_handle (cs_executor c))))))"

definition assert_compiled ::
  "name \<Rightarrow> (mock_handle, 32 word) scan \<Rightarrow> scan_log option \<Rightarrow> bool" where
  "assert_compiled n sc expected =
     (case compile number_prefix sc of
        Ret c \<Rightarrow> (case compiled_iter mock_ms c of Ret _ \<Rightarrow> True | _ \<Rightarrow> False)
               \<and> Some (logged_scan n c) = map_option (\<lambda>l. [l]) expected
      | Fail CursorOutOfBounds \<Rightarrow> expected = None
      | _ \<Rightarrow> False)"

definition with_read :: "mock_db \<Rightarrow> (mock_handle \<Rightarrow> bool) \<Rightarrow> bool" where
  "with_read db test = (case mock_read ''records'' db of Ret h \<Rightarrow> test h | _ \<Rightarrow> False)"

definition assert_scan ::
  "((mock_handle, 32 word) scan \<Rightarrow> (mock_handle, 32 word) scan) \<Rightarrow> scan_log option \<Rightarrow> bool" where
  "assert_scan mk expected =
     with_read mock_new (\<lambda>h.
       assert_compiled ''number'' (mk (index_scan_new ''number'' h ''records'')) expected)"

definition assert_collection_scan ::
  "((mock_handle, 32 word) scan \<Rightarrow> (mock_handle, 32 word) scan) \<Rightarrow> scan_log option \<Rightarrow> bool" where
  "assert_collection_scan mk expected =
     with_read mock_new (\<lambda>h.
       assert_compiled ''records'' (mk (collection_scan_new h ''records'')) expected)"

definition scan_log_of :: "scan_bound \<Rightarrow> scan_bound \<Rightarrow> direction \<Rightarrow> scan_log option" where
  "scan_log_of left right d = Some \<lparr>log_left = left, log_right = right, log_direction = d\<rparr>"

text \<open>The ranges and cursors the tests share.\<close>

definition ranged_scan :: "(mock_handle, 32 word) scan \<Rightarrow> (mock_handle, 32 word) scan" where
  "ranged_scan = scan_in_range PrefixEncoder number_key (Included (1, 10), Excluded (3, 30))"

definition at_store_key :: "32 word \<Rightarrow> cursor" where
  "at_store_key grp = cursor_from_key number_store_key (grp, 20, 200)"

definition test_full_scan_opens :: bool where
  "test_full_scan_opens \<longleftrightarrow>
     assert_scan (\<lambda>sc. sc) (scan_log_of Unbounded Unbounded LeftToRight)"

definition test_full_scan :: bool where
  "test_full_scan \<longleftrightarrow>
     assert_scan (scan_direction RightToLeft) (scan_log_of Unbounded Unbounded RightToLeft)
   \<and> assert_scan (scan_after (at_store_key 2))
       (scan_log_of (Excluded (encode_store_key 2 20 200)) Unbounded LeftToRight)
   \<and> assert_scan (scan_after NoCursor) (scan_log_of Unbounded Unbounded LeftToRight)"

definition test_range_scan :: bool where
  "test_range_scan \<longleftrightarrow>
     assert_scan ranged_scan
       (scan_log_of (Included (encode_index_key 1 10)) (Excluded (encode_index_key 3 30)) LeftToRight)
   \<and> assert_scan (scan_direction RightToLeft \<circ> ranged_scan)
       (scan_log_of (Included (encode_index_key 1 10)) (Excluded (encode_index_key 3 30)) RightToLeft)"

definition test_prefix_scan :: bool where
  "test_prefix_scan \<longleftrightarrow>
     (let (left, right) = encoded_prefix_range (encode u32_key 2) in
      assert_scan (scan_prefix 2) (scan_log_of left right LeftToRight)
    \<and> assert_scan (scan_after (at_store_key 2) \<circ> scan_prefix 2)
        (scan_log_of (Excluded (encode_store_key 2 20 200)) right LeftToRight)
    \<and> assert_scan (scan_in_prefixed_range PrefixEncoder number_key number_prefix 2 (Included 20, Excluded 30))
        (scan_log_of (Included (encode_index_key 2 20)) (Excluded (encode_index_key 2 30)) LeftToRight)
    \<and> assert_scan (scan_in_prefixed_range PrefixEncoder number_key number_prefix 2 (Unbounded, Unbounded))
        (scan_log_of left right LeftToRight)
    \<and> assert_scan (scan_direction RightToLeft \<circ> scan_prefix 2) (scan_log_of left right RightToLeft))"

definition test_scan_cursors :: bool where
  "test_scan_cursors \<longleftrightarrow>
     assert_scan (scan_after (at_store_key 2) \<circ> scan_direction LeftToRight \<circ> ranged_scan)
       (scan_log_of (Excluded (encode_store_key 2 20 200)) (Excluded (encode_index_key 3 30)) LeftToRight)
   \<and> assert_scan (scan_after (at_store_key 2) \<circ> ranged_scan)
       (scan_log_of (Excluded (encode_store_key 2 20 200)) (Excluded (encode_index_key 3 30)) LeftToRight)
   \<and> assert_scan
       (scan_after (cursor_from_key number_key (1, 10)) \<circ>
        scan_in_range PrefixEncoder number_key (Excluded (1, 10), Included (3, 30))) None
   \<and> assert_scan
       (scan_after (cursor_from_key number_key (3, 30)) \<circ> scan_direction RightToLeft \<circ> ranged_scan) None
   \<and> assert_scan (scan_after (at_store_key 2) \<circ> scan_direction RightToLeft \<circ> ranged_scan)
       (scan_log_of (Included (encode_index_key 1 10)) (Excluded (encode_store_key 2 20 200)) RightToLeft)
   \<and> assert_scan (scan_after (at_store_key 3) \<circ> scan_prefix 2) None"

definition test_collection_scan :: bool where
  "test_collection_scan \<longleftrightarrow>
     assert_collection_scan (\<lambda>sc. sc) (scan_log_of Unbounded Unbounded LeftToRight)
   \<and> assert_collection_scan (scan_in_range ExactEncoder u32_key (Included 10, Excluded 20))
       (scan_log_of (Included (encode u32_key 10)) (Excluded (encode u32_key 20)) LeftToRight)
   \<and> assert_collection_scan (scan_direction RightToLeft) (scan_log_of Unbounded Unbounded RightToLeft)
   \<and> assert_collection_scan (scan_after (cursor_from_key u32_key 10))
       (scan_log_of (Excluded (encode u32_key 10)) Unbounded LeftToRight)
   \<and> assert_collection_scan (scan_after NoCursor) (scan_log_of Unbounded Unbounded LeftToRight)
   \<and> assert_collection_scan (scan_after (cursor_from_key u32_key 10) \<circ> scan_direction RightToLeft)
       (scan_log_of Unbounded (Excluded (encode u32_key 10)) RightToLeft)
   \<and> assert_collection_scan
       (scan_after (cursor_from_key u32_key 30) \<circ>
        scan_in_range ExactEncoder u32_key (Included 10, Excluded 20)) None"

lemma passes_scans:
  "test_full_scan_opens" "test_full_scan" "test_range_scan" "test_prefix_scan" "test_scan_cursors" "test_collection_scan"
  by code_simp+

section \<open>Lookup by a unique key\<close>

text \<open>The results of the two tests; the log of a read is not handed back by the interface.\<close>

definition test_index_get_found :: bool where
  "test_index_get_found \<longleftrightarrow>
     (case to_bytes scan_item \<lparr>sr_id = 7, sr_group = 2, sr_number = 99\<rparr> of
        Ret bs \<Rightarrow>
          (let pk = encode u32_key 7;
               db = with_data ''records'' pk bs (with_data ''unique_number'' (encode u32_key 99) pk mock_new) in
           with_read db (\<lambda>h.
             index_get mock_ms scan_item u32_key ''unique_number'' ''records'' h 99 =
               Ret (Some \<lparr>sr_id = 7, sr_group = 0, sr_number = 0\<rparr>)))
      | _ \<Rightarrow> False)"

definition test_index_get_missing :: bool where
  "test_index_get_missing \<longleftrightarrow>
     with_read mock_new (\<lambda>h.
       index_get mock_ms scan_item u32_key ''unique_number'' ''records'' h 99 = Ret None)"

lemma passes_index_get: "test_index_get_found" "test_index_get_missing"
  by code_simp+

end
