(* ===== verification/Effects.thy ===== *)
theory Effects
  imports History Mock
begin

text \<open>
  The methods of a collection with their effects on a state, errors included: what was called
  before a method fails is not lost, as it is in \<open>Collection\<close>, where a body that fails hands nothing
  back. So the registry can be any implementation of \<open>IndexRegistry\<close> of \<open>src/index_registry.rs\<close>
  and an index any implementation of \<open>Index\<close>, its \<open>update\<close> and \<open>remove\<close> overridden or not; and
  the mock of \<open>src/testing.rs\<close> has the one log that its handles and stores share.

  On every backend the methods with the default indexes are those of \<open>Collection\<close>. The properties
  are of registries that do whatever they like with the write handle they are lent.
\<close>

section \<open>Effects\<close>

type_synonym ('s, 'e, 'a) effect = "'s \<Rightarrow> ('e, 'a) outcome \<times> 's"

definition then_do :: "('s, 'e, 'a) effect \<Rightarrow> ('a \<Rightarrow> ('s, 'e, 'b) effect) \<Rightarrow> ('s, 'e, 'b) effect" where
  "then_do m f s =
     (case m s of
        (Ret a, s) \<Rightarrow> f a s
      | (Fail e, s) \<Rightarrow> (Fail e, s)
      | (Panicked, s) \<Rightarrow> (Panicked, s)
      | (Hung, s) \<Rightarrow> (Hung, s))"

definition value_of :: "('e, 'a) outcome \<Rightarrow> ('s, 'e, 'a) effect" where
  "value_of x s = (x, s)"

definition act :: "('s \<Rightarrow> 's) \<Rightarrow> ('s, 'e, unit) effect" where
  "act f s = (Ret (), f s)"

text \<open>\<open>.map_err(Error::backend)?\<close>\<close>

definition backend_call :: "('s, std_error, 'a) effect \<Rightarrow> ('s, error, 'a) effect" where
  "backend_call m s = (case m s of (x, s) \<Rightarrow> (map_err error_backend x, s))"

section \<open>The interfaces\<close>

text \<open>
  The calls of a backend, on a state that has the open handle and the open store in it: a method
  has one handle, and one store open at a time.
\<close>

record 's handle_calls =
  hc_prepare :: "name \<Rightarrow> name list \<Rightarrow> ('s, std_error, unit) effect"
  hc_read :: "name \<Rightarrow> ('s, std_error, unit) effect"
  hc_read_open :: "name \<Rightarrow> ('s, std_error, unit) effect"
  hc_read_get :: "bytes \<Rightarrow> ('s, std_error, bytes option) effect"
  hc_write :: "name \<Rightarrow> ('s, std_error, unit) effect"
  hc_open :: "name \<Rightarrow> ('s, std_error, unit) effect"
  hc_get :: "bytes \<Rightarrow> ('s, std_error, bytes option) effect"
  hc_set :: "bytes \<Rightarrow> bytes \<Rightarrow> ('s, std_error, unit) effect"
  hc_remove :: "bytes \<Rightarrow> ('s, std_error, unit) effect"
  hc_close :: "'s \<Rightarrow> 's"
  hc_commit :: "('s, std_error, unit) effect"
  hc_drop :: "'s \<Rightarrow> 's"

record ('s, 'r, 'pk) index_trait =
  it_name :: name
  it_update :: "'pk \<Rightarrow> 'r option \<Rightarrow> 'r \<Rightarrow> ('s, error, unit) effect"
  it_remove :: "'pk \<Rightarrow> 'r \<Rightarrow> ('s, error, unit) effect"

record ('s, 'r, 'pk) registry_trait =
  rt_store_names :: "name list \<Rightarrow> name list"
  rt_update :: "'pk \<Rightarrow> 'r option \<Rightarrow> 'r \<Rightarrow> ('s, error, unit) effect"
  rt_remove :: "'pk \<Rightarrow> 'r \<Rightarrow> ('s, error, unit) effect"
  rt_has_index :: "name \<Rightarrow> bool"

section \<open>Registries\<close>

definition nil_registry :: "('s, 'r, 'pk) registry_trait" where
  "nil_registry = \<lparr>rt_store_names = (\<lambda>out. out), rt_update = (\<lambda>pk old new. value_of (Ret ())),
     rt_remove = (\<lambda>pk item. value_of (Ret ())), rt_has_index = (\<lambda>name. False)\<rparr>"

definition cons_registry ::
  "('s, 'r, 'pk) index_trait \<Rightarrow> ('s, 'r, 'pk) registry_trait \<Rightarrow> ('s, 'r, 'pk) registry_trait" where
  "cons_registry Head Tail =
     \<lparr>rt_store_names = (\<lambda>out. rt_store_names Tail (out @ [it_name Head])),
      rt_update = (\<lambda>pk old new. then_do (it_update Head pk old new) (\<lambda>_. rt_update Tail pk old new)),
      rt_remove = (\<lambda>pk item. then_do (it_remove Head pk item) (\<lambda>_. rt_remove Tail pk item)),
      rt_has_index = (\<lambda>name. it_name Head = name \<or> rt_has_index Tail name)\<rparr>"

definition registry_of :: "('s, 'r, 'pk) index_trait list \<Rightarrow> ('s, 'r, 'pk) registry_trait" where
  "registry_of Is = foldr cons_registry Is nil_registry"

text \<open>The default \<open>Index::update\<close> and \<open>Index::remove\<close>.\<close>

definition default_put :: "'s handle_calls \<Rightarrow> ('r, 'pk) any_index \<Rightarrow> 'pk key \<Rightarrow> 'pk \<Rightarrow> 'r \<Rightarrow> ('s, error, unit) effect" where
  "default_put C X PK pk new =
     (let skey = ix_store_key X new pk in
      then_do (backend_call (hc_get C skey)) (\<lambda>found.
      if found \<noteq> None then value_of (Fail (AlreadyExists (ix_debug X new pk)))
      else then_do (backend_call (hc_set C skey (encode PK pk))) (\<lambda>_. act (hc_close C))))"

definition default_update ::
  "'s handle_calls \<Rightarrow> ('r, 'pk) any_index \<Rightarrow> 'pk key \<Rightarrow> 'pk \<Rightarrow> 'r option \<Rightarrow> 'r \<Rightarrow> ('s, error, unit) effect" where
  "default_update C X PK pk old new =
     then_do (backend_call (hc_open C (ix_name X))) (\<lambda>_.
       case old of
         None \<Rightarrow> default_put C X PK pk new
       | Some item \<Rightarrow>
           if ix_same_key X item new pk then act (hc_close C)
           else then_do (backend_call (hc_remove C (ix_store_key X item pk))) (\<lambda>_. default_put C X PK pk new))"

definition default_remove :: "'s handle_calls \<Rightarrow> ('r, 'pk) any_index \<Rightarrow> 'pk \<Rightarrow> 'r \<Rightarrow> ('s, error, unit) effect" where
  "default_remove C X pk item =
     then_do (backend_call (hc_open C (ix_name X))) (\<lambda>_.
     then_do (backend_call (hc_remove C (ix_store_key X item pk))) (\<lambda>_. act (hc_close C)))"

definition default_index :: "'s handle_calls \<Rightarrow> 'pk key \<Rightarrow> ('r, 'pk) any_index \<Rightarrow> ('s, 'r, 'pk) index_trait" where
  "default_index C PK X =
     \<lparr>it_name = ix_name X, it_update = default_update C X PK, it_remove = default_remove C X\<rparr>"

section \<open>The methods\<close>

definition eff_new :: "'s handle_calls \<Rightarrow> ('s, 'r, 'pk) registry_trait \<Rightarrow> name \<Rightarrow> ('s, error, unit) effect" where
  "eff_new C G nm s =
     (case hc_prepare C nm (rt_store_names G [MAIN_STORE]) s of
        (Ret _, s) \<Rightarrow> (Ret (), s)
      | (Hung, s) \<Rightarrow> (Hung, s)
      | (_, s) \<Rightarrow> (Panicked, s))"

definition in_transaction ::
  "'s handle_calls \<Rightarrow> name \<Rightarrow> ('s, error, unit ending) effect \<Rightarrow> ('s, error, unit) effect" where
  "in_transaction C nm body =
     then_do (backend_call (hc_write C nm)) (\<lambda>_ s.
       case body s of
         (Ret (Commit _), s) \<Rightarrow> backend_call (hc_commit C) s
       | (Ret Leave, s) \<Rightarrow> (Ret (), hc_drop C s)
       | (Fail e, s) \<Rightarrow> (Fail e, hc_drop C s)
       | (Panicked, s) \<Rightarrow> (Panicked, hc_drop C s)
       | (Hung, s) \<Rightarrow> (Hung, s))"

text \<open>Opening the primary store and looking the record up, at the beginning of every method.\<close>

definition eff_find :: "'s handle_calls \<Rightarrow> ('r, 'pk) item \<Rightarrow> 'pk \<Rightarrow> ('s, error, bytes option) effect" where
  "eff_find C R pk =
     then_do (backend_call (hc_open C MAIN_STORE)) (\<lambda>_. backend_call (hc_get C (encode (pk_key R) pk)))"

definition eff_put ::
  "'s handle_calls \<Rightarrow> ('s, 'r, 'pk) registry_trait \<Rightarrow> ('r, 'pk) item \<Rightarrow> 'r option \<Rightarrow> 'r \<Rightarrow>
   ('s, error, unit ending) effect" where
  "eff_put C G R old r =
     (let pk = item_key R r; enc_pk = encode (pk_key R) pk in
      then_do (value_of (map_err error_codec (to_bytes R r))) (\<lambda>bs.
      then_do (backend_call (hc_set C enc_pk bs)) (\<lambda>_.
      then_do (act (hc_close C)) (\<lambda>_.
      then_do (rt_update G pk old r) (\<lambda>_. value_of (Ret (Commit ())))))))"

fun eff_body ::
  "'s handle_calls \<Rightarrow> ('s, 'r, 'pk) registry_trait \<Rightarrow> ('r, 'pk) item \<Rightarrow> ('r, 'pk) mutation \<Rightarrow>
   ('s, error, unit ending) effect" where
  "eff_body C G R (Insert r) =
     then_do (eff_find C R (item_key R r)) (\<lambda>found.
     if found \<noteq> None then value_of (Fail (AlreadyExists (pk_debug R (item_key R r))))
     else eff_put C G R None r)"
| "eff_body C G R (Update r) =
     then_do (eff_find C R (item_key R r)) (\<lambda>found.
     then_do (value_of (decode_stored R found)) (\<lambda>old.
     if old = None then value_of (Fail (NotFound (pk_debug R (item_key R r))))
     else eff_put C G R old r))"
| "eff_body C G R (Save r) =
     then_do (eff_find C R (item_key R r)) (\<lambda>found.
     then_do (value_of (decode_stored R found)) (\<lambda>old. eff_put C G R old r))"
| "eff_body C G R (Remove pk) =
     then_do (eff_find C R pk) (\<lambda>found.
     then_do (value_of (decode_stored R found)) (\<lambda>old.
     case old of
       None \<Rightarrow> value_of (Ret Leave)
     | Some r \<Rightarrow>
         then_do (backend_call (hc_remove C (encode (pk_key R) pk))) (\<lambda>_.
         then_do (act (hc_close C)) (\<lambda>_.
         then_do (rt_remove G (item_key R r) r) (\<lambda>_. value_of (Ret (Commit ())))))))"

definition eff_mutation ::
  "'s handle_calls \<Rightarrow> ('s, 'r, 'pk) registry_trait \<Rightarrow> ('r, 'pk) item \<Rightarrow> name \<Rightarrow> ('r, 'pk) mutation \<Rightarrow>
   ('s, error, unit) effect" where
  "eff_mutation C G R nm m = in_transaction C nm (eff_body C G R m)"

definition eff_get :: "'s handle_calls \<Rightarrow> ('r, 'pk) item \<Rightarrow> name \<Rightarrow> 'pk \<Rightarrow> ('s, error, 'r option) effect" where
  "eff_get C R nm pk =
     then_do (backend_call (hc_read C nm)) (\<lambda>_.
     then_do (backend_call (hc_read_open C MAIN_STORE)) (\<lambda>_.
     then_do (backend_call (hc_read_get C (encode (pk_key R) pk))) (\<lambda>found.
     value_of (decode_stored R found))))"

section \<open>Any backend as effects\<close>

text \<open>What a thread has in its hands; \<open>run_first\<close> is the write handle as it was opened.\<close>

datatype ('rh, 'rs, 'wh, 'ws) held = Nothing | ReadHandle 'rh | ReadStore 'rs | WriteHandle 'wh | WriteStore 'ws

record ('db, 'rh, 'rs, 'wh, 'ws) run_state =
  run_db :: 'db
  run_first :: "'wh option"
  run_held :: "('rh, 'rs, 'wh, 'ws) held"

definition run_start :: "'db \<Rightarrow> ('db, 'rh, 'rs, 'wh, 'ws) run_state" where
  "run_start db = \<lparr>run_db = db, run_first = None, run_held = Nothing\<rparr>"

definition outcome_step :: "('e, 'a) outcome \<Rightarrow> ('a \<Rightarrow> 's \<Rightarrow> 's) \<Rightarrow> ('s, 'e, unit) effect" where
  "outcome_step x f s = (map_ret (\<lambda>_. ()) x, case x of Ret a \<Rightarrow> f a s | _ \<Rightarrow> s)"

definition hold :: "('rh, 'rs, 'wh, 'ws) held \<Rightarrow> ('db, 'rh, 'rs, 'wh, 'ws) run_state \<Rightarrow> ('db, 'rh, 'rs, 'wh, 'ws) run_state" where
  "hold h s = s\<lparr>run_held := h\<rparr>"

definition calls_of ::
  "('db, 'rh, 'rs, 'wh, 'ws) multistore \<Rightarrow> ('db, 'rh, 'rs, 'wh, 'ws) run_state handle_calls" where
  "calls_of I = \<lparr>
     hc_prepare = (\<lambda>nm names s. outcome_step (ms_prepare I nm names (run_db s)) (\<lambda>db s. s\<lparr>run_db := db\<rparr>) s),
     hc_read = (\<lambda>nm s. outcome_step (ms_read I nm (run_db s)) (\<lambda>rh. hold (ReadHandle rh)) s),
     hc_read_open = (\<lambda>n s. case run_held s of
       ReadHandle rh \<Rightarrow> outcome_step (rh_open I n rh) (\<lambda>rs. hold (ReadStore rs)) s | _ \<Rightarrow> (Panicked, s)),
     hc_read_get = (\<lambda>k s. case run_held s of ReadStore rs \<Rightarrow> (rs_get I k rs, s) | _ \<Rightarrow> (Panicked, s)),
     hc_write = (\<lambda>nm s. outcome_step (ms_write I nm (run_db s))
       (\<lambda>(tx, db) s. s\<lparr>run_db := db, run_first := Some tx, run_held := WriteHandle tx\<rparr>) s),
     hc_open = (\<lambda>n s. case run_held s of
       WriteHandle tx \<Rightarrow> outcome_step (wh_open I n tx) (\<lambda>ws. hold (WriteStore ws)) s | _ \<Rightarrow> (Panicked, s)),
     hc_get = (\<lambda>k s. case run_held s of WriteStore ws \<Rightarrow> (ws_get I k ws, s) | _ \<Rightarrow> (Panicked, s)),
     hc_set = (\<lambda>k v s. case run_held s of
       WriteStore ws \<Rightarrow> outcome_step (ws_set I k v ws) (\<lambda>ws. hold (WriteStore ws)) s | _ \<Rightarrow> (Panicked, s)),
     hc_remove = (\<lambda>k s. case run_held s of
       WriteStore ws \<Rightarrow> outcome_step (ws_remove I k ws) (\<lambda>ws. hold (WriteStore ws)) s | _ \<Rightarrow> (Panicked, s)),
     hc_close = (\<lambda>s. case run_held s of WriteStore ws \<Rightarrow> hold (WriteHandle (ws_close I ws)) s | _ \<Rightarrow> s),
     hc_commit = (\<lambda>s. case run_held s of
       WriteHandle tx \<Rightarrow> (let (res, db) = ms_commit I tx (run_db s)
                         in (res, s\<lparr>run_db := db, run_first := None, run_held := Nothing\<rparr>))
     | _ \<Rightarrow> (Panicked, s)),
     hc_drop = (\<lambda>s. case run_first s of
       Some tx \<Rightarrow> s\<lparr>run_db := ms_drop I tx (run_db s), run_first := None, run_held := Nothing\<rparr>
     | None \<Rightarrow> s)\<rparr>"

lemma calls_of_simps [simp]:
  "hc_prepare (calls_of I) nm names s = outcome_step (ms_prepare I nm names (run_db s)) (\<lambda>db s. s\<lparr>run_db := db\<rparr>) s"
  "hc_read (calls_of I) nm s = outcome_step (ms_read I nm (run_db s)) (\<lambda>rh. hold (ReadHandle rh)) s"
  "hc_write (calls_of I) nm s = outcome_step (ms_write I nm (run_db s))
     (\<lambda>(tx, db) s. s\<lparr>run_db := db, run_first := Some tx, run_held := WriteHandle tx\<rparr>) s"
  "run_held s = ReadHandle rh \<Longrightarrow> hc_read_open (calls_of I) n s = outcome_step (rh_open I n rh) (\<lambda>rs. hold (ReadStore rs)) s"
  "run_held s = ReadStore rs \<Longrightarrow> hc_read_get (calls_of I) k s = (rs_get I k rs, s)"
  "run_held s = WriteHandle tx \<Longrightarrow> hc_open (calls_of I) n s = outcome_step (wh_open I n tx) (\<lambda>ws. hold (WriteStore ws)) s"
  "run_held s = WriteStore ws \<Longrightarrow> hc_get (calls_of I) k s = (ws_get I k ws, s)"
  "run_held s = WriteStore ws \<Longrightarrow> hc_set (calls_of I) k v s = outcome_step (ws_set I k v ws) (\<lambda>ws. hold (WriteStore ws)) s"
  "run_held s = WriteStore ws \<Longrightarrow> hc_remove (calls_of I) k s = outcome_step (ws_remove I k ws) (\<lambda>ws. hold (WriteStore ws)) s"
  "run_held s = WriteStore ws \<Longrightarrow> hc_close (calls_of I) s = hold (WriteHandle (ws_close I ws)) s"
  "run_held s = WriteHandle tx \<Longrightarrow> hc_commit (calls_of I) s =
     (let (res, db) = ms_commit I tx (run_db s) in (res, s\<lparr>run_db := db, run_first := None, run_held := Nothing\<rparr>))"
  "run_first s = Some tx \<Longrightarrow>
     hc_drop (calls_of I) s = s\<lparr>run_db := ms_drop I tx (run_db s), run_first := None, run_held := Nothing\<rparr>"
  by (simp_all add: calls_of_def)

lemma hold_simps [simp]:
  "run_db (hold h s) = run_db s" "run_first (hold h s) = run_first s" "run_held (hold h s) = h"
  by (simp_all add: hold_def)

section \<open>The same methods\<close>

text \<open>
  An effect on the handle does what an outcome says: it returns the value, ends with in hand what
  the outcome hands back, and leaves the database alone.
\<close>

definition does ::
  "('a \<Rightarrow> 'b) \<Rightarrow> ('a \<Rightarrow> ('rh, 'rs, 'wh, 'ws) held \<Rightarrow> bool) \<Rightarrow> ('db, 'rh, 'rs, 'wh, 'ws) run_state \<Rightarrow>
   ('e, 'a) outcome \<Rightarrow> ('e, 'b) outcome \<times> ('db, 'rh, 'rs, 'wh, 'ws) run_state \<Rightarrow> bool" where
  "does v Q s x y \<longleftrightarrow> fst y = map_ret v x \<and> run_db (snd y) = run_db s \<and> run_first (snd y) = run_first s \<and>
     (\<forall>a. x = Ret a \<longrightarrow> Q a (run_held (snd y)))"

abbreviation gives_handle where "gives_handle \<equiv> does (\<lambda>_. ()) (\<lambda>tx h. h = WriteHandle tx)"
abbreviation gives_store where "gives_store \<equiv> does (\<lambda>_. ()) (\<lambda>ws h. h = WriteStore ws)"

fun ends_with :: "'wh ending \<Rightarrow> ('rh, 'rs, 'wh, 'ws) held \<Rightarrow> bool" where
  "ends_with (Commit tx) h \<longleftrightarrow> h = WriteHandle tx"
| "ends_with Leave h \<longleftrightarrow> True"

abbreviation gives_ending where "gives_ending \<equiv> does (map_ending (\<lambda>_. ())) ends_with"

lemma does_then:
  assumes "does v Q s x (m s)"
    and "\<And>a s'. x = Ret a \<Longrightarrow> Q a (run_held s') \<Longrightarrow> run_db s' = run_db s \<Longrightarrow> run_first s' = run_first s \<Longrightarrow>
           does v' Q' s' (f a) (g (v a) s')"
  shows "does v' Q' s (and_then x f) (then_do m g s)"
proof (cases x)
  case (Ret a)
  obtain y s' where y: "m s = (y, s')" by (cases "m s")
  then have "does v' Q' s' (f a) (g (v a) s')"
    by (intro assms(2) [OF Ret]) (use assms(1) Ret in \<open>auto simp: does_def\<close>)
  then show ?thesis using assms(1) Ret y by (simp add: does_def then_do_def)
qed (use assms(1) in \<open>auto simp: does_def then_do_def split: prod.splits outcome.splits\<close>)

text \<open>A call that only looks.\<close>

lemma does_look:
  assumes "m s = (x, s)" and "\<And>a. x = Ret a \<Longrightarrow> does v Q s (f a) (g a s)"
  shows "does v Q s (and_then x f) (then_do m g s)"
  using assms by (cases x) (auto simp: does_def then_do_def)

lemma does_act: "Q a (run_held (h s)) \<Longrightarrow> run_db (h s) = run_db s \<Longrightarrow> run_first (h s) = run_first s \<Longrightarrow>
    does (\<lambda>_. ()) Q s (Ret a) (act h s)"
  by (simp add: does_def act_def)

lemma does_value: "(\<forall>a. x = Ret a \<longrightarrow> Q a (run_held s)) \<Longrightarrow> y = map_ret v x \<Longrightarrow> does v Q s x (value_of y s)"
  by (simp add: does_def value_of_def)

lemma does_call:
  assumes "m s = outcome_step x f s" and "\<And>a. x = Ret a \<Longrightarrow> f a s = hold (h a) s"
  shows "does (\<lambda>_. ()) (\<lambda>a k. k = h a) s (map_err error_backend x) (backend_call m s)"
  using assms by (cases x) (auto simp: does_def backend_call_def outcome_step_def)

text \<open>The calls on a write handle and its store, one after the other.\<close>

lemma then_open:
  assumes "run_held s = WriteHandle tx"
    and "\<And>ws s'. run_held s' = WriteStore ws \<Longrightarrow> run_db s' = run_db s \<Longrightarrow> run_first s' = run_first s \<Longrightarrow> does v Q s' (f ws) (g () s')"
  shows "does v Q s (and_then (map_err error_backend (wh_open I n tx)) f)
           (then_do (backend_call (hc_open (calls_of I) n)) g s)"
  by (rule does_then, rule does_call [where f = "\<lambda>ws. hold (WriteStore ws)"])
    (use assms in auto)

lemma then_get:
  assumes "run_held s = WriteStore ws" and "\<And>found. does v Q s (f found) (g found s)"
  shows "does v Q s (and_then (map_err error_backend (ws_get I k ws)) f)
           (then_do (backend_call (hc_get (calls_of I) k)) g s)"
  by (rule does_look) (simp_all add: assms backend_call_def)

lemma then_set:
  assumes "run_held s = WriteStore ws"
    and "\<And>ws s'. run_held s' = WriteStore ws \<Longrightarrow> run_db s' = run_db s \<Longrightarrow> run_first s' = run_first s \<Longrightarrow> does v Q s' (f ws) (g () s')"
  shows "does v Q s (and_then (map_err error_backend (ws_set I k val ws)) f)
           (then_do (backend_call (hc_set (calls_of I) k val)) g s)"
  by (rule does_then, rule does_call [where f = "\<lambda>ws. hold (WriteStore ws)"])
    (use assms in auto)

lemma then_remove:
  assumes "run_held s = WriteStore ws"
    and "\<And>ws s'. run_held s' = WriteStore ws \<Longrightarrow> run_db s' = run_db s \<Longrightarrow> run_first s' = run_first s \<Longrightarrow> does v Q s' (f ws) (g () s')"
  shows "does v Q s (and_then (map_err error_backend (ws_remove I k ws)) f)
           (then_do (backend_call (hc_remove (calls_of I) k)) g s)"
  by (rule does_then, rule does_call [where f = "\<lambda>ws. hold (WriteStore ws)"])
    (use assms in auto)

lemma then_close:
  assumes "run_held s = WriteStore ws"
    and "\<And>s'. run_held s' = WriteHandle (ws_close I ws) \<Longrightarrow> run_db s' = run_db s \<Longrightarrow> run_first s' = run_first s \<Longrightarrow>
           does v Q s' x (g () s')"
  shows "does v Q s x (then_do (act (hc_close (calls_of I))) g s)"
  using assms(2) [of "hold (WriteHandle (ws_close I ws)) s"]
  by (simp add: then_do_def act_def assms(1) does_def)

lemma close_does:
  "run_held s = WriteStore ws \<Longrightarrow> gives_handle s (Ret (ws_close I ws)) (act (hc_close (calls_of I)) s)"
  by (rule does_act) simp_all

lemmas thens = then_open then_get then_set then_remove

lemma map_ret_as_then: "map_ret h x = and_then x (\<lambda>a. Ret (h a))"
  by (cases x) simp_all

lemma put_does:
  "run_held s = WriteStore ws \<Longrightarrow>
   gives_handle s (index_put I X PK pk new ws) (default_put (calls_of I) X PK pk new s)"
  unfolding index_put_def default_put_def Let_def map_ret_as_then
  by (rule then_get) (auto intro!: does_value then_set close_does)

lemma default_update_does:
  "run_held s = WriteHandle tx \<Longrightarrow>
   gives_handle s (index_update I X PK pk old new tx) (default_update (calls_of I) X PK pk old new s)"
  unfolding index_update_def default_update_def index_write_def
  by (rule then_open) (auto intro!: put_does close_does then_remove split: option.splits)

lemma default_remove_does:
  "run_held s = WriteHandle tx \<Longrightarrow>
   gives_handle s (index_remove I X pk item tx) (default_remove (calls_of I) X pk item s)"
  unfolding index_remove_def default_remove_def map_ret_as_then
  by (auto intro!: thens close_does)

text \<open>The registry of the default indexes.\<close>

definition default_registry ::
  "'s handle_calls \<Rightarrow> 'pk key \<Rightarrow> ('r, 'pk) registry \<Rightarrow> ('s, 'r, 'pk) registry_trait" where
  "default_registry C PK T = registry_of (List.map (default_index C PK) T)"

lemma default_registry_simps [simp]:
  "default_registry C PK [] = nil_registry"
  "default_registry C PK (X # T) = cons_registry (default_index C PK X) (default_registry C PK T)"
  by (simp_all add: default_registry_def registry_of_def)

lemma then_update:
  assumes "run_held s = WriteHandle tx"
    and "\<And>tx s'. run_held s' = WriteHandle tx \<Longrightarrow> run_db s' = run_db s \<Longrightarrow> run_first s' = run_first s \<Longrightarrow> does v Q s' (f tx) (g () s')"
  shows "does v Q s (and_then (index_update I X PK pk old new tx) f)
           (then_do (default_update (calls_of I) X PK pk old new) g s)"
  by (rule does_then, rule default_update_does) (simp_all add: assms)

lemma then_erase:
  assumes "run_held s = WriteHandle tx"
    and "\<And>tx s'. run_held s' = WriteHandle tx \<Longrightarrow> run_db s' = run_db s \<Longrightarrow> run_first s' = run_first s \<Longrightarrow> does v Q s' (f tx) (g () s')"
  shows "does v Q s (and_then (index_remove I X pk item tx) f)
           (then_do (default_remove (calls_of I) X pk item) g s)"
  by (rule does_then, rule default_remove_does) (simp_all add: assms)

lemma registry_update_does:
  "run_held s = WriteHandle tx \<Longrightarrow>
   gives_handle s (registry_update I T PK pk old new tx) (rt_update (default_registry (calls_of I) PK T) pk old new s)"
  by (induction T arbitrary: s tx)
    (auto simp: nil_registry_def cons_registry_def default_index_def
      intro!: does_value then_update)

lemma registry_remove_does:
  "run_held s = WriteHandle tx \<Longrightarrow>
   gives_handle s (registry_remove I T pk item tx) (rt_remove (default_registry (calls_of I) PK T) pk item s)"
  by (induction T arbitrary: s tx)
    (auto simp: nil_registry_def cons_registry_def default_index_def
      intro!: does_value then_erase)

lemma store_names_same: "rt_store_names (default_registry C PK T) out = registry_store_names T out"
  by (induction T arbitrary: out) (simp_all add: nil_registry_def cons_registry_def default_index_def)

lemma has_index_same: "rt_has_index (default_registry C PK T) n = registry_has_index T n"
  by (induction T) (simp_all add: nil_registry_def cons_registry_def default_index_def)

lemma then_registry_update:
  assumes "run_held s = WriteHandle tx"
    and "\<And>tx s'. run_held s' = WriteHandle tx \<Longrightarrow> run_db s' = run_db s \<Longrightarrow> run_first s' = run_first s \<Longrightarrow> does v Q s' (f tx) (g () s')"
  shows "does v Q s (and_then (registry_update I T PK pk old new tx) f)
           (then_do (rt_update (default_registry (calls_of I) PK T) pk old new) g s)"
  by (rule does_then, rule registry_update_does) (simp_all add: assms)

lemma then_registry_remove:
  assumes "run_held s = WriteHandle tx"
    and "\<And>tx s'. run_held s' = WriteHandle tx \<Longrightarrow> run_db s' = run_db s \<Longrightarrow> run_first s' = run_first s \<Longrightarrow> does v Q s' (f tx) (g () s')"
  shows "does v Q s (and_then (registry_remove I T pk item tx) f)
           (then_do (rt_remove (default_registry (calls_of I) PK T) pk item) g s)"
  by (rule does_then, rule registry_remove_does) (simp_all add: assms)

lemma then_value:
  assumes "\<And>a. does v Q s (f a) (g a s)"
  shows "does v Q s (and_then x f) (then_do (value_of x) g s)"
  by (rule does_look) (simp_all add: assms value_of_def)

lemma put_record_does:
  assumes "run_held s = WriteStore ws"
  shows "gives_ending s (put_record I R T old r ws)
           (eff_put (calls_of I) (default_registry (calls_of I) (pk_key R) T) R old r s)"
  unfolding put_record_def eff_put_def Let_def
  by (rule then_value, rule then_set [OF assms], erule then_close, erule then_registry_update)
    (auto intro: does_value)

lemma then_do_assoc: "then_do (then_do m f) g = then_do m (\<lambda>a. then_do (f a) g)"
  by (rule ext) (simp add: then_do_def split: prod.splits outcome.splits)

lemma then_find:
  assumes "run_held s = WriteHandle tx"
    and "\<And>ws found s'. run_held s' = WriteStore ws \<Longrightarrow> run_db s' = run_db s \<Longrightarrow> run_first s' = run_first s \<Longrightarrow>
           does v Q s' (f ws found) (g found s')"
  shows "does v Q s
     (and_then (map_err error_backend (wh_open I MAIN_STORE tx)) (\<lambda>ws.
      and_then (map_err error_backend (ws_get I (encode (pk_key R) pk) ws)) (f ws)))
     (then_do (eff_find (calls_of I) R pk) g s)"
  unfolding eff_find_def then_do_assoc
  by (rule then_open [OF assms(1)], rule then_get, assumption, rule assms(2))

lemma body_does:
  fixes I :: "('db, 'rh, 'rs, 'wh, 'ws) multistore"
  assumes "run_held s = WriteHandle tx"
  shows "gives_ending s (mutation_body I R T m tx)
           (eff_body (calls_of I) (default_registry (calls_of I) (pk_key R) T) R m s)"
proof (cases m)
  case (Insert r)
  then show ?thesis
    by (auto simp: insert_body_def Let_def intro!: then_find [OF assms] does_value put_record_does)
next
  case (Update r)
  then show ?thesis
    by (auto simp: update_body_def Let_def intro!: then_find [OF assms] then_value does_value put_record_does)
next
  case (Save r)
  then show ?thesis
    by (auto simp: save_body_def Let_def intro!: then_find [OF assms] then_value put_record_does)
next
  case (Remove pk)
  have old: "gives_ending s'
     (case old of None \<Rightarrow> Ret Leave
      | Some r \<Rightarrow> and_then (map_err error_backend (ws_remove I (encode (pk_key R) pk) ws)) (\<lambda>store.
                   and_then (registry_remove I T (item_key R r) r (ws_close I store)) (\<lambda>tx. Ret (Commit tx))))
     ((case old of None \<Rightarrow> value_of (Ret Leave)
       | Some r \<Rightarrow> then_do (backend_call (hc_remove (calls_of I) (encode (pk_key R) pk))) (\<lambda>_.
                    then_do (act (hc_close (calls_of I))) (\<lambda>_.
                    then_do (rt_remove (default_registry (calls_of I) (pk_key R) T) (item_key R r) r)
                      (\<lambda>_. value_of (Ret (Commit ())))))) s')"
    if "run_held s' = WriteStore ws" for ws old and s' :: "('db, 'rh, 'rs, 'wh, 'ws) run_state"
  proof (cases old)
    case None
    then show ?thesis by (simp add: does_value)
  next
    case (Some r)
    show ?thesis unfolding Some option.case
      by (intro then_remove [OF that], erule then_close, erule then_registry_remove) (auto intro: does_value)
  qed
  show ?thesis
    unfolding Remove mutation_body.simps eff_body.simps remove_body_def Let_def
    by (rule then_find [OF assms], rule then_value) (rule old)
qed

lemma transaction_does:
  fixes I :: "('db, 'rh, 'rs, 'wh, 'ws) multistore"
  assumes "\<And>tx s. run_held s = WriteHandle tx \<Longrightarrow> gives_ending s (body tx) (m s)"
  shows "map_prod id run_db (in_transaction (calls_of I) nm m (run_start db)) = transact I nm db body"
proof (cases "ms_write I nm db")
  case (Ret x)
  obtain tx db1 where x: "x = (tx, db1)" by (cases x)
  define s :: "('db, 'rh, 'rs, 'wh, 'ws) run_state" where "s = \<lparr>run_db = db1, run_first = Some tx, run_held = WriteHandle tx\<rparr>"
  have start: "backend_call (hc_write (calls_of I) nm) (run_start db) = (Ret (), s)"
    by (simp add: backend_call_def outcome_step_def Ret x s_def run_start_def)
  obtain y s' where y: "m s = (y, s')" by (cases "m s")
  have d: "gives_ending s (body tx) (y, s')" using assms [of s tx] y by (simp add: s_def)
  have s': "run_db s' = db1" "run_first s' = Some tx" "y = map_ret (map_ending (\<lambda>_. ())) (body tx)"
    using d by (simp_all add: does_def s_def)
  have drop: "hc_drop (calls_of I) s' = s'\<lparr>run_db := ms_drop I tx db1, run_first := None, run_held := Nothing\<rparr>"
    using s'(1,2) by simp
  show ?thesis
  proof (cases "body tx")
    case (Ret e)
    then show ?thesis
      using start s' d drop \<open>ms_write I nm db = Ret x\<close> x y
      by (cases e) (auto simp: in_transaction_def then_do_def transact_def does_def backend_call_def Let_def
          split: prod.splits)
  qed (use start s' drop \<open>ms_write I nm db = Ret x\<close> x y in
      \<open>simp_all add: in_transaction_def then_do_def transact_def\<close>)
qed (simp_all add: in_transaction_def then_do_def backend_call_def outcome_step_def transact_def run_start_def)

text \<open>The methods, \<open>Collection::get\<close> and \<open>Collection::new\<close> are those of the collection on any backend.\<close>

lemma eff_mutation_agrees:
  "map_prod id run_db
     (eff_mutation (calls_of I) (default_registry (calls_of I) (pk_key R) T) R nm m (run_start db)) =
   run_mutation I R T nm m db"
  unfolding eff_mutation_def run_mutation_transact by (rule transaction_does) (rule body_does)

lemma eff_get_agrees: "fst (eff_get (calls_of I) R nm pk (run_start db)) = collection_get I R nm pk db"
proof -
  show ?thesis
  proof (cases "ms_read I nm db")
    case (Ret rh)
    show ?thesis
    proof (cases "rh_open I MAIN_STORE rh")
      case (Ret rs)
      then show ?thesis
        using \<open>ms_read I nm db = Ret rh\<close>
        by (cases "rs_get I (encode (pk_key R) pk) rs")
          (simp_all add: eff_get_def collection_get_def then_do_def backend_call_def outcome_step_def
            run_start_def value_of_def)
    qed (use Ret in \<open>simp_all add: eff_get_def collection_get_def then_do_def backend_call_def outcome_step_def run_start_def\<close>)
  qed (simp_all add: eff_get_def collection_get_def then_do_def backend_call_def outcome_step_def run_start_def)
qed

lemma eff_new_agrees:
  "(case eff_new (calls_of I) (default_registry C PK T) nm (run_start db) of
      (x, s) \<Rightarrow> map_ret (\<lambda>_. run_db s) x) = collection_new I T nm db"
  unfolding eff_new_def collection_new_def store_names_same Let_def
  by (cases "ms_prepare I nm (registry_store_names T [MAIN_STORE]) db")
    (simp_all add: outcome_step_def run_start_def)

section \<open>Registries that do what they like\<close>

text \<open>
  What a registry may do with the write handle that is lent to it: open stores and use them, so
  that it hands a handle back on which \<open>ok\<close> still holds when it does not fail. It can neither
  commit nor drop the handle, nor reach the database.
\<close>

definition stays ::
  "('a \<Rightarrow> bool) \<Rightarrow> ('wh \<Rightarrow> bool) \<Rightarrow> ('db, 'rh, 'rs, 'wh, 'ws) run_state \<Rightarrow>
   ('e, 'a) outcome \<times> ('db, 'rh, 'rs, 'wh, 'ws) run_state \<Rightarrow> bool" where
  "stays must ok s y \<longleftrightarrow> run_db (snd y) = run_db s \<and> run_first (snd y) = run_first s \<and>
     (\<forall>a. fst y = Ret a \<longrightarrow> must a \<longrightarrow> (\<exists>tx. run_held (snd y) = WriteHandle tx \<and> ok tx))"

definition lends :: "('wh \<Rightarrow> bool) \<Rightarrow> (('db, 'rh, 'rs, 'wh, 'ws) run_state, 'r, 'pk) registry_trait \<Rightarrow> bool" where
  "lends ok G \<longleftrightarrow> (\<forall>s tx. run_held s = WriteHandle tx \<and> ok tx \<longrightarrow>
     (\<forall>pk old new. stays (\<lambda>_. True) ok s (rt_update G pk old new s)) \<and>
     (\<forall>pk item. stays (\<lambda>_. True) ok s (rt_remove G pk item s)))"

lemma stays_then:
  assumes "stays (\<lambda>_. True) ok s (m s)"
    and "\<And>a s' tx. run_held s' = WriteHandle tx \<Longrightarrow> ok tx \<Longrightarrow> run_db s' = run_db s \<Longrightarrow> run_first s' = run_first s \<Longrightarrow>
           stays must ok s' (g a s')"
  shows "stays must ok s (then_do m g s)"
proof (cases "m s")
  case (Pair x s')
  show ?thesis
  proof (cases x)
    case (Ret a)
    then obtain tx where "run_held s' = WriteHandle tx" "ok tx" "run_db s' = run_db s" "run_first s' = run_first s"
      using assms(1) Pair by (auto simp: stays_def)
    then show ?thesis using assms(2) [of s' tx a] Pair Ret by (simp add: then_do_def stays_def)
  qed (use assms(1) Pair in \<open>simp_all add: then_do_def stays_def\<close>)
qed

lemma stays_value:
  "(\<And>a. x = Ret a \<Longrightarrow> must a \<Longrightarrow> \<exists>tx. run_held s = WriteHandle tx \<and> ok tx) \<Longrightarrow> stays must ok s (value_of x s)"
  by (simp add: stays_def value_of_def)

lemma stays_value_then:
  "(\<And>a. x = Ret a \<Longrightarrow> stays must ok s (g a s)) \<Longrightarrow> stays must ok s (then_do (value_of x) g s)"
  by (cases x) (simp_all add: then_do_def value_of_def stays_def)

text \<open>A call that may change what is in hand.\<close>

lemma stays_call_then:
  assumes "m s = outcome_step x (\<lambda>a. hold (h a)) s"
    and "\<And>a s'. x = Ret a \<Longrightarrow> run_held s' = h a \<Longrightarrow> run_db s' = run_db s \<Longrightarrow> run_first s' = run_first s \<Longrightarrow>
           stays must ok s' (g () s')"
  shows "stays must ok s (then_do (backend_call m) g s)"
proof (cases x)
  case (Ret a)
  then show ?thesis
    using assms(1) assms(2) [of a "hold (h a) s"]
    by (simp add: then_do_def backend_call_def outcome_step_def stays_def)
qed (use assms(1) in \<open>simp_all add: then_do_def backend_call_def outcome_step_def stays_def\<close>)

lemma stays_look_then:
  assumes "m s = (x, s)" and "\<And>a. stays must ok s (g a s)"
  shows "stays must ok s (then_do (backend_call m) g s)"
  using assms by (cases x) (simp_all add: then_do_def backend_call_def stays_def)

context lawful_multistore
begin

definition lent :: "'q \<Rightarrow> name \<Rightarrow> 'wh \<Rightarrow> bool" where
  "lent q nm tx \<longleftrightarrow> handle_on q tx \<and> fst (wh_abs tx) = nm"

definition lent_store :: "'q \<Rightarrow> name \<Rightarrow> 'ws \<Rightarrow> bool" where
  "lent_store q nm ws \<longleftrightarrow> store_on q ws \<and> fst (ws_abs ws) = nm"

lemma lent_open: "lent q nm tx \<Longrightarrow> wh_open I n tx = Ret ws \<Longrightarrow> lent_store q nm ws"
  using open_on [of q tx n]
  by (cases "wh_abs tx") (auto simp: lent_def lent_store_def refines_def ref_wopen_def split: option.splits)

lemma lent_set: "lent_store q nm ws \<Longrightarrow> ws_set I k v ws = Ret ws' \<Longrightarrow> lent_store q nm ws'"
  using set_on [of q ws k v] by (cases "ws_abs ws") (auto simp: lent_store_def refines_def)

lemma lent_remove: "lent_store q nm ws \<Longrightarrow> ws_remove I k ws = Ret ws' \<Longrightarrow> lent_store q nm ws'"
  using remove_on [of q ws k] by (cases "ws_abs ws") (auto simp: lent_store_def refines_def)

lemma lent_close: "lent_store q nm ws \<Longrightarrow> lent q nm (ws_close I ws)"
  using close_on [of q ws] by (cases "ws_abs ws") (auto simp: lent_store_def lent_def)

text \<open>The calls of a body.\<close>

lemma lent_find_then:
  assumes "run_held s = WriteHandle tx" "lent q nm tx"
    and "\<And>found ws s'. run_held s' = WriteStore ws \<Longrightarrow> lent_store q nm ws \<Longrightarrow> run_db s' = run_db s \<Longrightarrow>
           run_first s' = run_first s \<Longrightarrow> stays must ok s' (g found s')"
  shows "stays must ok s (then_do (eff_find (calls_of I) R pk) g s)"
  unfolding eff_find_def then_do_assoc
proof (rule stays_call_then)
  show "hc_open (calls_of I) MAIN_STORE s = outcome_step (wh_open I MAIN_STORE tx) (\<lambda>ws. hold (WriteStore ws)) s"
    using assms(1) by simp
  fix ws and s' :: "('db, 'rh, 'rs, 'wh, 'ws) run_state"
  assume "wh_open I MAIN_STORE tx = Ret ws" "run_held s' = WriteStore ws" "run_db s' = run_db s"
    "run_first s' = run_first s"
  then show "stays must ok s' (then_do (backend_call (hc_get (calls_of I) (encode (pk_key R) pk))) g s')"
    using lent_open [OF assms(2)] by (intro stays_look_then [where x = "ws_get I (encode (pk_key R) pk) ws"] assms(3)) auto
qed

lemma lent_close_then:
  assumes "run_held s = WriteStore ws" "lent_store q nm ws"
    and "\<And>tx s'. run_held s' = WriteHandle tx \<Longrightarrow> lent q nm tx \<Longrightarrow> run_db s' = run_db s \<Longrightarrow>
           run_first s' = run_first s \<Longrightarrow> stays must ok s' (g () s')"
  shows "stays must ok s (then_do (act (hc_close (calls_of I))) g s)"
  using assms(3) [of "hold (WriteHandle (ws_close I ws)) s"] lent_close [OF assms(2)] assms(1)
  by (simp add: then_do_def act_def stays_def)

lemma lent_set_then:
  assumes "run_held s = WriteStore ws" "lent_store q nm ws"
    and "\<And>ws s'. run_held s' = WriteStore ws \<Longrightarrow> lent_store q nm ws \<Longrightarrow> run_db s' = run_db s \<Longrightarrow>
           run_first s' = run_first s \<Longrightarrow> stays must ok s' (g () s')"
  shows "stays must ok s (then_do (backend_call (hc_set (calls_of I) k v)) g s)"
  by (rule stays_call_then [where h = WriteStore and x = "ws_set I k v ws"])
    (use assms lent_set [OF assms(2)] in auto)

lemma lent_remove_then:
  assumes "run_held s = WriteStore ws" "lent_store q nm ws"
    and "\<And>ws s'. run_held s' = WriteStore ws \<Longrightarrow> lent_store q nm ws \<Longrightarrow> run_db s' = run_db s \<Longrightarrow>
           run_first s' = run_first s \<Longrightarrow> stays must ok s' (g () s')"
  shows "stays must ok s (then_do (backend_call (hc_remove (calls_of I) k)) g s)"
  by (rule stays_call_then [where h = WriteStore and x = "ws_remove I k ws"])
    (use assms lent_remove [OF assms(2)] in auto)

abbreviation body_stays where "body_stays q nm \<equiv> stays (\<lambda>e. e \<noteq> Leave) (lent q nm)"

lemma lends_update_then:
  assumes "lends (lent q nm) G" "run_held s = WriteHandle tx" "lent q nm tx"
  shows "body_stays q nm s (then_do (rt_update G pk old r) (\<lambda>_. value_of (Ret (Commit ()))) s)"
  by (rule stays_then) (use assms in \<open>auto simp: lends_def intro: stays_value\<close>)

lemma lends_remove_then:
  assumes "lends (lent q nm) G" "run_held s = WriteHandle tx" "lent q nm tx"
  shows "body_stays q nm s (then_do (rt_remove G pk r) (\<lambda>_. value_of (Ret (Commit ()))) s)"
  by (rule stays_then) (use assms in \<open>auto simp: lends_def intro: stays_value\<close>)

lemma eff_put_stays:
  assumes "lends (lent q nm) G" "run_held s = WriteStore ws" "lent_store q nm ws"
  shows "body_stays q nm s (eff_put (calls_of I) G R old r s)"
  unfolding eff_put_def Let_def
  by (rule stays_value_then, rule lent_set_then [OF assms(2,3)], rule lent_close_then, assumption, assumption,
      rule lends_update_then [OF assms(1)])

lemma eff_body_stays:
  assumes G: "lends (lent q nm) G" and s: "run_held s = WriteHandle tx" "lent q nm tx"
  shows "body_stays q nm s (eff_body (calls_of I) G R m s)"
proof (cases m)
  case (Remove pk)
  show ?thesis
    unfolding Remove eff_body.simps
  proof (rule lent_find_then [OF s], rule stays_value_then)
    fix found ws and s' :: "('db, 'rh, 'rs, 'wh, 'ws) run_state" and old
    assume s': "run_held s' = WriteStore ws" "lent_store q nm ws"
    show "body_stays q nm s'
      ((case old of None \<Rightarrow> value_of (Ret Leave)
        | Some r \<Rightarrow> then_do (backend_call (hc_remove (calls_of I) (encode (pk_key R) pk))) (\<lambda>_.
                     then_do (act (hc_close (calls_of I))) (\<lambda>_.
                     then_do (rt_remove G (item_key R r) r) (\<lambda>_. value_of (Ret (Commit ())))))) s')"
    proof (cases old)
      case None
      then show ?thesis by (auto intro: stays_value)
    next
      case (Some r)
      show ?thesis
        unfolding Some option.case
        by (rule lent_remove_then [OF s'], rule lent_close_then, assumption, assumption, rule lends_remove_then [OF G])
    qed
  qed
qed (auto intro!: lent_find_then [OF s] stays_value_then stays_value eff_put_stays [OF G] simp del: decode_stored.simps)

text \<open>All or nothing, whatever the registry does.\<close>

definition all_or_nothing ::
  "name \<Rightarrow> 'db \<Rightarrow> (error, unit) outcome \<times> ('db, 'rh, 'rs, 'wh, 'ws) run_state \<Rightarrow> bool" where
  "all_or_nothing nm db y \<longleftrightarrow>
     (if fst y = Ret () then db_inv (run_db (snd y)) \<and> (\<exists>S. db_abs (run_db (snd y)) = (db_abs db)(nm \<mapsto> S))
      else db_abs (run_db (snd y)) = db_abs db \<and> (fst y \<noteq> Hung \<longrightarrow> db_inv (run_db (snd y))))"

lemma eff_mutation_all_or_nothing:
  assumes inv: "db_inv db" and G: "\<And>q. lends (lent q nm) G"
  shows "all_or_nothing nm db (eff_mutation (calls_of I) G R nm m (run_start db))"
proof (cases "ms_write I nm db")
  case (Ret x)
  obtain tx db1 where x: "x = (tx, db1)" by (cases x)
  have w: "ref_write nm (db_abs db) = Ret (wh_abs tx, db_abs db1)"
    and tx: "handle_on (origin tx) tx" and wr: "writing (origin tx) db1"
    using refines_RetD [OF write_law [OF inv, of nm, unfolded Ret x]] by (auto simp: handle_on_def)
  have same: "db_abs db1 = db_abs db" and at: "fst (wh_abs tx) = nm" "db_abs db nm \<noteq> None"
    using w by (auto simp: ref_write_def map_ret_eq_Ret)
  then have same_at: "\<exists>S. db_abs db = (db_abs db)(nm \<mapsto> S)" by (auto intro: map_upd_triv [symmetric])
  define s :: "('db, 'rh, 'rs, 'wh, 'ws) run_state" where "s = \<lparr>run_db = db1, run_first = Some tx, run_held = WriteHandle tx\<rparr>"
  obtain y s' where y: "eff_body (calls_of I) G R m s = (y, s')" by force
  have run: "eff_mutation (calls_of I) G R nm m (run_start db) =
      (case (y, s') of (Ret (Commit _), s) \<Rightarrow> backend_call (hc_commit (calls_of I)) s
       | (Ret Leave, s) \<Rightarrow> (Ret (), hc_drop (calls_of I) s) | (Fail e, s) \<Rightarrow> (Fail e, hc_drop (calls_of I) s)
       | (Panicked, s) \<Rightarrow> (Panicked, hc_drop (calls_of I) s) | (Hung, s) \<Rightarrow> (Hung, s))"
    using Ret y
    by (simp add: eff_mutation_def in_transaction_def then_do_def backend_call_def outcome_step_def x s_def run_start_def)
  have "body_stays (origin tx) nm s (y, s')"
    unfolding y [symmetric] by (rule eff_body_stays [OF G, where tx = tx]) (simp_all add: s_def lent_def tx at)
  then have s': "run_db s' = db1" "run_first s' = Some tx"
      "y = Ret (Commit ()) \<Longrightarrow> \<exists>tx'. run_held s' = WriteHandle tx' \<and> lent (origin tx) nm tx'"
    by (auto simp: stays_def s_def)
  have dropped: "db_inv (ms_drop I tx db1) \<and> db_abs (ms_drop I tx db1) = db_abs db"
    using drop_law [OF wr] tx same by (simp add: handle_on_def)
  show ?thesis
  proof (cases "y = Ret (Commit ())")
    case True
    then obtain tx' where tx': "run_held s' = WriteHandle tx'" "wh_ok tx'" "origin tx' = origin tx" "fst (wh_abs tx') = nm"
      using s'(3) by (auto simp: lent_def handle_on_def)
    obtain res db2 where c: "ms_commit I tx' db1 = (res, db2)" by force
    then show ?thesis
      using commit_law [of tx' db1 res db2] wr tx' same
      by (auto simp: run True backend_call_def s'(1) all_or_nothing_def)
  next
    case False
    then show ?thesis
      using s'(1,2) dropped same same_at by (auto simp: run all_or_nothing_def split: outcome.splits ending.splits)
  qed
qed (use write_law [OF inv, of nm] inv in
      \<open>auto simp: eff_mutation_def in_transaction_def then_do_def backend_call_def outcome_step_def run_start_def
        all_or_nothing_def refines_def\<close>)

end

section \<open>In memory\<close>

text \<open>A write handle of a namespace; that its stores are ordered is the type of a \<open>BTreeMap\<close>.\<close>

definition own_handle :: "name \<Rightarrow> memory_write_handle \<Rightarrow> bool" where
  "own_handle nm tx \<longleftrightarrow> stores_ok (mwh_staged tx) \<and> mwh_namespace tx = nm"

lemma mem_lent: "mem.lent q nm tx \<longleftrightarrow> own_handle nm tx \<and> q = nm"
  by (auto simp: mem.lent_def mem.handle_on_def own_handle_def memory_wh_abs_def)

lemma lends_mem: "lends (own_handle nm) G \<Longrightarrow> lends (mem.lent q nm) G"
proof (cases "q = nm")
  case True
  then have "mem.lent q nm = own_handle nm" by (simp add: mem_lent fun_eq_iff)
  then show "lends (own_handle nm) G \<Longrightarrow> lends (mem.lent q nm) G" by simp
qed (simp add: lends_def mem_lent)

text \<open>C11: An application may override \<open>Index::update\<close> and \<open>Index::remove\<close>, and may write its own registry.
  Whatever they do with the handle they are lent, \<open>insert\<close>, \<open>update\<close>, \<open>save\<close> and \<open>remove\<close> stay
  atomic in memory: a call that fails or panics, before or after the indexes wrote, leaves the
  database as it was; one that returns \<open>Ok\<close> changes no other namespace; and no writer is left
  behind.\<close>

lemma own_index_atomic:
  assumes "memory_inv db" and "lends (own_handle nm) G"
    and "eff_mutation (calls_of memory_ms) G R nm m (run_start db) = (x, s)"
  shows "if x = Ret () then memory_inv (run_db s) \<and> (\<forall>k. k \<noteq> nm \<longrightarrow> run_db s k = db k)
         else x \<noteq> Hung \<longrightarrow> run_db s = db"
proof -
  have all: "mem.all_or_nothing nm db (x, s)"
    using mem.eff_mutation_all_or_nothing [OF assms(1) lends_mem [OF assms(2)], of R m] assms(3) by simp
  show ?thesis
  proof (cases "x = Ret ()")
    case True
    then obtain S where S: "memory_inv (run_db s)" "memory_abs (run_db s) = (memory_abs db)(nm \<mapsto> S)"
      using all by (auto simp: mem.all_or_nothing_def)
    then have "run_db s k = db k" if "k \<noteq> nm" for k
      by (intro memory_eq_at [OF S(1) assms(1)]) (use S(2) that in simp)
    then show ?thesis using True S(1) by simp
  qed (use all memory_eqI [OF _ assms(1)] in \<open>auto simp: mem.all_or_nothing_def\<close>)
qed

text \<open>An index that writes an entry of its own and then refuses the record.\<close>

definition refusing_index :: "((memory_db, stores, kv_store, memory_write_handle, memory_write_store) run_state, 'r, 'pk) index_trait" where
  "refusing_index = \<lparr>it_name = ''audit'',
     it_update = (\<lambda>pk old new.
       then_do (backend_call (hc_open (calls_of memory_ms) ''audit'')) (\<lambda>_.
       then_do (backend_call (hc_set (calls_of memory_ms) [1] [2])) (\<lambda>_. value_of (Fail (Unexpected ''refused''))))),
     it_remove = (\<lambda>pk item. value_of (Ret ()))\<rparr>"

lemma refusing_lends: "lends (own_handle nm) (registry_of [refusing_index])"
proof -
  have "stays (\<lambda>_. True) (own_handle nm) s (it_update refusing_index pk old new s)"
    if "run_held s = WriteHandle tx" for pk old new s tx
    using that
    by (cases "mwh_staged tx ''audit''")
      (auto simp: refusing_index_def then_do_def backend_call_def outcome_step_def memory_write_open_def
        memory_set_def value_of_def stays_def)
  moreover have "stays (\<lambda>_. True) (own_handle nm) s (it_remove refusing_index pk item s)"
    if "run_held s = WriteHandle tx" "own_handle nm tx" for pk item s tx
    using that by (auto simp: refusing_index_def intro: stays_value)
  ultimately show ?thesis
    by (auto simp: lends_def registry_of_def cons_registry_def nil_registry_def intro!: stays_then intro: stays_value)
qed

definition audited_db :: memory_db where
  "audited_db = [''col'' \<mapsto> namespaced_state_new [''__main'' \<mapsto> [], ''audit'' \<mapsto> []]]"

lemma own_index_atomic_witness:
  "\<exists>s. eff_mutation (calls_of memory_ms) (registry_of [refusing_index]) test_item ''col'' (Save 1) (run_start audited_db) =
         (Fail (Unexpected ''refused''), s) \<and> run_db s = audited_db"
proof -
  obtain x s where run: "eff_mutation (calls_of memory_ms) (registry_of [refusing_index]) test_item ''col'' (Save 1)
      (run_start audited_db) = (x, s)" by force
  then have x: "x = Fail (Unexpected ''refused'')"
    by (auto simp: eff_mutation_def in_transaction_def then_do_def backend_call_def outcome_step_def eff_find_def
        eff_put_def bt_get_def borrowed_def audited_db_def namespaced_state_new_def memory_write_def gate_acquire_def run_start_def
        memory_write_open_def MAIN_STORE_def memory_get_def memory_set_def test_item_def value_of_def act_def
        registry_of_def cons_registry_def refusing_index_def hold_def write_borrowed_def Let_def)
  have "memory_inv audited_db"
    by (auto simp: memory_inv_def memory_stores_ok_def audited_db_def namespaced_state_new_def stores_ok_def split: if_splits)
  then show ?thesis using own_index_atomic [OF _ refusing_lends run] run x by simp
qed

end
