(* ===== verification/Collection_Vectors.thy ===== *)
theory Collection_Vectors
  imports Effects Registered
begin

text \<open>
  The unit tests of \<open>src/collection.rs\<close> and \<open>src/index_registry.rs\<close>, run on the model: one boolean
  per test function, and lemmas that they evaluate to true. They use the mock of
  \<open>src/testing.rs\<close>, with the one log that it shares with its handles and stores, and the registry
  \<open>SpyRegistry\<close> with its thread-local flags; so they check the error paths call by call.
\<close>

section \<open>The mock with its shared log\<close>

text \<open>The shared cell, the data of the store that is open, and the flags of \<open>SpyRegistry\<close>.\<close>

record mock_world =
  cell :: tx_log
  opened_data :: mock_data
  spies :: spy_flags

definition on_store :: "(mock_store \<Rightarrow> 'a \<times> mock_store) \<Rightarrow> mock_world \<Rightarrow> 'a \<times> mock_world" where
  "on_store f w =
     (let (x, st) = f \<lparr>store_log = cell w, store_data = opened_data w\<rparr> in (x, w\<lparr>cell := store_log st\<rparr>))"

definition world_handle :: "mock_db \<Rightarrow> mock_world \<Rightarrow> mock_handle" where
  "world_handle D w = \<lparr>handle_log = cell w, handle_data = db_data D, handle_commit_err = commit_err D\<rparr>"

definition open_in_world :: "mock_db \<Rightarrow> name \<Rightarrow> (mock_world, std_error, unit) effect" where
  "open_in_world D n w =
     (let st = mock_open n (world_handle D w) in (Ret (), w\<lparr>cell := store_log st, opened_data := store_data st\<rparr>))"

definition mock_calls :: "mock_db \<Rightarrow> mock_world handle_calls" where
  "mock_calls D = \<lparr>
     hc_prepare = (\<lambda>nm names w. (Ret (), w)),
     hc_read = (\<lambda>nm w. (map_ret (\<lambda>_. ()) (mock_read nm D), w)),
     hc_read_open = open_in_world D,
     hc_read_get = (\<lambda>k. on_store (mock_get k)),
     hc_write = (\<lambda>nm w. (map_ret (\<lambda>_. ()) (mock_write nm D), w)),
     hc_open = open_in_world D,
     hc_get = (\<lambda>k. on_store (mock_get k)),
     hc_set = (\<lambda>k v. on_store (\<lambda>st. (Ret (), mock_set k v st))),
     hc_remove = (\<lambda>k. on_store (\<lambda>st. (Ret (), mock_remove k st))),
     hc_close = (\<lambda>w. w),
     hc_commit = (\<lambda>w. let (res, db) = mock_commit (world_handle D w) D in (res, w\<lparr>cell := db_log db\<rparr>)),
     hc_drop = (\<lambda>w. w)\<rparr>"

definition spy_registry :: "(mock_world, 'r, 'pk) registry_trait" where
  "spy_registry = \<lparr>
     rt_store_names = (\<lambda>out. out),
     rt_update = (\<lambda>pk old new w. let (x, fl) = spy_update (spies w) in (x, w\<lparr>spies := fl\<rparr>)),
     rt_remove = (\<lambda>pk item w. let (x, fl) = spy_remove (spies w) in (x, w\<lparr>spies := fl\<rparr>)),
     rt_has_index = (\<lambda>name. False)\<rparr>"

section \<open>The mutating methods\<close>

text \<open>\<open>run!\<close>: a collection is made on the mock and one method is called.\<close>

definition world_new :: "bool \<Rightarrow> mock_db \<Rightarrow> mock_world" where
  "world_new fails db =
     \<lparr>cell = db_log db, opened_data = (\<lambda>_. None),
      spies = spy_set_fail fails (spy_reset \<lparr>update_called = False, remove_called = False, should_fail = False\<rparr>)\<rparr>"

definition run_case ::
  "(32 word, 32 word) mutation \<Rightarrow> mock_db \<Rightarrow> bool \<Rightarrow> (error, unit) outcome \<times> mock_world" where
  "run_case m db fails =
     then_do (eff_new (mock_calls db) (spy_registry :: (mock_world, 32 word, 32 word) registry_trait) ''col'')
       (\<lambda>_. eff_mutation (mock_calls db) spy_registry test_item ''col'' m) (world_new fails db)"

fun is_ok :: "('e, 'a) outcome \<Rightarrow> bool" where
  "is_ok (Ret a) = True" | "is_ok _ = False"

fun fails_with :: "(error \<Rightarrow> bool) \<Rightarrow> (error, 'a) outcome \<Rightarrow> bool" where
  "fails_with p (Fail e) = p e" | "fails_with p _ = False"

fun exists_already :: "error \<Rightarrow> bool" where
  "exists_already (AlreadyExists k) = True" | "exists_already _ = False"
fun not_found :: "error \<Rightarrow> bool" where
  "not_found (NotFound k) = True" | "not_found _ = False"
fun of_backend :: "error \<Rightarrow> bool" where
  "of_backend (Backend e) = True" | "of_backend _ = False"
fun of_codec :: "error \<Rightarrow> bool" where
  "of_codec (Codec e) = True" | "of_codec _ = False"
fun unexpected :: "error \<Rightarrow> bool" where
  "unexpected (Unexpected k) = True" | "unexpected _ = False"

text \<open>
  One row of a test: the mock, whether the registry fails, what the result is to be, the stores
  opened, the number of writes, whether the commit was called, and whether the registry was.
\<close>

definition assert_case ::
  "(32 word, 32 word) mutation \<Rightarrow> (tx_log \<Rightarrow> nat) \<Rightarrow> (spy_flags \<Rightarrow> bool) \<Rightarrow>
   mock_db \<times> bool \<times> ((error, unit) outcome \<Rightarrow> bool) \<times> name list \<times> nat \<times> bool \<times> bool \<Rightarrow> bool" where
  "assert_case m writes was_called = (\<lambda>(db, fails, expect_result, expect_opens, expect_writes, expect_committed, expect_called).
     (let (result, w) = run_case m db fails in
      expect_result result \<and> opens (cell w) = expect_opens \<and> writes (cell w) = expect_writes \<and>
      committed (cell w) = expect_committed \<and> was_called (spies w) = expect_called))"

definition enc_pk :: bytes where
  "enc_pk = encode u32_key 1"

definition enc_val :: bytes where
  "enc_val = to_be_bytes 4 (1 :: 32 word)"

definition existing_db :: mock_db where
  "existing_db = with_data ''__main'' enc_pk enc_val mock_new"

definition corrupted_db :: mock_db where
  "corrupted_db = with_data ''__main'' enc_pk [0x01] mock_new"

definition write_fails :: std_error where
  "write_fails = backend_error_of ''write failed''"

definition commit_fails :: std_error where
  "commit_fails = backend_error_of ''commit failed''"

abbreviation set_count :: "tx_log \<Rightarrow> nat" where "set_count L \<equiv> length (sets L)"
abbreviation remove_count :: "tx_log \<Rightarrow> nat" where "remove_count L \<equiv> length (removes L)"

definition test_insert :: bool where
  "test_insert \<longleftrightarrow>
     list_all (assert_case (Insert 1) set_count update_called)
       [(mock_new, False, is_ok, [''__main''], 1, True, True),
        (existing_db, False, fails_with exists_already, [''__main''], 0, False, False),
        (with_write_err write_fails mock_new, False, fails_with of_backend, [], 0, False, False),
        (with_commit_err commit_fails mock_new, False, fails_with of_backend, [''__main''], 1, True, True),
        (mock_new, True, fails_with unexpected, [''__main''], 1, False, True)]
   \<and> (let (result, w) = run_case (Insert 1) mock_new False in is_ok result \<and> sets (cell w) ! 0 = (enc_pk, enc_val))"

definition test_update :: bool where
  "test_update \<longleftrightarrow>
     list_all (assert_case (Update 1) set_count update_called)
       [(existing_db, False, is_ok, [''__main''], 1, True, True),
        (mock_new, False, fails_with not_found, [''__main''], 0, False, False),
        (with_write_err write_fails mock_new, False, fails_with of_backend, [], 0, False, False),
        (with_commit_err commit_fails existing_db, False, fails_with of_backend, [''__main''], 1, True, True),
        (corrupted_db, False, fails_with of_codec, [''__main''], 0, False, False),
        (existing_db, True, fails_with unexpected, [''__main''], 1, False, True)]
   \<and> (let (result, w) = run_case (Update 1) existing_db False in is_ok result \<and> sets (cell w) ! 0 = (enc_pk, enc_val))"

definition test_save :: bool where
  "test_save \<longleftrightarrow>
     list_all (assert_case (Save 1) set_count update_called)
       [(mock_new, False, is_ok, [''__main''], 1, True, True),
        (existing_db, False, is_ok, [''__main''], 1, True, True),
        (with_write_err write_fails mock_new, False, fails_with of_backend, [], 0, False, False),
        (with_commit_err commit_fails existing_db, False, fails_with of_backend, [''__main''], 1, True, True),
        (corrupted_db, False, fails_with of_codec, [''__main''], 0, False, False),
        (existing_db, True, fails_with unexpected, [''__main''], 1, False, True)]
   \<and> (let (result, w) = run_case (Save 1) mock_new False in is_ok result \<and> sets (cell w) ! 0 = (enc_pk, enc_val))"

definition test_remove :: bool where
  "test_remove \<longleftrightarrow>
     list_all (assert_case (Remove 1) remove_count remove_called)
       [(existing_db, False, is_ok, [''__main''], 1, True, True),
        (mock_new, False, is_ok, [''__main''], 0, False, False),
        (with_write_err write_fails mock_new, False, fails_with of_backend, [], 0, False, False),
        (with_commit_err commit_fails existing_db, False, fails_with of_backend, [''__main''], 1, True, True),
        (corrupted_db, False, fails_with of_codec, [''__main''], 0, False, False),
        (existing_db, True, fails_with unexpected, [''__main''], 1, False, True)]
   \<and> (let (result, w) = run_case (Remove 1) existing_db False in is_ok result \<and> removes (cell w) ! 0 = enc_pk)"

lemma passes_mutations: "test_insert" "test_update" "test_save" "test_remove"
  by code_simp+

section \<open>Reading\<close>

definition run_get :: "mock_db \<Rightarrow> (error, 32 word option) outcome \<times> mock_world" where
  "run_get db =
     then_do (eff_new (mock_calls db) (spy_registry :: (mock_world, 32 word, 32 word) registry_trait) ''col'')
       (\<lambda>_. eff_get (mock_calls db) test_item ''col'' 1) (world_new False db)"

definition test_get :: bool where
  "test_get \<longleftrightarrow>
     list_all (\<lambda>(db, expect_result, expect_opens).
         let (result, w) = run_get db in expect_result result \<and> opens (cell w) = expect_opens)
       [(existing_db, (\<lambda>r. r = Ret (Some 1)), [''__main'']),
        (mock_new, (\<lambda>r. r = Ret None), [''__main'']),
        (with_read_err (backend_error_of ''read failed'') mock_new, fails_with of_backend, []),
        (corrupted_db, fails_with of_codec, [''__main''])]
   \<and> gets (cell (snd (run_get existing_db))) ! 0 = enc_pk"

lemma passes_get: "test_get"
  by code_simp

section \<open>The list of indexes\<close>

text \<open>
  The write handle of these tests only notes the stores that are opened; the indexes override
  \<open>update\<close> and \<open>remove\<close> to open their store, or to fail.
\<close>

type_synonym opened_names = "name list"

definition spy_open :: "name \<Rightarrow> (opened_names, std_error, unit) effect" where
  "spy_open n s = (Ret (), s @ [n])"

definition spy_index :: "name \<Rightarrow> (opened_names, 32 word, 32 word) index_trait" where
  "spy_index n = \<lparr>it_name = n,
     it_update = (\<lambda>pk old new. then_do (backend_call (spy_open n)) (\<lambda>_. value_of (Ret ()))),
     it_remove = (\<lambda>pk item. then_do (backend_call (spy_open n)) (\<lambda>_. value_of (Ret ())))\<rparr>"

definition fail_index :: "(opened_names, 32 word, 32 word) index_trait" where
  "fail_index = \<lparr>it_name = ''fail'',
     it_update = (\<lambda>pk old new. value_of (Fail (Unexpected ''injected''))),
     it_remove = (\<lambda>pk item. value_of (Fail (Unexpected ''injected'')))\<rparr>"

abbreviation index_a where "index_a \<equiv> spy_index ''index_a''"
abbreviation index_b where "index_b \<equiv> spy_index ''index_b''"

definition test_has_index :: bool where
  "test_has_index \<longleftrightarrow>
     list_all (\<lambda>(Is, n, expected). rt_has_index (registry_of Is) n = expected)
       [([], ''index_a'', False), ([], [], False),
        ([index_a], ''index_a'', True), ([index_a], ''index_b'', False),
        ([index_a, index_b], ''index_a'', True), ([index_a, index_b], ''index_b'', True),
        ([index_a, index_b], ''nonexistent'', False)]"

definition registry_cases :: "((opened_names, 32 word, 32 word) index_trait list \<times> name list \<times> bool) list" where
  "registry_cases =
     [([], [], False), ([index_a, index_b], [''index_a'', ''index_b''], False), ([fail_index, index_a], [], True)]"

definition test_registry_update :: bool where
  "test_registry_update \<longleftrightarrow>
     list_all (\<lambda>(Is, expect_invoked, expect_err).
         let (result, spy) = rt_update (registry_of Is) 1 None 1 [] in
         (\<not> is_ok result) = expect_err \<and> spy = expect_invoked) registry_cases"

definition test_registry_remove :: bool where
  "test_registry_remove \<longleftrightarrow>
     list_all (\<lambda>(Is, expect_invoked, expect_err).
         let (result, spy) = rt_remove (registry_of Is) 1 1 [] in
         (\<not> is_ok result) = expect_err \<and> spy = expect_invoked) registry_cases"

lemma passes_registry: "test_has_index" "test_registry_update" "test_registry_remove"
  by code_simp+

section \<open>Proofs of membership\<close>

text \<open>Three indexes that only differ in their names.\<close>

definition named_index :: "name \<Rightarrow> (32 word, 32 word) any_index" where
  "named_index n = erase_index \<lparr>index_name = n, index_key = (\<lambda>r. r), index_key_key = u32_key,
     kind = unique_kind u32_key (\<lambda>k. [])\<rparr>"

definition test_contains_index :: bool where
  "test_contains_index \<longleftrightarrow>
     (let A = named_index ''index_a''; B = named_index ''index_b''; C = named_index ''index_c'' in
      contains_index [A] A Here
    \<and> contains_index [A, B] B (There Here)
    \<and> contains_index [A, B, C] A Here \<and> contains_index [A, B, C] B (There Here)
    \<and> contains_index [A, B, C] C (There (There Here)))"

lemma passes_contains_index: "test_contains_index"
  by (simp add: test_contains_index_def Let_def)

section \<open>An index named as the primary store\<close>

text \<open>
  \<open>with_index\<close> compares the name of an index with those of the other indexes, not with \<open>__main\<close>.
  An index of that name writes its entries among the records: after an \<open>insert\<close> that returns
  \<open>Ok\<close>, \<open>get\<close> finds the record under a key that no record has.
\<close>

definition main_index :: "(32 word, 32 word) any_index" where
  "main_index = erase_index \<lparr>index_name = ''__main'', index_key = (\<lambda>r. r + 1), index_key_key = u32_key,
     kind = unique_kind u32_key (\<lambda>k. [])\<rparr>"

definition main_builder :: "(memory_db, 32 word, 32 word) builder" where
  "main_builder = (collection ''col'' memory_new)\<lparr>builder_indexes := [main_index]\<rparr>"

lemma main_builder_accepted: "with_index main_index (collection ''col'' memory_new) = Ret main_builder"
  by (simp add: with_index_def collection_def main_builder_def)

lemma main_index_corrupts:
  "case build memory_ms main_builder of
     Ret db \<Rightarrow>
       (case collection_insert memory_ms test_item [main_index] ''col'' 1 db of
          (Ret _, db) \<Rightarrow> collection_get memory_ms test_item ''col'' 2 db = Ret (Some 1)
        | _ \<Rightarrow> False)
   | _ \<Rightarrow> False"
  by code_simp

end
