(* ===== verification/Backend_Vectors.thy ===== *)
theory Backend_Vectors
  imports Redb_Spec Memory Scan
begin

text \<open>
  The contract tests that both backends run, \<open>src/backend/tests.rs\<close>, with the tests of
  \<open>src/backend/redb.rs\<close>, of the errors and of the cursors: one boolean per test function. The
  contract tests are functions of a backend; they are evaluated on the in-memory backend and on
  the redb backend over the crate in memory of \<open>Redb_Spec\<close>. So the operations of the two models
  are checked against the bytes and scans that the authors of the backends wrote down.
\<close>

section \<open>The helpers of the contract tests\<close>

fun set_entries ::
  "('db, 'rh, 'rs, 'wh, 'ws) multistore \<Rightarrow> (bytes \<times> bytes) list \<Rightarrow> 'ws \<Rightarrow> (std_error, 'ws) outcome" where
  "set_entries I [] store = Ret store"
| "set_entries I ((key, val) # entries) store = and_then (ws_set I key val store) (set_entries I entries)"

definition commit_handle ::
  "('db, 'rh, 'rs, 'wh, 'ws) multistore \<Rightarrow> 'wh \<Rightarrow> 'db \<Rightarrow> (std_error, 'db) outcome" where
  "commit_handle I tx db = (let (res, db) = ms_commit I tx db in map_ret (\<lambda>_. db) res)"

definition commit_entries ::
  "('db, 'rh, 'rs, 'wh, 'ws) multistore \<Rightarrow> name \<Rightarrow> name \<Rightarrow> (bytes \<times> bytes) list \<Rightarrow> 'db \<Rightarrow> (std_error, 'db) outcome" where
  "commit_entries I ns st entries db =
     and_then (ms_write I ns db) (\<lambda>(tx, db).
     and_then (wh_open I st tx) (\<lambda>store.
     and_then (set_entries I entries store) (\<lambda>store. commit_handle I (ws_close I store) db)))"

definition remove_and_commit ::
  "('db, 'rh, 'rs, 'wh, 'ws) multistore \<Rightarrow> name \<Rightarrow> name \<Rightarrow> bytes \<Rightarrow> 'db \<Rightarrow> (std_error, 'db) outcome" where
  "remove_and_commit I ns st key db =
     and_then (ms_write I ns db) (\<lambda>(tx, db).
     and_then (wh_open I st tx) (\<lambda>store.
     and_then (ws_remove I key store) (\<lambda>store. commit_handle I (ws_close I store) db)))"

definition get_from ::
  "('db, 'rh, 'rs, 'wh, 'ws) multistore \<Rightarrow> name \<Rightarrow> bytes \<Rightarrow> 'rh \<Rightarrow> (std_error, bytes option) outcome" where
  "get_from I st key rh = and_then (rh_open I st rh) (rs_get I key)"

definition get_now ::
  "('db, 'rh, 'rs, 'wh, 'ws) multistore \<Rightarrow> name \<Rightarrow> name \<Rightarrow> bytes \<Rightarrow> 'db \<Rightarrow> (std_error, bytes option) outcome" where
  "get_now I ns st key db = and_then (ms_read I ns db) (get_from I st key)"

fun collect_entries :: "scan_results \<Rightarrow> (std_error, (bytes \<times> bytes) list) outcome" where
  "collect_entries [] = Ret []"
| "collect_entries (x # xs) = and_then x (\<lambda>e. map_ret ((#) e) (collect_entries xs))"

definition scan_now ::
  "('db, 'rh, 'rs, 'wh, 'ws) multistore \<Rightarrow> name \<Rightarrow> name \<Rightarrow> scan_range \<Rightarrow> direction \<Rightarrow> 'db \<Rightarrow>
   (std_error, (bytes \<times> bytes) list) outcome" where
  "scan_now I ns st r d db =
     and_then (ms_read I ns db) (\<lambda>rh.
     and_then (rh_open I st rh) (\<lambda>store.
     and_then (rs_scan I r d store) collect_entries))"

text \<open>A test that no \<open>unwrap\<close> stops, and whose assertions hold.\<close>

definition passes :: "(std_error, bool) outcome \<Rightarrow> bool" where
  "passes x \<longleftrightarrow> x = Ret True"

section \<open>The contract\<close>

definition basic_operations :: "('db, 'rh, 'rs, 'wh, 'ws) multistore \<Rightarrow> 'db \<Rightarrow> bool" where
  "basic_operations I db = passes
     (let ns = ''basic''; st = ''items''; a = as_bytes ''a''; missing = as_bytes ''missing'';
          read = (\<lambda>key db. get_now I ns st key db) in
      and_then (ms_prepare I ns [st] db) (\<lambda>db0.
      and_then (commit_entries I ns st [(a, as_bytes ''one'')] db0) (\<lambda>db1.
      and_then (commit_entries I ns st [(a, as_bytes ''two'')] db1) (\<lambda>db2.
      and_then (remove_and_commit I ns st a db2) (\<lambda>db3.
      and_then (remove_and_commit I ns st missing db3) (\<lambda>db4.
      Ret (read missing db0 = Ret None \<and> read a db1 = Ret (Some (as_bytes ''one''))
         \<and> read a db2 = Ret (Some (as_bytes ''two'')) \<and> read a db3 = Ret None \<and> read missing db4 = Ret None)))))))"

definition namespace_isolation :: "('db, 'rh, 'rs, 'wh, 'ws) multistore \<Rightarrow> 'db \<Rightarrow> bool" where
  "namespace_isolation I db = passes
     (let key = as_bytes ''same-key'' in
      and_then (ms_prepare I ''left'' [''items''] db) (\<lambda>db.
      and_then (ms_prepare I ''right'' [''items''] db) (\<lambda>db.
      and_then (commit_entries I ''left'' ''items'' [(key, as_bytes ''left'')] db) (\<lambda>db.
      and_then (commit_entries I ''right'' ''items'' [(key, as_bytes ''right'')] db) (\<lambda>db.
      Ret (get_now I ''left'' ''items'' key db = Ret (Some (as_bytes ''left''))
         \<and> get_now I ''right'' ''items'' key db = Ret (Some (as_bytes ''right''))))))))"

definition store_isolation :: "('db, 'rh, 'rs, 'wh, 'ws) multistore \<Rightarrow> 'db \<Rightarrow> bool" where
  "store_isolation I db = passes
     (let key = as_bytes ''same-key'' in
      and_then (ms_prepare I ''stores'' [''primary'', ''index''] db) (\<lambda>db.
      and_then (ms_write I ''stores'' db) (\<lambda>(tx, db).
      and_then (wh_open I ''primary'' tx) (\<lambda>store.
      and_then (ws_set I key (as_bytes ''primary'') store) (\<lambda>store.
      and_then (wh_open I ''index'' (ws_close I store)) (\<lambda>store.
      and_then (ws_set I key (as_bytes ''index'') store) (\<lambda>store.
      and_then (commit_handle I (ws_close I store) db) (\<lambda>db.
      Ret (get_now I ''stores'' ''primary'' key db = Ret (Some (as_bytes ''primary''))
         \<and> get_now I ''stores'' ''index'' key db = Ret (Some (as_bytes ''index'')))))))))))"

definition committed_writes_are_visible :: "('db, 'rh, 'rs, 'wh, 'ws) multistore \<Rightarrow> 'db \<Rightarrow> bool" where
  "committed_writes_are_visible I db = passes
     (and_then (ms_prepare I ''commits'' [''items''] db) (\<lambda>db.
      and_then (commit_entries I ''commits'' ''items'' [(as_bytes ''k'', as_bytes ''committed'')] db) (\<lambda>db.
      Ret (get_now I ''commits'' ''items'' (as_bytes ''k'') db = Ret (Some (as_bytes ''committed''))))))"

definition write_handle_reads_include_uncommitted_writes :: "('db, 'rh, 'rs, 'wh, 'ws) multistore \<Rightarrow> 'db \<Rightarrow> bool" where
  "write_handle_reads_include_uncommitted_writes I db = passes
     (let k = as_bytes ''k''; v = as_bytes ''uncommitted'' in
      and_then (ms_prepare I ''write-reads'' [''items''] db) (\<lambda>db.
      and_then (ms_write I ''write-reads'' db) (\<lambda>(tx, db).
      and_then (wh_open I ''items'' tx) (\<lambda>store.
      and_then (ws_set I k v store) (\<lambda>store.
      and_then (ws_get I k store) (\<lambda>found.
      and_then (commit_handle I (ws_close I store) db) (\<lambda>_. Ret (found = Some v))))))))"

definition read_handles_keep_stable_snapshots :: "('db, 'rh, 'rs, 'wh, 'ws) multistore \<Rightarrow> 'db \<Rightarrow> bool" where
  "read_handles_keep_stable_snapshots I db = passes
     (let k = as_bytes ''k''; v = as_bytes ''after'' in
      and_then (ms_prepare I ''snapshots'' [''items''] db) (\<lambda>db.
      and_then (ms_read I ''snapshots'' db) (\<lambda>before.
      and_then (commit_entries I ''snapshots'' ''items'' [(k, v)] db) (\<lambda>db.
      Ret (get_from I ''items'' k before = Ret None \<and> get_now I ''snapshots'' ''items'' k db = Ret (Some v))))))"

definition multiple_read_handles_ignore_open_write_and_commit ::
  "('db, 'rh, 'rs, 'wh, 'ws) multistore \<Rightarrow> 'db \<Rightarrow> bool" where
  "multiple_read_handles_ignore_open_write_and_commit I db = passes
     (let ns = ''mvcc-readers''; k = as_bytes ''k''; new = as_bytes ''new'';
          sees_before = (\<lambda>rh. get_from I ''items'' k rh = Ret (Some (as_bytes ''before''))
                            \<and> get_from I ''items'' new rh = Ret None) in
      and_then (ms_prepare I ns [''items''] db) (\<lambda>db.
      and_then (commit_entries I ns ''items'' [(k, as_bytes ''before'')] db) (\<lambda>db.
      and_then (ms_read I ns db) (\<lambda>read_a.
      and_then (ms_read I ns db) (\<lambda>read_b.
      and_then (ms_write I ns db) (\<lambda>(tx, db).
      and_then (wh_open I ''items'' tx) (\<lambda>store.
      and_then (set_entries I [(k, as_bytes ''after''), (new, as_bytes ''created'')] store) (\<lambda>store.
      and_then (ms_read I ns db) (\<lambda>read_c.
      and_then (commit_handle I (ws_close I store) db) (\<lambda>db.
      Ret (list_all sees_before [read_a, read_b, read_c]
         \<and> get_now I ns ''items'' k db = Ret (Some (as_bytes ''after''))
         \<and> get_now I ns ''items'' new db = Ret (Some (as_bytes ''created'')))))))))))))"

definition multi_store_commits_are_atomic :: "('db, 'rh, 'rs, 'wh, 'ws) multistore \<Rightarrow> 'db \<Rightarrow> bool" where
  "multi_store_commits_are_atomic I db = passes
     (let ns = ''atomic''; id = as_bytes ''id:1''; nm = as_bytes ''name:record''; rec = as_bytes ''record'' in
      and_then (ms_prepare I ns [''primary'', ''index''] db) (\<lambda>db.
      and_then (ms_read I ns db) (\<lambda>before.
      and_then (ms_write I ns db) (\<lambda>(tx, db).
      and_then (wh_open I ''primary'' tx) (\<lambda>store.
      and_then (ws_set I id rec store) (\<lambda>store.
      and_then (wh_open I ''index'' (ws_close I store)) (\<lambda>store.
      and_then (ws_set I nm id store) (\<lambda>store.
      and_then (commit_handle I (ws_close I store) db) (\<lambda>db'.
      Ret (get_from I ''primary'' id before = Ret None \<and> get_from I ''index'' nm before = Ret None
         \<and> get_now I ns ''primary'' id db' = Ret (Some rec) \<and> get_now I ns ''index'' nm db' = Ret (Some id)))))))))))"

text \<open>
  The threads of the test of the single writer are run one after the other: the second \<open>write\<close>
  hangs while the first handle is open, and goes through once it is dropped.
\<close>

definition second_write_waits_for_open_write_to_finish :: "('db, 'rh, 'rs, 'wh, 'ws) multistore \<Rightarrow> 'db \<Rightarrow> bool" where
  "second_write_waits_for_open_write_to_finish I db = passes
     (and_then (ms_prepare I ''single-writer'' [''items''] db) (\<lambda>db.
      and_then (ms_write I ''single-writer'' db) (\<lambda>(first_write, db).
      Ret ((case ms_write I ''single-writer'' db of Hung \<Rightarrow> True | _ \<Rightarrow> False)
         \<and> (case ms_write I ''single-writer'' (ms_drop I first_write db) of Ret _ \<Rightarrow> True | _ \<Rightarrow> False)))))"

section \<open>Scans\<close>

definition scan_entries :: "(bytes \<times> bytes) list" where
  "scan_entries =
     [([], as_bytes ''empty''), ([0], as_bytes ''zero''), ([0, 0], as_bytes ''zero-zero''),
      ([0, 1], as_bytes ''zero-one''), ([1], as_bytes ''one''), ([1, 0], as_bytes ''one-zero''),
      ([2], as_bytes ''two''), ([3, 0], as_bytes ''three-zero''), ([3, 1], as_bytes ''three-one''),
      ([10], as_bytes ''ten''), ([255], as_bytes ''max''), ([255, 0], as_bytes ''max-zero'')]"

type_synonym scan_case = "scan_range \<times> direction \<times> nat list"

definition scan_cases :: "scan_case list" where
  "scan_cases =
     [((Unbounded, Unbounded), LeftToRight, [0, 1, 2, 3, 4, 5, 6, 7, 8, 9, 10, 11]),
      ((Unbounded, Unbounded), RightToLeft, [11, 10, 9, 8, 7, 6, 5, 4, 3, 2, 1, 0]),
      ((Included [1], Unbounded), LeftToRight, [4, 5, 6, 7, 8, 9, 10, 11]),
      ((Excluded [1], Unbounded), LeftToRight, [5, 6, 7, 8, 9, 10, 11]),
      ((Unbounded, Included [1]), LeftToRight, [0, 1, 2, 3, 4]),
      ((Unbounded, Excluded [1]), LeftToRight, [0, 1, 2, 3]),
      ((Included [0, 1], Included [2]), LeftToRight, [3, 4, 5, 6]),
      ((Included [0, 1], Excluded [2]), LeftToRight, [3, 4, 5]),
      ((Excluded [0, 1], Included [2]), LeftToRight, [4, 5, 6]),
      ((Excluded [0, 1], Excluded [2]), LeftToRight, [4, 5]),
      ((Included [4], Included [5]), LeftToRight, []),
      ((Included [1, 0], Included [1, 0]), LeftToRight, [5]),
      ((Included [0, 1], Included [2]), RightToLeft, [6, 5, 4, 3]),
      (encoded_prefix_range [], LeftToRight, [0, 1, 2, 3, 4, 5, 6, 7, 8, 9, 10, 11]),
      (encoded_prefix_range [], RightToLeft, [11, 10, 9, 8, 7, 6, 5, 4, 3, 2, 1, 0]),
      (encoded_prefix_range [0], LeftToRight, [1, 2, 3]),
      (encoded_prefix_range [1], RightToLeft, [5, 4]),
      (encoded_prefix_range [3], LeftToRight, [7, 8]),
      (encoded_prefix_range [3], RightToLeft, [8, 7]),
      (encoded_prefix_range [1, 0], LeftToRight, [5]),
      (encoded_prefix_range [255], LeftToRight, [10, 11]),
      (encoded_prefix_range [255], RightToLeft, [11, 10]),
      (encoded_prefix_range [4], LeftToRight, []),
      ((Included [2], Included [10]), LeftToRight, [6, 7, 8, 9])]"

definition assert_scan_case :: "('db, 'rh, 'rs, 'wh, 'ws) multistore \<Rightarrow> 'db \<Rightarrow> scan_case \<Rightarrow> bool" where
  "assert_scan_case I db = (\<lambda>(r, d, expected_indexes).
     scan_now I ''scans'' ''items'' r d db = Ret (List.map ((!) scan_entries) expected_indexes))"

definition scans_contract :: "('db, 'rh, 'rs, 'wh, 'ws) multistore \<Rightarrow> 'db \<Rightarrow> bool" where
  "scans_contract I db = passes
     (and_then (ms_prepare I ''scans'' [''items''] db) (\<lambda>db.
      and_then (commit_entries I ''scans'' ''items'' scan_entries db) (\<lambda>db.
      and_then (remove_and_commit I ''scans'' ''items'' [1, 0] db) (\<lambda>db'.
      Ret (list_all (assert_scan_case I db) scan_cases
         \<and> assert_scan_case I db' ((Unbounded, Unbounded), LeftToRight, [0, 1, 2, 3, 4, 6, 7, 8, 9, 10, 11]))))))"

section \<open>Both backends\<close>

lemma memory_passes_contract:
  "basic_operations memory_ms memory_new" "namespace_isolation memory_ms memory_new"
  "store_isolation memory_ms memory_new" "committed_writes_are_visible memory_ms memory_new"
  "write_handle_reads_include_uncommitted_writes memory_ms memory_new"
  "read_handles_keep_stable_snapshots memory_ms memory_new"
  "multiple_read_handles_ignore_open_write_and_commit memory_ms memory_new"
  "second_write_waits_for_open_write_to_finish memory_ms memory_new"
  "multi_store_commits_are_atomic memory_ms memory_new"
  by code_simp+

text \<open>The bytes of the keys; the rest is evaluation.\<close>

lemma key_bytes:
  "as_bytes ''a'' = [0x61]" "as_bytes ''missing'' = [0x6d, 0x69, 0x73, 0x73, 0x69, 0x6e, 0x67]"
  "as_bytes ''same-key'' = [0x73, 0x61, 0x6d, 0x65, 0x2d, 0x6b, 0x65, 0x79]" "as_bytes ''k'' = [0x6b]"
  "as_bytes ''new'' = [0x6e, 0x65, 0x77]" "as_bytes ''id:1'' = [0x69, 0x64, 0x3a, 0x31]"
  "as_bytes ''name:record'' = [0x6e, 0x61, 0x6d, 0x65, 0x3a, 0x72, 0x65, 0x63, 0x6f, 0x72, 0x64]"
  by code_simp+

definition make_db :: "tables redb_multi_store" where
  "make_db = redb_from_database (\<lambda>_. None)"

lemmas helpers = passes_def commit_entries_def remove_and_commit_def commit_handle_def get_now_def get_from_def Let_def

lemmas ram_run = redb_prepare_def redb_read_def redb_write_def prepared_table_name_def redb_open_def
  redb_write_open_def redb_close_def redb_set_def redb_remove_def ram_crate_def ram_open_def ram_edit_def
  with_table_def edit_table_def opened_def table_or_empty_def make_db_def redb_from_database_def
  bt_get_def bt_remove_def

lemma redb_passes_contract:
  "basic_operations (redb_ms ram_crate) make_db" "namespace_isolation (redb_ms ram_crate) make_db"
  "store_isolation (redb_ms ram_crate) make_db" "committed_writes_are_visible (redb_ms ram_crate) make_db"
  "write_handle_reads_include_uncommitted_writes (redb_ms ram_crate) make_db"
  "read_handles_keep_stable_snapshots (redb_ms ram_crate) make_db"
  "multiple_read_handles_ignore_open_write_and_commit (redb_ms ram_crate) make_db"
  "multi_store_commits_are_atomic (redb_ms ram_crate) make_db"
  by (simp_all add: basic_operations_def namespace_isolation_def store_isolation_def
      committed_writes_are_visible_def write_handle_reads_include_uncommitted_writes_def
      read_handles_keep_stable_snapshots_def multiple_read_handles_ignore_open_write_and_commit_def
      multi_store_commits_are_atomic_def helpers ram_run key_bytes)

text \<open>The scans: the store that was filled, and each range of it.\<close>

lemma scan_now_store:
  "ms_read I ns db = Ret rh \<Longrightarrow> rh_open I st rh = Ret store \<Longrightarrow>
   scan_now I ns st r d db = and_then (rs_scan I r d store) collect_entries"
  by (simp add: scan_now_def)

definition scan_entries_left :: "(bytes \<times> bytes) list" where
  "scan_entries_left = filter (\<lambda>(k, v). k \<noteq> [1, 0]) scan_entries"

lemma entries_filled: "fold (\<lambda>(k, v). bt_insert k v) scan_entries [] = scan_entries"
  "bt_remove [1, 0] scan_entries = scan_entries_left"
  by code_simp+

lemma scans_contractI:
  assumes "ms_prepare I ''scans'' [''items''] db = Ret db0"
    and "commit_entries I ''scans'' ''items'' scan_entries db0 = Ret db1"
    and "remove_and_commit I ''scans'' ''items'' [1, 0] db1 = Ret db2"
    and "ms_read I ''scans'' db1 = Ret rh1" "rh_open I ''items'' rh1 = Ret store1"
    and "ms_read I ''scans'' db2 = Ret rh2" "rh_open I ''items'' rh2 = Ret store2"
    and "list_all (\<lambda>(r, d, is). and_then (rs_scan I r d store1) collect_entries =
           Ret (List.map ((!) scan_entries) is)) scan_cases"
    and "and_then (rs_scan I (Unbounded, Unbounded) LeftToRight store2) collect_entries = Ret scan_entries_left"
  shows "scans_contract I db"
proof -
  have "scan_entries_left = List.map ((!) scan_entries) [0, 1, 2, 3, 4, 6, 7, 8, 9, 10, 11]" by code_simp
  then show ?thesis
    using assms(1-3,8,9) scan_now_store [OF assms(4,5)] scan_now_store [OF assms(6,7)]
    by (simp add: scans_contract_def passes_def assert_scan_case_def)
qed

lemma memory_range_cases:
  "list_all (\<lambda>(r, d, is). and_then (memory_scan r d scan_entries) collect_entries =
     Ret (List.map ((!) scan_entries) is)) scan_cases"
  "and_then (memory_scan (Unbounded, Unbounded) LeftToRight scan_entries_left) collect_entries = Ret scan_entries_left"
  by code_simp+

lemma redb_range_cases:
  "list_all (\<lambda>(r, d, is). and_then (redb_scan (ram_range (scan_bounds r) scan_entries) d) collect_entries =
     Ret (List.map ((!) scan_entries) is)) scan_cases"
  "and_then (redb_scan (ram_range (scan_bounds (Unbounded, Unbounded)) scan_entries_left) LeftToRight)
     collect_entries = Ret scan_entries_left"
  by code_simp+

lemma set_entries_memory:
  "mwh_staged (mws_handle ws) (mws_name ws) = Some kv \<Longrightarrow>
   set_entries memory_ms entries ws = Ret (write_borrowed (fold (\<lambda>(k, v). bt_insert k v) entries kv) ws)"
proof (induction entries arbitrary: kv ws)
  case Nil
  then show ?case by (auto simp: write_borrowed_def intro!: memory_write_store.equality memory_write_handle.equality)
next
  case (Cons e entries)
  then show ?case by (cases e) (simp add: memory_set_def write_borrowed_def borrowed_def)
qed

lemma memory_passes_scans: "scans_contract memory_ms memory_new"
proof (rule scans_contractI)
  let ?db = "\<lambda>kv. [''scans'' \<mapsto> namespaced_state_new [''items'' \<mapsto> kv]]"
  show "ms_prepare memory_ms ''scans'' [''items''] memory_new = Ret (?db [])"
    by (simp add: memory_prepare_def memory_new_def collect_map_def Let_def)
  show "commit_entries memory_ms ''scans'' ''items'' scan_entries (?db []) = Ret (?db scan_entries)"
    by (simp add: helpers memory_write_def gate_acquire_def namespaced_state_new_def memory_write_open_def
        set_entries_memory entries_filled write_borrowed_def memory_commit_def permit_drop_def)
  show "remove_and_commit memory_ms ''scans'' ''items'' [1, 0] (?db scan_entries) = Ret (?db scan_entries_left)"
    by (simp add: helpers memory_write_def gate_acquire_def namespaced_state_new_def memory_write_open_def
        memory_remove_def borrowed_def entries_filled write_borrowed_def memory_commit_def permit_drop_def)
  show "ms_read memory_ms ''scans'' (?db scan_entries) = Ret [''items'' \<mapsto> scan_entries]"
    "ms_read memory_ms ''scans'' (?db scan_entries_left) = Ret [''items'' \<mapsto> scan_entries_left]"
    by (simp_all add: memory_read_def namespaced_state_new_def)
  show "rh_open memory_ms ''items'' [''items'' \<mapsto> scan_entries] = Ret scan_entries"
    "rh_open memory_ms ''items'' [''items'' \<mapsto> scan_entries_left] = Ret scan_entries_left"
    by (simp_all add: memory_open_def)
qed (use memory_range_cases in simp_all)

lemma set_entries_redb:
  "rws_table ws = (t, T) \<Longrightarrow> T t = Some kv \<Longrightarrow>
   set_entries (redb_ms ram_crate) entries ws =
     Ret (ws\<lparr>rws_table := (t, T(t \<mapsto> fold (\<lambda>(k, v). bt_insert k v) entries kv))\<rparr>)"
proof (induction entries arbitrary: kv ws T)
  case Nil
  then show ?case by (simp add: map_upd_triv)
next
  case (Cons e entries)
  then show ?case
    by (cases e) (simp add: redb_set_def ram_crate_def ram_edit_def edit_table_def opened_def table_or_empty_def
        fun_upd_def cong: if_cong)
qed

lemma ram_crate_simps:
  "begin_read ram_crate = Ret" "begin_write ram_crate T = Ret (T, T)" "rtx_open_table ram_crate = ram_open"
  "rtab_range ram_crate = ram_range" "wtx_open_table ram_crate t T = Ret (t, with_table t T)"
  "wtab_remove ram_crate k = ram_edit k (bt_remove k)" "wtab_drop ram_crate = snd"
  "wtx_commit ram_crate T db = (Ret (), T)"
  by (simp_all add: ram_crate_def)

lemma redb_passes_scans: "scans_contract (redb_ms ram_crate) make_db"
proof (rule scans_contractI)
  let ?t = "table_name ''scans'' ''items''"
  let ?reg = "[(''scans'', ''items'') \<mapsto> ?t]"
  let ?db = "\<lambda>kv. \<lparr>rms_db = [?t \<mapsto> kv], rms_tables = ?reg\<rparr>"
  let ?rh = "\<lambda>kv. \<lparr>rrh_namespace = ''scans'', rrh_tables = ?reg, rrh_read = [?t \<mapsto> kv]\<rparr>"
  show "ms_prepare (redb_ms ram_crate) ''scans'' [''items''] make_db = Ret (?db [])"
    by (simp add: ram_run Let_def fun_eq_iff)
  show "commit_entries (redb_ms ram_crate) ''scans'' ''items'' scan_entries (?db []) = Ret (?db scan_entries)"
    by (simp add: helpers redb_write_def redb_write_open_def prepared_table_name_def set_entries_redb
        entries_filled redb_close_def ram_crate_simps with_table_def table_or_empty_def)
  show "remove_and_commit (redb_ms ram_crate) ''scans'' ''items'' [1, 0] (?db scan_entries) = Ret (?db scan_entries_left)"
    by (simp add: helpers redb_write_def redb_write_open_def prepared_table_name_def redb_remove_def ram_edit_def
        edit_table_def opened_def entries_filled redb_close_def ram_crate_simps with_table_def table_or_empty_def)
  show "ms_read (redb_ms ram_crate) ''scans'' (?db scan_entries) = Ret (?rh scan_entries)"
    "ms_read (redb_ms ram_crate) ''scans'' (?db scan_entries_left) = Ret (?rh scan_entries_left)"
    by (simp_all add: redb_read_def ram_crate_simps)
  show "rh_open (redb_ms ram_crate) ''items'' (?rh scan_entries) = Ret scan_entries"
    "rh_open (redb_ms ram_crate) ''items'' (?rh scan_entries_left) = Ret scan_entries_left"
    by (simp_all add: redb_open_def prepared_table_name_def ram_crate_simps ram_open_def)
qed (use redb_range_cases in \<open>simp_all add: ram_crate_simps\<close>)

section \<open>The tests of the redb backend\<close>

definition test_table_names_are_hex_encoded :: bool where
  "test_table_names_are_hex_encoded \<longleftrightarrow> table_name ''users'' ''__main'' = ''7573657273:5f5f6d61696e''"

definition panics :: "('e, 'a) outcome \<Rightarrow> bool" where
  "panics x = (case x of Panicked \<Rightarrow> True | _ \<Rightarrow> False)"

definition succeeds :: "('e, 'a) outcome \<Rightarrow> bool" where
  "succeeds x = (case x of Ret a \<Rightarrow> True | _ \<Rightarrow> False)"

definition test_write_open_store_panics_for_unprepared_stores :: bool where
  "test_write_open_store_panics_for_unprepared_stores \<longleftrightarrow> passes
     (and_then (redb_prepare ram_crate ''users'' [''__main''] make_db) (\<lambda>db.
      and_then (redb_write ram_crate ''users'' db) (\<lambda>(tx, db).
      Ret (panics (redb_write_open ram_crate ''missing'' tx)))))"

definition test_prepare_replaces_namespace_registry_snapshot :: bool where
  "test_prepare_replaces_namespace_registry_snapshot \<longleftrightarrow> passes
     (and_then (redb_prepare ram_crate ''users'' [''old''] make_db) (\<lambda>db.
      and_then (redb_read ram_crate ''users'' db) (\<lambda>read_before.
      and_then (redb_prepare ram_crate ''users'' [''new''] db) (\<lambda>db.
      and_then (redb_read ram_crate ''users'' db) (\<lambda>read_after.
      Ret (succeeds (redb_open ram_crate ''old'' read_before) \<and> panics (redb_open ram_crate ''new'' read_before)
         \<and> panics (redb_open ram_crate ''old'' read_after) \<and> succeeds (redb_open ram_crate ''new'' read_after)))))))"

lemma passes_redb:
  "test_table_names_are_hex_encoded" "test_write_open_store_panics_for_unprepared_stores"
  "test_prepare_replaces_namespace_registry_snapshot"
  by code_simp+

section \<open>Errors and cursors\<close>

definition preserves_source :: "error \<Rightarrow> string \<Rightarrow> string \<Rightarrow> bool" where
  "preserves_source err text message \<longleftrightarrow>
     error_to_string err = text
   \<and> (case error_source err of
        None \<Rightarrow> False
      | Some e \<Rightarrow> std_message e = message \<and> map_option std_message (std_source e) = Some message)"

definition test_error_sources :: bool where
  "test_error_sources \<longleftrightarrow>
     preserves_source (error_codec (StdError ''bad bytes'' None)) ''serialization error: bad bytes'' ''bad bytes''
   \<and> preserves_source (error_backend (StdError ''disk said no'' None)) ''backend error: disk said no'' ''disk said no''"

definition test_cursors :: bool where
  "test_cursors \<longleftrightarrow>
     cursor_into_key_vec (cursor_from_key u64_key 42) = Some (encode u64_key 42)
   \<and> (let K = tuple2_key str_key u64_key; k = (as_bytes ''core'', 7) in
      cursor_into_key_vec (cursor_from_key K k) = Some (encode K k))
   \<and> cursor_into_key_vec NoCursor = None"

lemma passes_errors_and_cursors: "test_error_sources" "test_cursors"
  by code_simp+

end
