(* ===== verification/Spec2Isabelle.thy ===== *)
theory Spec2Isabelle
  imports Builders Concurrent Durability Registered Namespaces Redb_Threads
    Key_Vectors Scan_Vectors Collection_Vectors Backend_Vectors
begin

text \<open>
  \<^bold>\<open>Collette\<close> (\<open>src/src/\<close>) stores typed records with secondary indexes on an ordered key-value
  backend. A record has a primary key; a collection keeps the encoded record in the store
  \<open>__main\<close> under the encoded primary key, and for every registered index an entry from the
  record's store key to its primary key, all in one namespace of a backend and in one write
  transaction per method. A scan turns prefixes, ranges, a direction and a cursor into byte bounds
  on one store, and an iterator decodes what the store yields. So the library rests on three
  promises: the bytes of a key sort as the key does, a range of keys becomes the bytes of exactly
  those keys, and primary store and indexes change together. This development states and proves
  them of the code, from the bytes of a key to the records of a page.

  \<^bold>\<open>The parts.\<close> Each theory models one part of the source and imports the parts it calls.
  \<^item> \<open>Prelude\<close>: byte strings, the outcome of a fallible call (\<open>Ret\<close>, \<open>Fail\<close> for \<open>Err\<close>,
    \<open>Panicked\<close>, \<open>Hung\<close> for a lock nobody releases) and the strict byte-wise order.
  \<^item> \<open>Errors\<close>: \<open>error.rs\<close>. \<open>Ranges\<close> and \<open>BTree\<close>: \<open>Bound\<close>, \<open>RangeBounds\<close> and \<open>BTreeMap\<close> of the
    standard library, with the panics of \<open>BTreeMap::range\<close>.
  \<^item> \<open>Key_Core\<close>, \<open>Key_Int\<close>, \<open>Key_Var\<close>, \<open>Key_Tuple\<close>: \<open>key.rs\<close> and \<open>macros.rs\<close>. An implementation of
    \<open>Key\<close> is a record of its \<open>SIZE\<close>, \<open>encode\<close> and \<open>decode_part\<close>; the locale \<open>lawful_key\<close> is the
    contract (round trip, rest handed back, order of the bytes), interpreted on the key
    types of the code; strings keep the order \<open>str_below\<close> of their bytes, not that of the strings.
  \<^item> \<open>Key_Prefix\<close>, \<open>Bounds\<close>: \<open>prefix.rs\<close> and \<open>bounds.rs\<close>, the successor of a byte prefix and the two
    encoders of ranges.
  \<^item> \<open>Store\<close>: \<open>store.rs\<close>. A backend is a record of its operations; \<open>ref_ms\<close> is the reference
    backend and the locale \<open>lawful_multistore\<close> the contract: every call does on the abstraction of
    its state what the reference does, or fails with an error of its own and publishes nothing.
    \<open>volatile_multistore\<close> extends it for backends that forget a store that is not prepared.
  \<^item> \<open>Index\<close>, \<open>Index_Content\<close>, \<open>Collection\<close>, \<open>Collection_Spec\<close>: \<open>item.rs\<close>, \<open>index.rs\<close>,
    \<open>index_registry.rs\<close> and \<open>collection.rs\<close>. The type-level list of indexes is a list of \<open>any_index\<close>.
    A collection is specified by a finite table from primary keys to records (\<open>spec_insert\<close> and
    its siblings); \<open>coll_repr\<close> relates a table to the bytes of the stores.
  \<^item> \<open>Memory\<close>, \<open>Gate\<close>, \<open>Locks\<close>: \<open>backend/memory.rs\<close>, its operations one after the other; the writer
    gate with its threads as a step relation over program counters, one step per access to the
    mutex, the flag or the published stores; and all calls of \<open>prepare\<close>, \<open>read\<close> and \<open>write\<close> on one
    namespace, with the \<open>RwLock\<close> around the map of namespaces. \<open>Namespaces\<close> has any number of
    namespaces, created on the way, that share this lock, and refines what happens on each of them to
    the system of one. \<open>Concurrent\<close> runs the methods of a collection by threads on top of \<open>Locks\<close>.
  \<^item> \<open>Redb\<close>, \<open>Redb_Spec\<close>, \<open>Redb_Threads\<close>: \<open>backend/redb.rs\<close> over a parameter for the redb crate,
    whose documented behaviour is the locale \<open>redb_backend\<close>; from it follows the storage contract.
    \<open>Redb_Threads\<close> has the calls of many threads, with the \<open>RwLock\<close> around the registry of prepared
    tables, in the locale \<open>redb_threads\<close> that adds that reading does not wait for the writer.
  \<^item> \<open>Effects\<close>: the methods of \<open>collection.rs\<close> once more, as effects on a state that keeps what was
    called before a failure, over any implementation of \<open>IndexRegistry\<close> and \<open>Index\<close>; with the
    default indexes they are those of \<open>Collection\<close> on every backend.
  \<^item> \<open>Scan\<close>, \<open>Builders\<close>, \<open>Scan_Spec\<close>, \<open>Scan_Results\<close>, \<open>Pages\<close>, \<open>Scan_Backends\<close>: \<open>scan.rs\<close> and
    \<open>iter.rs\<close>, the builders and their methods, \<open>compile\<close>, the executors and iterators, the records
    they yield, the pagination loop of a client, and any chain on any backend.
  \<^item> \<open>Registered\<close>: the proof search of \<open>ContainsIndex\<close> in \<open>index_registry.rs\<close>, against the stores
    that the builder prepares. \<open>Mock\<close>: \<open>testing.rs\<close>, the logging backend of the tests.
    \<open>Key_Vectors\<close>, \<open>Scan_Vectors\<close>, \<open>Collection_Vectors\<close>, \<open>Backend_Vectors\<close>: the unit tests of the
    files under \<open>src/src/\<close>, the contract tests of \<open>backend/tests.rs\<close> on both backends included, as
    booleans that the model evaluates to true; they check the definitions, panics and error paths
    included, against what the crate's authors wrote down.
  \<^item> \<open>Memory_Collection\<close>, \<open>Example\<close>, \<open>History\<close>, \<open>Durability\<close>: collections on the in-memory backend,
    a small application on which the properties are run, sequences of calls on any backend, and
    the two backends compared.

  \<^bold>\<open>What the lemmas show.\<close> Of keys: round trips, prefix freeness and order, by type, and the two
  families that break the order (strings, enums with negative discriminants). Of bounds: a byte
  range holds a store key exactly when its logical key is in the range, except for an exclusive
  start of only \<open>0xff\<close> bytes with the prefix encoder, which is lost; and which ranges are malformed,
  on which the in-memory backend panics. Of a backend: the contract, for memory and for
  redb. Of the threads on the in-memory backend: mutual exclusion at the gate, snapshot
  isolation, no lost update, no lost wake-up and no deadlock, as long as \<open>prepare\<close> stays out of
  the way, and what goes wrong when it does not; namespaces do not see each other; and the methods
  of a collection, called by many threads, are linearizable. Of the threads on the redb backend:
  the registry is never ahead of a snapshot, the calls settle, and the one deadlock they can run
  into. Of a collection: every method does what its specification says on every branch, errors
  included, with the indexes in step; and whatever an application's own indexes do with the
  handle, a method that fails publishes nothing. Of scans: exactly the records asked for, in order, without repetition, resumed
  after any cursor without a gap, for every chain of builder calls that type checks, in memory
  and, up to storage errors, on any backend; and a loop that takes page after page ends with all
  of them.

  \<^bold>\<open>Bounds and termination.\<close> There is no fuel: the loops of the code are structural
  (\<open>prefix_end_loop\<close> counts its index down, the registry and the escaping codec run along a list)
  or have a measure (the index of the escape decoder, the items an iterator has left). The only
  waits are on locks: sequentially a second writer is \<open>Hung\<close>, in \<open>Gate\<close> a bound on the steps of
  the gate shows that a waiting thread is overtaken only by one that gets the handle, and in
  \<open>Locks\<close> and \<open>Redb_Threads\<close> a bound on the steps of all calls shows that they settle. The pagination loop is a
  partial function that is proved to return.
  Machine integers are words of their width; \<open>usize\<close> lengths are natural numbers.

  \<^bold>\<open>What is not modelled.\<close> The codecs of records (\<open>to_bytes\<close>, \<open>from_bytes\<close>) and \<open>Debug\<close> texts are
  fields of \<open>item\<close>, which the application supplies; a codec is assumed to read back what it
  wrote. The redb crate and its files, of which the locale \<open>redb_backend\<close> assumes what is documented
  and, where the documentation is silent, that a failed \<open>commit\<close> changes nothing, and \<open>Durability\<close> that a
  file opened again has the tables it had; the unsafe lifetime cast; memory exhaustion and poisoned
  locks; the example application of \<open>tests/\<close>; the re-exports of \<open>lib.rs\<close> and the small-vector type,
  which is a byte string here. Of an index that overrides \<open>Index::update\<close> or \<open>Index::remove\<close> only
  the atomicity of \<open>Effects\<close> is shown, not what its entries mean.
\<close>

section \<open>Collections in memory\<close>

text \<open>C1: \<open>Collection::insert\<close> on the in-memory backend. From a database that holds a table of records,
  it fails with \<open>AlreadyExists\<close> for a key that is present, with the codec's error, or with
  \<open>AlreadyExists\<close> of the first index whose key another record has, and then the database is
  unchanged; otherwise it returns \<open>Ok\<close> and the database holds the table with the record, every
  index included, and no other namespace has changed.\<close>

theorem insert_correct:
  assumes "lawful_item R lt pk_valid rec_ok" "registry_ok R rec_ok T" "rec_ok r"
    and "memory_holds R rec_ok T nm tbl db"
  shows "memory_result R rec_ok T nm db (spec_insert R T r tbl) (collection_insert memory_ms R T nm r db)"
  using lawful_item.memory_insert [OF assms(1) assms(4) assms(2,3)] .

theorem insert_correct_witness:
  "tasks_hold both_tasks
     (snd (collection_insert memory_ms task_item task_registry ''tasks'' task_b one_task))"
  using insert_correct [OF tasks.lawful_item_axioms task_registry_ok _ one_task_holds, of task_b]
  by (simp add: memory_result_def insert_b_spec)

text \<open>C2: \<open>Collection::update\<close>: \<open>NotFound\<close> for a key that is absent, otherwise as for \<open>insert\<close>: the old
  record's index entries are replaced, and an index key of another record is refused with
  \<open>AlreadyExists\<close> and no change at all.\<close>

theorem update_correct:
  assumes "lawful_item R lt pk_valid rec_ok" "registry_ok R rec_ok T" "rec_ok r"
    and "memory_holds R rec_ok T nm tbl db"
  shows "memory_result R rec_ok T nm db (spec_update R T r tbl) (collection_update memory_ms R T nm r db)"
  using lawful_item.memory_update [OF assms(1) assms(4) assms(2,3)] .

theorem update_correct_witness:
  "collection_update memory_ms task_item task_registry ''tasks'' (task_b\<lparr>task_slot := 7\<rparr>) two_tasks =
     (Fail (AlreadyExists (decimal 7)), two_tasks)"
  using update_correct [OF tasks.lawful_item_axioms task_registry_ok _ two_tasks_hold,
      of "task_b\<lparr>task_slot := 7\<rparr>"]
  by (simp add: memory_result_def update_taken_spec)

text \<open>C3: \<open>Collection::save\<close> inserts or updates: whether the key is present or not the outcome is that of
  replacing the record in the table, with every index in step, or an error and no change.\<close>

theorem save_correct:
  assumes "lawful_item R lt pk_valid rec_ok" "registry_ok R rec_ok T" "rec_ok r"
    and "memory_holds R rec_ok T nm tbl db"
  shows "memory_result R rec_ok T nm db (spec_save R T r tbl) (collection_save memory_ms R T nm r db)"
  using lawful_item.memory_save [OF assms(1) assms(4) assms(2,3)] .

theorem save_correct_witness:
  "tasks_hold (both_tasks(1 \<mapsto> task_a\<lparr>task_slot := 8\<rparr>))
     (snd (collection_save memory_ms task_item task_registry ''tasks'' (task_a\<lparr>task_slot := 8\<rparr>) two_tasks))"
  using save_correct [OF tasks.lawful_item_axioms task_registry_ok _ two_tasks_hold,
      of "task_a\<lparr>task_slot := 8\<rparr>"]
  by (simp add: memory_result_def save_free_spec)

text \<open>C4: \<open>Collection::remove\<close> returns \<open>Ok\<close> whether the key is present or not, and afterwards the database
  holds the table without it, its index entries removed as well.\<close>

theorem remove_correct:
  assumes "lawful_item R lt pk_valid rec_ok" "registry_ok R rec_ok T" "pk_valid pk"
    and "memory_holds R rec_ok T nm tbl db"
  shows "memory_result R rec_ok T nm db (spec_remove pk tbl) (collection_remove memory_ms R T nm pk db)"
  using lawful_item.memory_remove_row [OF assms(1) assms(4) assms(2,3)] .

theorem remove_correct_witness:
  "tasks_hold (both_tasks(1 := None))
     (snd (collection_remove memory_ms task_item task_registry ''tasks'' 1 two_tasks))"
  using remove_correct [OF tasks.lawful_item_axioms task_registry_ok _ two_tasks_hold, of 1]
  by (simp add: memory_result_def spec_remove_def)

text \<open>C5: \<open>Collection::get\<close> returns the record of the table, decoded, or \<open>None\<close>.\<close>

theorem get_correct:
  assumes "lawful_item R lt pk_valid rec_ok" "memory_holds R rec_ok T nm tbl db" "pk_valid pk"
  shows "collection_get memory_ms R nm pk db = Ret (tbl pk)"
  using lawful_item.memory_get_row [OF assms] .

theorem get_correct_witness:
  "collection_get memory_ms task_item ''tasks'' 2 two_tasks = Ret (Some task_b) \<and>
   collection_get memory_ms task_item ''tasks'' 3 two_tasks = Ret None"
  using get_correct [OF tasks.lawful_item_axioms two_tasks_hold, of 2]
    get_correct [OF tasks.lawful_item_axioms two_tasks_hold, of 3] by simp

text \<open>C14: Building a collection on a fresh namespace prepares an empty table, and building it again on a
  namespace that holds its table keeps that table; other namespaces are not touched.\<close>

theorem build_prepares:
  assumes "memory_inv db" "db nm = None \<and> tbl = (\<lambda>_. None) \<or> memory_holds R rec_ok T nm tbl db"
  shows "\<exists>db'. build memory_ms \<lparr>builder_name = nm, builder_db = db, builder_indexes = T\<rparr> = Ret db' \<and>
           memory_holds R rec_ok T nm tbl db' \<and> (\<forall>m. m \<noteq> nm \<longrightarrow> db' m = db m)"
  using assms memory_new_holds [OF assms(1), of nm T] memory_new_reopens [of R rec_ok T nm tbl db]
  by (auto simp: build_def)

theorem build_prepares_witness:
  "\<exists>db. build memory_ms \<lparr>builder_name = ''tasks'', builder_db = two_tasks, builder_indexes = task_registry\<rparr>
          = Ret db \<and> tasks_hold both_tasks db"
proof -
  have "memory_inv two_tasks" using two_tasks_hold by (simp add: memory_holds_def)
  then show ?thesis
    using build_prepares [of two_tasks "''tasks''" "both_tasks" task_item "\<lambda>_. True" task_registry]
      two_tasks_hold by blast
qed

section \<open>Scans in memory\<close>

text \<open>C6: Scanning an index, unique or \<open>Multi\<close>, over a range of its valid keys, in either direction, where
  an exclusive start of a \<open>Multi\<close> index is not a key whose bytes are all \<open>0xff\<close>. If the range is
  encoded to a malformed range of bytes the scan panics. Otherwise it yields without an error
  exactly the records of the table whose index key is in the range, each once, in the order of
  their store keys or its reverse, each with the cursor of the record.\<close>

theorem index_range_scan:
  assumes "lawful_item R lt pk_valid rec_ok" "memory_holds R rec_ok T nm tbl db"
    and X: "index_of R rec_ok T ltk ik_valid X"
    and r: "bound_valid ik_valid (fst r) \<and> bound_valid ik_valid (snd r)"
    and suc: "bounds_encoder (kind X) = PrefixEncoder \<Longrightarrow> start_has_successor (index_key_key X) (fst r)"
  shows "\<exists>sc. collection_index_scan memory_ms nm X db = Ret sc \<and>
           (let run = scan_iter memory_ms Xp
              (scan_direction d (scan_in_range (bounds_encoder (kind X)) (index_key_key X) r sc))
            in if range_panics (encode_range (bounds_encoder (kind X)) (index_key_key X) r) then run = Panicked
               else \<exists>it rs. run = Ret it \<and> scan_collect memory_ms R it = index_entries R X rs \<and>
                  rows (index_store_key R (erase_index X)) d (\<lambda>x. contains ltk r (index_key X x)) tbl rs)"
proof (rule memory_holdsD [OF assms(2)])
  fix S assume S: "memory_inv db" "memory_abs db nm = Some S" "coll_repr R rec_ok T tbl S"
  let ?rg = "encode_range (bounds_encoder (kind X)) (index_key_key X) r"
  let ?sc = "scan_direction d (scan_in_range (bounds_encoder (kind X)) (index_key_key X) r
               (index_scan_new (index_name X) S MAIN_STORE))"
  let ?c = "\<lparr>cs_executor = IndexExecutor (index_name X) MAIN_STORE S, cs_range = ?rg, cs_direction = d\<rparr>"
  have c: "compile Xp ?sc = Ret ?c"
    by (simp add: scan_direction_def scan_in_range_def index_scan_new_def)
  have base: "scan_base ?sc = IndexExecutor (index_name X) MAIN_STORE S"
    by (simp add: scan_direction_def scan_in_range_def index_scan_new_def)
  have sel: "contains (<) ?rg (index_store_key R (erase_index X) x) = contains ltk r (index_key X x)"
    if "tbl pk = Some x" for pk x
    by (rule lawful_item.index_range_iff [OF assms(1)])
      (use X r suc table_okD [OF coll_repr_table [OF S(3)] that] in \<open>auto simp: index_of_def\<close>)
  show ?thesis
  proof (cases "range_panics ?rg")
    case True
    then have "scan_iter memory_ms Xp ?sc = Panicked"
      using lawful_item.memory_index_panics [OF assms(1) S(3) X c base] by simp
    with True show ?thesis
      by (intro exI [of _ "index_scan_new (index_name X) S MAIN_STORE"]) (simp add: memory_index_scan [OF S(2)])
  next
    case False
    obtain it rs where it: "scan_iter memory_ms Xp ?sc = Ret it" "scan_collect memory_ms R it = index_entries R X rs"
        "rows (index_store_key R (erase_index X)) d
           (\<lambda>x. contains (<) ?rg (index_store_key R (erase_index X) x)) tbl rs"
      using lawful_item.memory_index_rows [OF assms(1) S(3) X c base] False by auto
    have "rows (index_store_key R (erase_index X)) d (\<lambda>x. contains ltk r (index_key X x)) tbl rs"
      by (rule rows_cong [THEN iffD1, OF sel it(3)])
    with False it(1,2) show ?thesis
      by (intro exI [of _ "index_scan_new (index_name X) S MAIN_STORE"]) (auto simp: memory_index_scan [OF S(2)])
  qed
qed

theorem index_range_scan_witness:
  "\<exists>sc it. collection_index_scan memory_ms ''tasks'' by_slot two_tasks = Ret sc \<and>
     scan_iter memory_ms (prefix2 u8_key u8_key)
       (scan_direction RightToLeft (scan_in_range ExactEncoder u8_key (Included 8, Unbounded) sc)) = Ret it \<and>
     scan_collect memory_ms task_item it = index_entries task_item by_slot [task_b]"
proof -
  have enc: "bounds_encoder (kind by_slot) = ExactEncoder" "index_key_key by_slot = u8_key"
    by (simp_all add: by_slot_def unique_kind_def)
  obtain sc it rs where w: "collection_index_scan memory_ms ''tasks'' by_slot two_tasks = Ret sc"
      "scan_iter memory_ms (prefix2 u8_key u8_key)
         (scan_direction RightToLeft (scan_in_range ExactEncoder u8_key (Included 8, Unbounded) sc)) = Ret it"
      "scan_collect memory_ms task_item it = index_entries task_item by_slot rs"
      "rows (index_store_key task_item (erase_index by_slot)) RightToLeft
         (\<lambda>x. contains (<) (Included 8, Unbounded) (index_key by_slot x)) both_tasks rs"
    using index_range_scan [OF tasks.lawful_item_axioms two_tasks_hold by_slot_of,
        of "(Included 8, Unbounded)" "prefix2 u8_key u8_key" RightToLeft]
    unfolding enc by (auto simp: encode_range_def Let_def simp del: contains.simps)
  moreover have "rows (index_store_key task_item (erase_index by_slot)) RightToLeft
      (\<lambda>x. contains (<) (Included 8, Unbounded) (index_key by_slot x)) both_tasks [task_b]"
    unfolding both_tasks_rows by (auto simp: ordered_def by_slot_def task_a_def task_b_def)
  ultimately show ?thesis using rows_unique by blast
qed

text \<open>C26: Scanning a collection over a range of primary keys, in either direction. If the range is
  malformed, its start behind its end or both excluded at the same key, the scan panics. Otherwise
  it yields without an error exactly the records of the table whose primary key is in the range,
  each once, in the order of their encoded keys or its reverse, each with the cursor of the record.\<close>

theorem collection_range_scan:
  assumes "lawful_item R lt pk_valid rec_ok" "memory_holds R rec_ok T nm tbl db"
    and r: "bound_valid pk_valid (fst r)" "bound_valid pk_valid (snd r)"
  shows "\<exists>sc. collection_scan memory_ms nm db = Ret sc \<and>
           (let run = scan_iter memory_ms Xp (scan_direction d (scan_in_range ExactEncoder (pk_key R) r sc))
            in if malformed lt r then run = Panicked
               else \<exists>it rs. run = Ret it \<and> scan_collect memory_ms R it = main_entries R rs \<and>
                  rows (main_store_key R) d (\<lambda>x. contains lt r (item_key R x)) tbl rs)"
proof (rule memory_holdsD [OF assms(2)])
  fix S assume S: "memory_inv db" "memory_abs db nm = Some S" "coll_repr R rec_ok T tbl S"
  let ?rg = "encode_range ExactEncoder (pk_key R) r"
  let ?sc = "scan_direction d (scan_in_range ExactEncoder (pk_key R) r (collection_scan_new S MAIN_STORE))"
  let ?c = "\<lparr>cs_executor = CollectionExecutor MAIN_STORE S, cs_range = ?rg, cs_direction = d\<rparr>"
  have c: "compile Xp ?sc = Ret ?c" and base: "scan_base ?sc = CollectionExecutor MAIN_STORE S"
    by (simp_all add: scan_direction_def scan_in_range_def collection_scan_new_def)
  have mal: "range_panics ?rg \<longleftrightarrow> malformed lt r"
    using lawful_item.pk_range_panics [OF assms(1) r] .
  show ?thesis
  proof (cases "malformed lt r")
    case True
    then have "scan_iter memory_ms Xp ?sc = Panicked"
      using lawful_item.memory_main_panics [OF assms(1) S(3) c base] mal by simp
    with True show ?thesis
      by (intro exI [of _ "collection_scan_new S MAIN_STORE"]) (simp add: memory_collection_scan [OF S(2)])
  next
    case False
    obtain it rs where it: "scan_iter memory_ms Xp ?sc = Ret it" "scan_collect memory_ms R it = main_entries R rs"
        "rows (main_store_key R) d (\<lambda>x. contains (<) ?rg (main_store_key R x)) tbl rs"
      using lawful_item.memory_main_rows [OF assms(1) S(3) c base] False mal by auto
    have "rows (main_store_key R) d (\<lambda>x. contains lt r (item_key R x)) tbl rs"
      using lawful_item.main_range_iff [OF assms(1) coll_repr_table [OF S(3)] _ r]
      by (rule rows_cong [THEN iffD1, OF _ it(3)])
    with False it(1,2) show ?thesis
      by (intro exI [of _ "collection_scan_new S MAIN_STORE"]) (auto simp: memory_collection_scan [OF S(2)])
  qed
qed

theorem collection_range_scan_witness:
  "\<exists>sc it. collection_scan memory_ms ''tasks'' two_tasks = Ret sc \<and>
     scan_iter memory_ms (prefix2 u8_key u8_key)
       (scan_direction RightToLeft (scan_in_range ExactEncoder u64_key (Unbounded, Excluded 2) sc)) = Ret it \<and>
     scan_collect memory_ms task_item it = main_entries task_item [task_a]"
proof -
  have key: "pk_key task_item = u64_key" by (simp add: task_item_def)
  obtain sc it rs where w: "collection_scan memory_ms ''tasks'' two_tasks = Ret sc"
      "scan_iter memory_ms (prefix2 u8_key u8_key)
         (scan_direction RightToLeft (scan_in_range ExactEncoder u64_key (Unbounded, Excluded 2) sc)) = Ret it"
      "scan_collect memory_ms task_item it = main_entries task_item rs"
      "rows (main_store_key task_item) RightToLeft
         (\<lambda>x. contains (<) (Unbounded, Excluded 2) (item_key task_item x)) both_tasks rs"
    using collection_range_scan [OF tasks.lawful_item_axioms two_tasks_hold,
        of "(Unbounded, Excluded 2)" "prefix2 u8_key u8_key" RightToLeft]
    unfolding key by (auto simp: Let_def simp del: contains.simps)
  moreover have "rows (main_store_key task_item) RightToLeft
      (\<lambda>x. contains (<) (Unbounded, Excluded 2) (item_key task_item x)) both_tasks [task_a]"
    unfolding both_tasks_rows by (auto simp: ordered_def task_item_def task_a_def task_b_def)
  ultimately show ?thesis using rows_unique by blast
qed

text \<open>C7: Scanning an index under a valid typed prefix with a range over valid rests of the key, where an
  exclusive start of a \<open>Multi\<close> index, completed by the prefix, is not a key whose bytes are all
  \<open>0xff\<close>. If prefix and range are encoded to a malformed range of bytes, which does not happen for the
  unbounded range, the scan panics. Otherwise it yields exactly the records whose index key has
  that prefix and a rest in the range, in the order of their store keys.\<close>

theorem index_prefix_scan:
  assumes "lawful_item R lt pk_valid rec_ok" "memory_holds R rec_ok T nm tbl db"
    and X: "index_of R rec_ok T ltk ik_valid X"
    and P: "prefixable (index_key_key X) ltk ik_valid Xp ltp vp lts vs" and p: "vp p"
    and r: "bound_valid vs (fst r) \<and> bound_valid vs (snd r)"
    and suc: "bounds_encoder (kind X) = PrefixEncoder \<Longrightarrow>
      start_has_successor (index_key_key X) (map_bound (compose Xp p) (fst r))"
  shows "(r = (Unbounded, Unbounded) \<longrightarrow>
            \<not> range_panics (encode_prefixed_range (bounds_encoder (kind X)) (index_key_key X) Xp p r)) \<and>
         (\<exists>sc. collection_index_scan memory_ms nm X db = Ret sc \<and>
           (let run = scan_iter memory_ms Xp
              (scan_in_prefixed_range (bounds_encoder (kind X)) (index_key_key X) Xp p r sc)
            in if range_panics (encode_prefixed_range (bounds_encoder (kind X)) (index_key_key X) Xp p r)
               then run = Panicked
               else \<exists>it rs. run = Ret it \<and> scan_collect memory_ms R it = index_entries R X rs \<and>
                  rows (index_store_key R (erase_index X)) LeftToRight
                    (\<lambda>x. \<exists>s. vs s \<and> index_key X x = compose Xp p s \<and> contains lts r s) tbl rs))"
proof (rule memory_holdsD [OF assms(2)])
  fix S assume S: "memory_inv db" "memory_abs db nm = Some S" "coll_repr R rec_ok T tbl S"
  let ?rg = "encode_prefixed_range (bounds_encoder (kind X)) (index_key_key X) Xp p r"
  let ?sc = "scan_in_prefixed_range (bounds_encoder (kind X)) (index_key_key X) Xp p r
               (index_scan_new (index_name X) S MAIN_STORE)"
  let ?c = "\<lparr>cs_executor = IndexExecutor (index_name X) MAIN_STORE S, cs_range = ?rg,
             cs_direction = LeftToRight\<rparr>"
  have c: "compile Xp ?sc = Ret ?c"
    by (simp add: scan_in_prefixed_range_def index_scan_new_def)
  have base: "scan_base ?sc = IndexExecutor (index_name X) MAIN_STORE S"
    by (simp add: scan_in_prefixed_range_def index_scan_new_def)
  have sel: "contains (<) ?rg (index_store_key R (erase_index X) x) =
      (\<exists>s. vs s \<and> index_key X x = compose Xp p s \<and> contains lts r s)" if "tbl pk = Some x" for pk x
    by (rule lawful_item.index_prefixed_range_iff [OF assms(1) P])
      (use X p r suc table_okD [OF coll_repr_table [OF S(3)] that] in \<open>auto simp: index_of_def\<close>)
  have whole: "\<not> range_panics ?rg" if "r = (Unbounded, Unbounded)"
    using that unrefined_prefix_no_panic by simp
  show ?thesis
  proof (cases "range_panics ?rg")
    case True
    then have "scan_iter memory_ms Xp ?sc = Panicked"
      using lawful_item.memory_index_panics [OF assms(1) S(3) X c base] by simp
    with True whole show ?thesis
      by (intro conjI impI exI [of _ "index_scan_new (index_name X) S MAIN_STORE"]) (auto simp: memory_index_scan [OF S(2)])
  next
    case False
    obtain it rs where it: "scan_iter memory_ms Xp ?sc = Ret it" "scan_collect memory_ms R it = index_entries R X rs"
        "rows (index_store_key R (erase_index X)) LeftToRight
           (\<lambda>x. contains (<) ?rg (index_store_key R (erase_index X) x)) tbl rs"
      using lawful_item.memory_index_rows [OF assms(1) S(3) X c base] False by auto
    have "rows (index_store_key R (erase_index X)) LeftToRight
        (\<lambda>x. \<exists>s. vs s \<and> index_key X x = compose Xp p s \<and> contains lts r s) tbl rs"
      by (rule rows_cong [THEN iffD1, OF sel it(3)])
    with False it(1,2) show ?thesis
      by (intro conjI impI exI [of _ "index_scan_new (index_name X) S MAIN_STORE"]) (auto simp: memory_index_scan [OF S(2)])
  qed
qed

theorem index_prefix_scan_witness:
  "\<exists>sc it. collection_index_scan memory_ms ''tasks'' by_board two_tasks = Ret sc \<and>
     scan_iter memory_ms (prefix2 u8_key u8_key)
       (scan_in_prefixed_range PrefixEncoder (tuple2_key u8_key u8_key) (prefix2 u8_key u8_key) 0
          (Unbounded, Excluded 9) sc) = Ret it \<and>
     scan_collect memory_ms task_item it = index_entries task_item by_board [task_a]"
proof -
  let ?P = "\<lambda>x. \<exists>s. True \<and> index_key by_board x = compose (prefix2 u8_key u8_key) 0 s \<and>
              contains (<) (Unbounded, Excluded 9) s"
  have enc: "bounds_encoder (kind by_board) = PrefixEncoder"
    "index_key_key by_board = tuple2_key u8_key u8_key"
    by (simp_all add: by_board_def multi_kind_def)
  have "\<not> range_panics (encode_prefixed_range PrefixEncoder (tuple2_key u8_key u8_key)
           (prefix2 u8_key u8_key) 0 (Unbounded, Excluded 9))"
    by (simp add: encode_prefixed_range_def encode_prefix_range_def encode_prefix_def Let_def prefix2_def
        u8_key_def unsigned_key_def size_of_def)
  then obtain sc it rs where w: "collection_index_scan memory_ms ''tasks'' by_board two_tasks = Ret sc"
      "scan_iter memory_ms (prefix2 u8_key u8_key)
         (scan_in_prefixed_range PrefixEncoder (tuple2_key u8_key u8_key) (prefix2 u8_key u8_key) 0
            (Unbounded, Excluded 9) sc) = Ret it"
      "scan_collect memory_ms task_item it = index_entries task_item by_board rs"
      "rows (index_store_key task_item (erase_index by_board)) LeftToRight ?P both_tasks rs"
    using index_prefix_scan [OF tasks.lawful_item_axioms two_tasks_hold by_board_of by_board_prefixable,
        where p = 0 and r = "(Unbounded, Excluded 9)"]
    unfolding enc by (auto simp: Let_def simp del: contains.simps)
  moreover have "rows (index_store_key task_item (erase_index by_board)) LeftToRight ?P
      both_tasks [task_a]"
    unfolding both_tasks_rows by (auto simp: ordered_def by_board_def prefix2_def task_a_def task_b_def)
  ultimately show ?thesis using rows_unique by blast
qed

text \<open>A scan of an index with one range, from the range of bytes on.\<close>

lemma ranged_index_scan:
  assumes "lawful_item R lt pk_valid rec_ok" "coll_repr R rec_ok T tbl S" "index_of R rec_ok T ltk ik_valid X"
    and "compile Xp sc = Ret \<lparr>cs_executor = IndexExecutor (index_name X) MAIN_STORE S, cs_range = rg, cs_direction = d\<rparr>"
  shows "if range_panics rg then scan_iter memory_ms Xp sc = Panicked
         else \<exists>it rs. scan_iter memory_ms Xp sc = Ret it \<and> scan_collect memory_ms R it = index_entries R X rs \<and>
            rows (index_store_key R (erase_index X)) d (\<lambda>x. contains (<) rg (index_store_key R (erase_index X) x)) tbl rs"
  using lawful_item.memory_index_panics [OF assms] lawful_item.memory_index_rows [OF assms]
    compile_executor [OF assms(4)] by auto

text \<open>C25: Three kinds of ranges of a \<open>Multi\<close> index that the prefix encoder does not turn into the bytes
  of their keys, on the in-memory backend. Behind a key whose bytes are all \<open>0xff\<close>, excluded, there
  is no key, but the scan drops the start and yields every record that the end admits. Between
  two keys of which the second is encoded as the end of the prefix range of the first, both
  excluded, there is no key, and the scan panics instead of yielding nothing. Under a prefix not all
  of whose bytes are \<open>0xff\<close>, behind a suffix whose bytes all are, excluded, there is no key, and
  the scan panics.\<close>

theorem prefix_encoder_gaps:
  assumes "lawful_item R lt pk_valid rec_ok" "memory_holds R rec_ok T nm tbl db"
    and X: "index_of R rec_ok T ltk ik_valid X" and enc: "bounds_encoder (kind X) = PrefixEncoder"
    and P: "prefixable (index_key_key X) ltk ik_valid Xp ltp vp lts vs"
    and sc: "collection_index_scan memory_ms nm X db = Ret sc"
  shows "(ik_valid last_key \<and> bound_valid ik_valid e \<and> all_ff (encode (index_key_key X) last_key) \<longrightarrow>
            (\<nexists>k. ik_valid k \<and> contains ltk (Excluded last_key, e) k) \<and>
            (\<exists>it rs. scan_iter memory_ms Xp (scan_in_range PrefixEncoder (index_key_key X) (Excluded last_key, e) sc) = Ret it \<and>
               scan_collect memory_ms R it = index_entries R X rs \<and>
               rows (index_store_key R (erase_index X)) LeftToRight (\<lambda>x. end_ok ltk e (index_key X x)) tbl rs)) \<and>
         (ik_valid a \<and> ik_valid b \<and>
            prefix_end (encode (index_key_key X) a) = Excluded (encode (index_key_key X) b) \<longrightarrow>
            (\<nexists>k. ik_valid k \<and> contains ltk (Excluded a, Excluded b) k) \<and>
            scan_iter memory_ms Xp
              (scan_in_range PrefixEncoder (index_key_key X) (Excluded a, Excluded b) sc) = Panicked) \<and>
         (vp p \<and> vs s \<and> \<not> all_ff (encode (prefix_key Xp) p) \<and> all_ff (encode (suffix_key Xp) s) \<longrightarrow>
            (\<nexists>t. vs t \<and> contains lts (Excluded s, Unbounded) t) \<and>
            scan_iter memory_ms Xp
              (scan_in_prefixed_range PrefixEncoder (index_key_key X) Xp p (Excluded s, Unbounded) sc) = Panicked)"
proof (rule memory_holdsD [OF assms(2)])
  fix S assume S: "memory_inv db" "memory_abs db nm = Some S" "coll_repr R rec_ok T tbl S"
  let ?K = "index_key_key X" and ?sk = "index_store_key R (erase_index X)"
  have K: "lawful_key ?K ltk ik_valid" and suffix: "lawful_key (suffix_key Xp) lts vs"
    using X P by (simp_all add: index_of_def prefixable_def)
  have sc: "sc = index_scan_new (index_name X) S MAIN_STORE"
    using sc by (simp add: memory_index_scan [OF S(2)])
  note run = ranged_index_scan [OF assms(1) S(3) X]
  have "\<exists>it rs. scan_iter memory_ms Xp (scan_in_range PrefixEncoder ?K (Excluded last_key, e) sc) = Ret it \<and>
         scan_collect memory_ms R it = index_entries R X rs \<and>
         rows ?sk LeftToRight (\<lambda>x. end_ok ltk e (index_key X x)) tbl rs"
    if e: "bound_valid ik_valid e" and last_key: "all_ff (encode ?K last_key)"
  proof -
    let ?rg = "encode_range PrefixEncoder ?K (Unbounded, e)"
    have no_panic: "\<not> range_panics ?rg" by (simp add: encode_range_def)
    have sel: "contains (<) ?rg (?sk x) = end_ok ltk e (index_key X x)" if "tbl pk = Some x" for pk x
      using lawful_item.index_range_iff [OF assms(1) K, of x "(Unbounded, e)"] X e
        table_okD [OF coll_repr_table [OF S(3)] that] enc by (auto simp: index_of_def)
    obtain it rs where it: "scan_iter memory_ms Xp (scan_in_range PrefixEncoder ?K (Excluded last_key, e) sc) = Ret it"
        "scan_collect memory_ms R it = index_entries R X rs"
        "rows ?sk LeftToRight (\<lambda>x. contains (<) ?rg (?sk x)) tbl rs"
      using run [of Xp "scan_in_range PrefixEncoder ?K (Excluded last_key, e) sc" ?rg LeftToRight] no_panic last_key
      by (auto simp: sc scan_in_range_def index_scan_new_def prefix_encoder_loses_start all_ff_iff)
    have "rows ?sk LeftToRight (\<lambda>x. end_ok ltk e (index_key X x)) tbl rs"
      by (rule rows_cong [THEN iffD1, OF sel it(3)])
    then show ?thesis using it(1,2) by blast
  qed
  moreover have "scan_iter memory_ms Xp (scan_in_range PrefixEncoder ?K (Excluded a, Excluded b) sc) = Panicked"
    if "prefix_end (encode ?K a) = Excluded (encode ?K b)"
    using prefix_encoder_neighbours [OF that] run [of Xp "scan_in_range PrefixEncoder ?K (Excluded a, Excluded b) sc"]
    by (simp add: sc scan_in_range_def index_scan_new_def)
  moreover have "scan_iter memory_ms Xp (scan_in_prefixed_range PrefixEncoder ?K Xp p (Excluded s, Unbounded) sc) = Panicked"
    if "\<not> all_ff (encode (prefix_key Xp) p)" "all_ff (encode (suffix_key Xp) s)"
    using prefix_encoder_last_suffix [OF prefixable.encode_compose [OF P], of s p] that
      run [of Xp "scan_in_prefixed_range PrefixEncoder ?K Xp p (Excluded s, Unbounded) sc"]
    by (simp add: sc scan_in_prefixed_range_def index_scan_new_def)
  ultimately show ?thesis
    using lawful_key.nothing_above_all_ff [OF K, of last_key] lawful_key.nothing_between_neighbours [OF K, of a b]
      lawful_key.nothing_above_all_ff [OF suffix, of s]
    by (auto simp: contains_pair simp del: contains.simps)
qed

theorem prefix_encoder_gaps_witness:
  "\<exists>sc it. collection_index_scan memory_ms ''tasks'' by_board two_tasks = Ret sc \<and>
     scan_iter memory_ms (prefix2 u8_key u8_key)
       (scan_in_range PrefixEncoder (tuple2_key u8_key u8_key) (Excluded (255, 255), Unbounded) sc) = Ret it \<and>
     scan_collect memory_ms task_item it = index_entries task_item by_board [task_a, task_b] \<and>
     scan_iter memory_ms (prefix2 u8_key u8_key)
       (scan_in_range PrefixEncoder (tuple2_key u8_key u8_key) (Excluded (0, 5), Excluded (0, 6)) sc) = Panicked \<and>
     scan_iter memory_ms (prefix2 u8_key u8_key)
       (scan_in_prefixed_range PrefixEncoder (tuple2_key u8_key u8_key) (prefix2 u8_key u8_key) 0
          (Excluded 255, Unbounded) sc) = Panicked"
proof (rule memory_holdsD [OF two_tasks_hold])
  fix S assume S: "memory_abs two_tasks ''tasks'' = Some S"
  have enc: "bounds_encoder (kind by_board) = PrefixEncoder" "index_key_key by_board = tuple2_key u8_key u8_key"
    by (simp_all add: by_board_def multi_kind_def)
  have bytes: "encode (tuple2_key u8_key u8_key) (x, y) = [x, y]" "encode u8_key x = [x]" for x y
    by (simp_all add: tuple2_key_def u8_key_def unsigned_key_def size_of_def)
  have parts: "prefix_key (prefix2 u8_key u8_key) = u8_key" "suffix_key (prefix2 u8_key u8_key) = u8_key"
    by (simp_all add: prefix2_def)
  have end5: "prefix_end [0, 5] = Excluded [0, 6]" by (simp add: prefix_end_def)
  have scan: "collection_index_scan memory_ms ''tasks'' by_board two_tasks =
      Ret (index_scan_new (index_name by_board) S MAIN_STORE)"
    by (rule memory_index_scan [OF S])
  note gaps = prefix_encoder_gaps [OF tasks.lawful_item_axioms two_tasks_hold by_board_of enc(1) by_board_prefixable scan,
      where last_key = "(255, 255)" and e = Unbounded and a = "(0, 5)" and b = "(0, 6)" and p = 0 and s = 255,
      unfolded enc parts bytes]
  have "rows (index_store_key task_item (erase_index by_board)) LeftToRight (\<lambda>_. True) both_tasks [task_a, task_b]"
    unfolding both_tasks_rows
    by (auto simp: ordered_def index_store_key_def task_item_def task_a_def task_b_def bytes)
  then have "rows (index_store_key task_item (erase_index by_board)) LeftToRight (\<lambda>_. True) both_tasks rs \<Longrightarrow>
      rs = [task_a, task_b]" for rs
    using rows_unique by blast
  then show ?thesis
    using gaps scan by (auto simp: all_ff_def end5 simp del: contains.simps)
qed

text \<open>Pages. Whatever chain of builders a scan of an index is, scanning again with \<open>after\<close> and the
  cursor of the entry at position \<open>i\<close> of its results yields, on the same snapshot, exactly the
  results behind position \<open>i\<close>, in both directions, so that pages neither skip nor repeat.\<close>

theorem pages_resume:
  assumes "lawful_item R lt pk_valid rec_ok" "coll_repr R rec_ok T tbl S"
    and "index_of R rec_ok T ltk ik_valid X"
    and "scan_base sc = IndexExecutor (index_name X) MAIN_STORE S"
    and "scan_iter memory_ms Xp sc = Ret it" "scan_collect memory_ms R it = index_entries R X rs"
    and "i < length rs"
  shows "\<exists>it'. scan_iter memory_ms Xp (scan_after (index_cursor R X (rs ! i)) sc) = Ret it' \<and>
               scan_collect memory_ms R it' = index_entries R X (drop (Suc i) rs)"
  using lawful_item.memory_index_resume [OF assms] .

theorem pages_resume_witness:
  "\<exists>S it it'. memory_abs two_tasks ''tasks'' = Some S \<and>
     scan_iter memory_ms (prefix2 u8_key u8_key) (index_scan_new ''by_slot'' S MAIN_STORE) = Ret it \<and>
     scan_collect memory_ms task_item it = index_entries task_item by_slot [task_a, task_b] \<and>
     scan_iter memory_ms (prefix2 u8_key u8_key)
       (scan_after (index_cursor task_item by_slot task_a) (index_scan_new ''by_slot'' S MAIN_STORE)) = Ret it' \<and>
     scan_collect memory_ms task_item it' = index_entries task_item by_slot [task_b]"
proof (rule memory_holdsD [OF two_tasks_hold])
  fix S assume S: "memory_abs two_tasks ''tasks'' = Some S"
    "coll_repr task_item (\<lambda>_. True) task_registry both_tasks S"
  let ?sc = "index_scan_new ''by_slot'' S MAIN_STORE :: (stores, 8 word) scan"
  have base: "scan_base ?sc = IndexExecutor (index_name by_slot) MAIN_STORE S"
    by (simp add: index_scan_new_def by_slot_def)
  obtain it where it: "scan_iter memory_ms (prefix2 u8_key u8_key) ?sc = Ret it"
      "scan_collect memory_ms task_item it = index_entries task_item by_slot [task_a, task_b]"
    using slot_scan [OF S(2)] by blast
  then show ?thesis
    using pages_resume [OF tasks.lawful_item_axioms S(2) by_slot_of base it, of 0] S(1) by simp
qed

text \<open>\<open>after\<close> on any chain that compiles fails exactly when the cursor is a key outside the compiled
  range, and then with \<open>CursorOutOfBounds\<close>; no cursor leaves the chain as it is.\<close>

theorem after_checks_bounds:
  assumes "compile Xp sc = Ret c"
  shows "(compile Xp (scan_after cur sc) = Fail CursorOutOfBounds \<longleftrightarrow>
            (\<exists>key. cur = CursorKey key \<and> \<not> contains (<) (cs_range c) key)) \<and>
         (compile Xp (scan_after NoCursor sc) = Ret c)"
  using assms
  by (cases cur)
    (simp_all add: scan_after_def compile_after compile_after_none del: compile.simps(5) contains.simps)

theorem after_checks_bounds_witness:
  "compile (prefix2 u8_key u8_key)
     (scan_after (CursorKey [9]) (scan_in_range ExactEncoder u8_key (Unbounded, Excluded 9)
        (collection_scan_new ((\<lambda>_. None) :: stores) MAIN_STORE))) = Fail CursorOutOfBounds"
proof -
  have "compile (prefix2 u8_key u8_key) (scan_in_range ExactEncoder u8_key (Unbounded, Excluded 9)
        (collection_scan_new ((\<lambda>_. None) :: stores) MAIN_STORE)) =
      Ret \<lparr>cs_executor = CollectionExecutor MAIN_STORE (\<lambda>_. None), cs_range = (Unbounded, Excluded [9]),
           cs_direction = LeftToRight\<rparr>"
    by (simp add: scan_in_range_def collection_scan_new_def encode_range_def u8_key_def unsigned_key_def
        size_of_def)
  from after_checks_bounds [OF this, of "CursorKey [9]"] show ?thesis by simp
qed

text \<open>A scan that resumes after a key never asks the backend for a malformed range: it returns an
  iterator or \<open>CursorOutOfBounds\<close>, even when the chain before the cursor would panic.\<close>

theorem after_never_panics:
  assumes "lawful_item R lt pk_valid rec_ok" "coll_repr R rec_ok T tbl S"
    and "index_of R rec_ok T ltk ik_valid X"
    and "scan_base sc = IndexExecutor (index_name X) MAIN_STORE S"
  shows "(\<exists>it. scan_iter memory_ms Xp (scan_after (CursorKey key) sc) = Ret it) \<or>
         scan_iter memory_ms Xp (scan_after (CursorKey key) sc) = Fail CursorOutOfBounds"
proof (cases "compile Xp (AfterScan (CursorKey key) sc)")
  case (Ret c)
  then obtain c0 where "compile Xp sc = Ret c0" "contains (<) (cs_range c0) key"
      "c = c0\<lparr>cs_range := after_range (cs_direction c0) key (cs_range c0)\<rparr>"
    by (cases "compile Xp sc") (auto simp: compile_after simp del: compile.simps(5) compile_cursor_def split: if_splits)
  then have "\<not> range_panics (cs_range c)" by (simp add: after_range_no_panic)
  then show ?thesis
    using lawful_item.memory_index_rows [OF assms(1-3) Ret] assms(4) by (auto simp: scan_after_def)
next
  case (Fail e)
  then show ?thesis
    using compile_only_cursor_fails [OF Fail] by (simp add: scan_after_def scan_iter_def del: compile.simps)
qed (use compile_returns in \<open>blast+\<close>)

theorem after_never_panics_witness:
  "\<exists>S. memory_abs two_tasks ''tasks'' = Some S \<and>
     ((\<exists>it. scan_iter memory_ms (prefix2 u8_key u8_key)
             (scan_after (CursorKey [7]) (index_scan_new ''by_slot'' S MAIN_STORE)) = Ret it) \<or>
      scan_iter memory_ms (prefix2 u8_key u8_key)
             (scan_after (CursorKey [7]) (index_scan_new ''by_slot'' S MAIN_STORE)) = Fail CursorOutOfBounds)"
proof (rule memory_holdsD [OF two_tasks_hold])
  fix S assume S: "memory_abs two_tasks ''tasks'' = Some S"
    "coll_repr task_item (\<lambda>_. True) task_registry both_tasks S"
  have "scan_base (index_scan_new ''by_slot'' S MAIN_STORE) = IndexExecutor (index_name by_slot) MAIN_STORE S"
    by (simp add: index_scan_new_def by_slot_def)
  from after_never_panics [OF tasks.lawful_item_axioms S(2) by_slot_of this] S(1) show ?thesis by blast
qed

text \<open>C13: Lookup by the key of a unique index returns the one record of the table with that index key, and
  \<open>None\<close> exactly when there is none.\<close>

theorem unique_get_correct:
  assumes "lawful_item R lt pk_valid rec_ok" "coll_repr R rec_ok T tbl S"
    and "index_of R rec_ok T ltk ik_valid X" "bounds_encoder (kind X) = ExactEncoder" "ik_valid k"
  shows "\<exists>found. index_get memory_ms R (index_key_key X) (index_name X) MAIN_STORE S k = Ret found \<and>
           (\<forall>r. found = Some r \<longleftrightarrow> (\<exists>pk. tbl pk = Some r) \<and> index_key X r = k)"
proof -
  have "erase_index X \<in> set T" "lawful_key (index_key_key X) ltk ik_valid"
    "index_layout_ok R rec_ok ik_valid X" using assms(3) by (simp_all add: index_of_def)
  then show ?thesis using assms(4,5)
    by (intro lawful_item.unique_get_eq [where ik_valid = ik_valid and ltk = ltk, OF assms(1,2)])
qed

theorem unique_get_correct_witness:
  "\<exists>S. memory_abs two_tasks ''tasks'' = Some S \<and>
     index_get memory_ms task_item u8_key ''by_slot'' MAIN_STORE S 9 = Ret (Some task_b)"
proof (rule memory_holdsD [OF two_tasks_hold])
  fix S assume S: "memory_abs two_tasks ''tasks'' = Some S"
    "coll_repr task_item (\<lambda>_. True) task_registry both_tasks S"
  obtain found where f: "index_get memory_ms task_item u8_key ''by_slot'' MAIN_STORE S 9 = Ret found"
      "found = Some task_b \<longleftrightarrow> (\<exists>pk. both_tasks pk = Some task_b) \<and> index_key by_slot task_b = 9"
    using unique_get_correct [OF tasks.lawful_item_axioms S(2) by_slot_of, of 9]
    by (auto simp: by_slot_def unique_kind_def)
  have "\<exists>pk. both_tasks pk = Some task_b" unfolding both_tasks_records by simp
  then show ?thesis using f S(1) by (simp add: by_slot_def task_b_def)
qed

text \<open>A \<open>Multi\<close> index never refuses a record: its store keys end in the primary key, so no other
  record has the store key of a record that is inserted or updated.\<close>

theorem multi_index_never_conflicts:
  assumes "lawful_key A la va" "lawful_key (pk_key R) lt pk_valid"
    and "kind X = multi_kind (append1 A (pk_key R)) dbg"
    and "\<And>r. rec_ok r \<Longrightarrow> va (tup1_0 (index_key X r)) \<and> pk_valid (item_key R r)"
    and "table_ok R rec_ok tbl" "rec_ok new"
  shows "\<not> index_conflict (erase_index X) tbl (item_key R new) new"
  by (rule index_conflict_none [OF _ assms(5,6) refl])
    (use multi_store_key_pk [OF lawful_tuple2_key [OF assms(1,2)] assms(3)] assms(4) in blast)

theorem multi_index_never_conflicts_witness:
  "\<not> index_conflict (erase_index by_status) [1 \<mapsto> task_a] 2 task_b"
proof -
  have "table_ok task_item (\<lambda>_. True) [1 \<mapsto> task_a]" by (simp add: table_ok_def task_a_def)
  then show ?thesis
    using multi_index_never_conflicts [OF u8.lawful_key_axioms, of task_item "(<)" "\<lambda>_. True" by_status _
        "\<lambda>_. True" "[1 \<mapsto> task_a]" task_b] u64.lawful_key_axioms
    by (simp add: by_status_def task_b_def)
qed

section \<open>Any backend\<close>

text \<open>On any backend that keeps the contract of the storage traits, \<open>save\<close> either returns a backend
  error and nothing is published, or its result and the published stores are those of its
  specification; in both cases, unless the codec hangs, no writer is left behind.\<close>

theorem save_on_any_backend:
  assumes "lawful_multistore may_fail I db_inv db_abs writing origin rh_abs rs_abs wh_ok wh_abs ws_ok ws_abs"
    and "lawful_item R lt pk_valid rec_ok" "registry_ok R rec_ok T" "rec_ok r"
    and "db_inv db" "db_abs db nm = Some S" "coll_repr R rec_ok T tbl S"
    and "collection_save I R T nm r db = (res, db')"
  shows "((\<exists>e. res = Fail (error_backend e) \<and> may_fail e) \<and> db_abs db' = db_abs db \<or>
          agrees R rec_ok T nm (db_abs db) (spec_save R T r tbl) (res, db_abs db')) \<and>
         (res \<noteq> Hung \<longrightarrow> db_inv db')"
proof -
  have "agrees R rec_ok T nm (db_abs db) (spec_save R T r tbl) (collection_save ref_ms R T nm r (db_abs db))"
    by (rule lawful_item.save_agrees [where S = S and D = "db_abs db" and nm = nm, OF assms(2,6,7,3,4)])
  then show ?thesis
    using lawful_multistore.collection_save_refines [OF assms(1,5), of R T nm r] assms(8)
    unfolding lawful_multistore.call_refines_def [OF assms(1)] backend_failed_def
    by (cases "collection_save ref_ms R T nm r (db_abs db)") auto
qed

theorem save_on_any_backend_witness:
  "fst (collection_save memory_ms task_item task_registry ''tasks'' (task_a\<lparr>task_slot := 8\<rparr>) two_tasks) = Ret ()"
proof (rule memory_holdsD [OF two_tasks_hold])
  fix S assume S: "memory_inv two_tasks" "memory_abs two_tasks ''tasks'' = Some S"
    "coll_repr task_item (\<lambda>_. True) task_registry both_tasks S"
  obtain res db' where x: "collection_save memory_ms task_item task_registry ''tasks''
      (task_a\<lparr>task_slot := 8\<rparr>) two_tasks = (res, db')" by fastforce
  from save_on_any_backend [OF mem.lawful_multistore_axioms tasks.lawful_item_axioms task_registry_ok _ S x]
  show ?thesis by (auto simp: x agrees_def save_free_spec)
qed

section \<open>Two remarks on the collection\<close>

text \<open>The name of the primary store is free for an index, which then shares that store.\<close>

lemma main_index_accepted:
  "ix_name X = MAIN_STORE \<Longrightarrow>
   with_index X (collection nm db) = Ret \<lparr>builder_name = nm, builder_db = db, builder_indexes = [X]\<rparr> \<and>
   registry_store_names [X] [MAIN_STORE] = [MAIN_STORE, MAIN_STORE]"
  by (simp add: with_index_def collection_def)

text \<open>Starting an index scan reads from the backend at once, and fails with it.\<close>

lemma index_scan_reads_at_once:
  "ms_read I nm db = Fail e \<Longrightarrow> collection_index_scan I nm X db = Fail (error_backend e)"
  by (simp add: collection_index_scan_def)

end
